(* ===== verification/Steller_Prelude.thy ===== *)
theory Steller_Prelude
  imports Main "HOL-Library.Word" "HOL-Library.AList" "HOL-Library.Stream" "HOL-Library.Sublist"
begin

text \<open>
  Shared vocabulary of the development: bytes, results, and the two std collections the server
  is built on.  A \<^verbatim>\<open>u8\<close> is a HOL \<^typ>\<open>char\<close> (exactly 256 values, so a byte string
  literal is a HOL string literal); a \<^verbatim>\<open>Result<T, E>\<close> is a sum with the error on
  the left.  A \<^verbatim>\<open>HashMap\<close> is an association list with distinct keys and a
  \<^verbatim>\<open>HashSet\<close> a list without repetition; the list order stands for the unspecified
  iteration order, and no result below depends on it.  Both collections are
  used through an interface (a locale) that their list versions interpret.
\<close>

section \<open>Bytes and results\<close>

type_synonym byte = char
type_synonym bytes = "char list"

abbreviation CR :: byte where "CR \<equiv> CHR 0x0D"
abbreviation LF :: byte where "LF \<equiv> CHR 0x0A"
abbreviation CRLF :: bytes where "CRLF \<equiv> [CR, LF]"

type_synonym ('e, 'a) result = "'e + 'a"

text \<open>Collections that carry the component proofs.\<close>

named_theorems codec_simps \<open>what a decoder answers on encoded bytes\<close>
named_theorems map_laws \<open>lookup and invariant laws of the collections\<close>
named_theorems lock_simps \<open>what the operations answer on a healthy mutex\<close>

text \<open>The \<^verbatim>\<open>?\<close> operator: pass the error on, continue with the value.\<close>

definition and_then :: "('e, 'a) result \<Rightarrow> ('a \<Rightarrow> ('e, 'b) result) \<Rightarrow> ('e, 'b) result" where
  "and_then r f = (case r of Inl e \<Rightarrow> Inl e | Inr x \<Rightarrow> f x)"

definition map_err :: "('e \<Rightarrow> 'f) \<Rightarrow> ('e, 'a) result \<Rightarrow> ('f, 'a) result" where
  "map_err h r = (case r of Inl e \<Rightarrow> Inl (h e) | Inr x \<Rightarrow> Inr x)"

lemma and_then_simps [simp]:
  "and_then (Inl e) f = Inl e"
  "and_then (Inr x) f = f x"
  by (simp_all add: and_then_def)

lemma map_err_simps [simp]:
  "map_err h (Inl e) = Inl (h e)"
  "map_err h (Inr x) = Inr x"
  by (simp_all add: map_err_def)

lemma and_then_eq_Inr: "and_then r f = Inr y \<longleftrightarrow> (\<exists>x. r = Inr x \<and> f x = Inr y)"
  by (cases r) auto

lemma and_then_eq_Inl:
  "and_then r f = Inl e \<longleftrightarrow> r = Inl e \<or> (\<exists>x. r = Inr x \<and> f x = Inl e)"
  by (cases r) auto

lemma map_err_eq_Inr [simp]: "map_err h r = Inr y \<longleftrightarrow> r = Inr y"
  by (cases r) auto

lemma map_err_eq_Inl: "map_err h r = Inl e \<longleftrightarrow> (\<exists>e'. r = Inl e' \<and> e = h e')"
  by (cases r) auto

lemma and_then_cong [fundef_cong]:
  "r = r' \<Longrightarrow> (\<And>x. r' = Inr x \<Longrightarrow> f x = g x) \<Longrightarrow> and_then r f = and_then r' g"
  by (cases r') auto

section \<open>The hash map interface\<close>

locale hash_map =
  fixes get :: "'m \<Rightarrow> 'k \<Rightarrow> 'v option"
    and insert :: "'k \<Rightarrow> 'v \<Rightarrow> 'm \<Rightarrow> 'm"
    and remove :: "'k \<Rightarrow> 'm \<Rightarrow> 'm"
    and iter :: "'m \<Rightarrow> ('k \<times> 'v) list"
    and invar :: "'m \<Rightarrow> bool"
  assumes get_insert: "get (insert k v m) = (get m)(k \<mapsto> v)"
    and get_remove: "get (remove k m) = (get m)(k := None)"
    and iter_get: "invar m \<Longrightarrow> (k, v) \<in> set (iter m) \<longleftrightarrow> get m k = Some v"
    and iter_distinct: "invar m \<Longrightarrow> distinct (map fst (iter m))"
    and invar_insert: "invar m \<Longrightarrow> invar (insert k v m)"
    and invar_remove: "invar m \<Longrightarrow> invar (remove k m)"
begin

text \<open>Removing the keys of a list one after the other.\<close>

lemma get_fold_remove: "get (fold remove ks m) k = (if k \<in> set ks then None else get m k)"
  by (induction ks arbitrary: m) (auto simp: get_remove)

lemma invar_fold_remove: "invar m \<Longrightarrow> invar (fold remove ks m)"
  by (induction ks arbitrary: m) (auto simp: invar_remove)

text \<open>Collecting the keys whose value satisfies \<open>P\<close> and removing them is a filter.\<close>

lemma get_sweep:
  assumes "invar m"
  shows "get (fold remove (map fst (filter (\<lambda>(k, v). P v) (iter m))) m) k =
    (case get m k of Some v \<Rightarrow> if P v then None else Some v | None \<Rightarrow> None)"
proof -
  have "k \<in> set (map fst (filter (\<lambda>(k, v). P v) (iter m))) \<longleftrightarrow> (\<exists>v. get m k = Some v \<and> P v)"
    using iter_get [OF assms] by force
  then show ?thesis
    by (simp add: get_fold_remove split: option.split)
qed

lemma sweep_count:
  assumes "invar m"
  shows "length (filter (\<lambda>(k, v). P v) (iter m)) = card {k. \<exists>v. get m k = Some v \<and> P v}"
proof -
  let ?ks = "map fst (filter (\<lambda>(k, v). P v) (iter m))"
  have "distinct ?ks"
    using iter_distinct [OF assms] by (rule distinct_map_filter)
  then have "length ?ks = card (set ?ks)"
    by (rule distinct_card [symmetric])
  also have "set ?ks = {k. \<exists>v. get m k = Some v \<and> P v}"
    using iter_get [OF assms] by force
  finally show ?thesis by simp
qed

end

abbreviation distinct_keys :: "('k \<times> 'v) list \<Rightarrow> bool" where
  "distinct_keys m \<equiv> distinct (map fst m)"

interpretation alist: hash_map map_of AList.update AList.delete "\<lambda>m. m" distinct_keys
proof (unfold_locales, goal_cases)
  case (1 k v m)
  show ?case by (rule update_conv')
next
  case (2 k m)
  show ?case by (rule delete_conv')
next
  case (3 m k v)
  then show ?case by (rule map_of_eq_Some_iff [symmetric])
next
  case (4 m)
  then show ?case .
next
  case (5 m k v)
  then show ?case by (rule distinct_update)
next
  case (6 m k)
  then show ?case by (rule distinct_delete)
qed

lemmas alist_laws [map_laws] =
  alist.get_insert alist.get_remove alist.invar_insert alist.invar_remove

section \<open>The hash set interface\<close>

locale hash_set =
  fixes elems :: "'s \<Rightarrow> 'a set"
    and add :: "'a \<Rightarrow> 's \<Rightarrow> 's"
    and del :: "'a \<Rightarrow> 's \<Rightarrow> 's"
    and size_of :: "'s \<Rightarrow> nat"
    and good :: "'s \<Rightarrow> bool"
  assumes elems_add: "elems (add x s) = Set.insert x (elems s)"
    and elems_del: "elems (del x s) = elems s - {x}"
    and size_card: "good s \<Longrightarrow> size_of s = card (elems s)"
    and finite_elems: "finite (elems s)"
    and good_add: "good s \<Longrightarrow> good (add x s)"
    and good_del: "good s \<Longrightarrow> good (del x s)"
begin

lemma size_add: "good s \<Longrightarrow>
    size_of (add x s) = (if x \<in> elems s then size_of s else Suc (size_of s))"
  by (simp add: size_card good_add elems_add finite_elems card_insert_if insert_absorb)

lemma size_del: "good s \<Longrightarrow>
    size_of (del x s) = (if x \<in> elems s then size_of s - 1 else size_of s)"
  by (simp add: size_card good_del elems_del finite_elems card_Diff_singleton)

lemma size_zero_iff: "good s \<Longrightarrow> size_of s = 0 \<longleftrightarrow> elems s = {}"
  by (simp add: size_card finite_elems)

end

interpretation lset: hash_set set List.insert removeAll length distinct
  by unfold_locales (auto simp: distinct_card distinct_removeAll)

lemmas lset_laws [map_laws] = lset.elems_add lset.elems_del lset.good_add lset.good_del

end
