(* ===== verification/Rust_Std.thy ===== *)
theory Rust_Std
  imports Steller_Prelude
begin

text \<open>
  The parts of the Rust standard library the server computes with: UTF-8 validation
  (\<^verbatim>\<open>str::from_utf8\<close>), decimal parsing and printing of integers, ASCII lower
  casing, and the saturating operations on unsigned words.  Each follows the library's
  documented algorithm, errors included, because the errors reach the client as text.
  \<^verbatim>\<open>usize\<close> is taken to be 64 bits wide.
\<close>

section \<open>UTF-8 validation\<close>

abbreviation code :: "byte \<Rightarrow> nat" where "code \<equiv> of_char"

datatype utf8_error = Utf8Error (valid_up_to: nat) (error_len: "nat option")

definition utf8_char_width :: "nat \<Rightarrow> nat" where
  "utf8_char_width b =
    (if b < 0x80 then 1 else if b < 0xC2 then 0 else if b < 0xE0 then 2
     else if b < 0xF0 then 3 else if b < 0xF5 then 4 else 0)"

definition between :: "nat \<Rightarrow> nat \<Rightarrow> nat \<Rightarrow> bool" where
  "between lo hi n \<longleftrightarrow> lo \<le> n \<and> n \<le> hi"

abbreviation continuation :: "byte \<Rightarrow> bool" where
  "continuation c \<equiv> between 0x80 0xBF (code c)"

definition second_of_3 :: "nat \<Rightarrow> nat \<Rightarrow> bool" where
  "second_of_3 a b \<longleftrightarrow>
     a = 0xE0 \<and> between 0xA0 0xBF b \<or> between 0xE1 0xEC a \<and> between 0x80 0xBF b \<or>
     a = 0xED \<and> between 0x80 0x9F b \<or> between 0xEE 0xEF a \<and> between 0x80 0xBF b"

definition second_of_4 :: "nat \<Rightarrow> nat \<Rightarrow> bool" where
  "second_of_4 a b \<longleftrightarrow>
     a = 0xF0 \<and> between 0x90 0xBF b \<or> between 0xF1 0xF3 a \<and> between 0x80 0xBF b \<or>
     a = 0xF4 \<and> between 0x80 0x8F b"

fun run_utf8_validation :: "nat \<Rightarrow> bytes \<Rightarrow> (utf8_error, unit) result" where
  "run_utf8_validation i [] = Inr ()"
| "run_utf8_validation i (c # cs) =
    (let w = utf8_char_width (code c) in
     if w = 1 then run_utf8_validation (i + 1) cs
     else if w = 2 then
       (case cs of
          [] \<Rightarrow> Inl (Utf8Error i None)
        | c1 # cs1 \<Rightarrow>
            if \<not> continuation c1 then Inl (Utf8Error i (Some 1))
            else run_utf8_validation (i + 2) cs1)
     else if w = 3 then
       (case cs of
          [] \<Rightarrow> Inl (Utf8Error i None)
        | c1 # cs1 \<Rightarrow>
            if \<not> second_of_3 (code c) (code c1) then Inl (Utf8Error i (Some 1))
            else case cs1 of
              [] \<Rightarrow> Inl (Utf8Error i None)
            | c2 # cs2 \<Rightarrow>
                if \<not> continuation c2 then Inl (Utf8Error i (Some 2))
                else run_utf8_validation (i + 3) cs2)
     else if w = 4 then
       (case cs of
          [] \<Rightarrow> Inl (Utf8Error i None)
        | c1 # cs1 \<Rightarrow>
            if \<not> second_of_4 (code c) (code c1) then Inl (Utf8Error i (Some 1))
            else case cs1 of
              [] \<Rightarrow> Inl (Utf8Error i None)
            | c2 # cs2 \<Rightarrow>
                if \<not> continuation c2 then Inl (Utf8Error i (Some 2))
                else case cs2 of
                  [] \<Rightarrow> Inl (Utf8Error i None)
                | c3 # cs3 \<Rightarrow>
                    if \<not> continuation c3 then Inl (Utf8Error i (Some 3))
                    else run_utf8_validation (i + 4) cs3)
     else Inl (Utf8Error i (Some 1)))"

definition from_utf8 :: "bytes \<Rightarrow> (utf8_error, bytes) result" where
  "from_utf8 bs = and_then (run_utf8_validation 0 bs) (\<lambda>_. Inr bs)"

abbreviation ascii :: "byte \<Rightarrow> bool" where "ascii c \<equiv> code c < 0x80"

lemma run_utf8_validation_ascii:
  "list_all ascii bs \<Longrightarrow> run_utf8_validation i bs = Inr ()"
  by (induction bs arbitrary: i) (simp_all add: utf8_char_width_def)

lemma from_utf8_ascii: "list_all ascii bs \<Longrightarrow> from_utf8 bs = Inr bs"
  by (simp add: from_utf8_def run_utf8_validation_ascii)

lemma from_utf8_Inr: "from_utf8 bs = Inr s \<Longrightarrow> s = bs"
  by (auto simp: from_utf8_def and_then_eq_Inr)

section \<open>Decimal integers\<close>

text \<open>
  \<^verbatim>\<open>to_string\<close> of an unsigned and of a signed integer, and
  \<^verbatim>\<open>str::parse\<close> for an unsigned type with \<open>L\<close> values: one optional
  \<^verbatim>\<open>+\<close>, then digits, checked for overflow digit by digit.
\<close>

definition digit_byte :: "nat \<Rightarrow> byte" where
  "digit_byte d = char_of (48 + d)"

fun show_nat :: "nat \<Rightarrow> bytes" where
  "show_nat n = (if n < 10 then [digit_byte n] else show_nat (n div 10) @ [digit_byte (n mod 10)])"

declare show_nat.simps [simp del]

definition show_int :: "int \<Rightarrow> bytes" where
  "show_int i = (if i < 0 then CHR ''-'' # show_nat (nat (- i)) else show_nat (nat i))"

datatype int_error_kind = EmptyString | InvalidDigit | PosOverflow

definition to_digit :: "byte \<Rightarrow> nat option" where
  "to_digit c = (if between 48 57 (code c) then Some (code c - 48) else None)"

fun digits_loop :: "nat \<Rightarrow> nat \<Rightarrow> bytes \<Rightarrow> (int_error_kind, nat) result" where
  "digits_loop L r [] = Inr r"
| "digits_loop L r (c # cs) =
    (case to_digit c of
       None \<Rightarrow> Inl InvalidDigit
     | Some x \<Rightarrow>
         if L \<le> r * 10 then Inl PosOverflow
         else if L \<le> r * 10 + x then Inl PosOverflow
         else digits_loop L (r * 10 + x) cs)"

definition parse_uint :: "nat \<Rightarrow> bytes \<Rightarrow> (int_error_kind, nat) result" where
  "parse_uint L src =
    (case src of
       [] \<Rightarrow> Inl EmptyString
     | c # cs \<Rightarrow>
         if cs = [] \<and> (c = CHR ''+'' \<or> c = CHR ''-'') then Inl InvalidDigit
         else if c = CHR ''+'' then digits_loop L 0 cs
         else digits_loop L 0 src)"

lemma code_digit_byte: "d < 10 \<Longrightarrow> code (digit_byte d) = 48 + d"
  by (simp add: digit_byte_def of_char_of take_bit_eq_mod)

lemma to_digit_digit_byte [simp]: "d < 10 \<Longrightarrow> to_digit (digit_byte d) = Some d"
  by (simp add: to_digit_def code_digit_byte between_def)

lemma show_nat_nonempty [simp]: "show_nat n \<noteq> []"
  by (subst show_nat.simps) simp

lemma show_nat_digits: "list_all (\<lambda>c. between 48 57 (code c)) (show_nat n)"
proof (induction n rule: show_nat.induct)
  case (1 n)
  then show ?case
    by (subst show_nat.simps) (auto simp: code_digit_byte between_def)
qed

lemma show_nat_ascii: "list_all ascii (show_nat n)"
  using show_nat_digits [of n] by (auto simp: list_all_iff between_def)

lemma digits_loop_append:
  "digits_loop L r (xs @ ys) = and_then (digits_loop L r xs) (\<lambda>r'. digits_loop L r' ys)"
  by (induction L r xs rule: digits_loop.induct) (auto split: option.split)

lemma digits_loop_show_nat: "n < L \<Longrightarrow> digits_loop L 0 (show_nat n) = Inr n"
proof (induction n rule: show_nat.induct)
  case (1 n)
  show ?case
  proof (cases "n < 10")
    case True
    with 1 show ?thesis by (subst show_nat.simps) simp
  next
    case False
    with 1 have "digits_loop L 0 (show_nat (n div 10)) = Inr (n div 10)" by simp
    moreover have "n div 10 * 10 + n mod 10 = n" "n div 10 * 10 \<le> n" by simp_all
    ultimately show ?thesis
      using False \<open>n < L\<close> by (subst show_nat.simps) (simp add: digits_loop_append)
  qed
qed

lemma digits_loop_bound: "digits_loop L r cs = Inr n \<Longrightarrow> r < L \<Longrightarrow> n < L"
  by (induction L r cs rule: digits_loop.induct) (auto split: option.splits if_splits)

lemma parse_uint_bound: "parse_uint L src = Inr n \<Longrightarrow> 0 < L \<Longrightarrow> n < L"
  by (auto simp: parse_uint_def simp del: digits_loop.simps
      dest: digits_loop_bound split: list.splits if_splits)

lemma parse_uint_digits:
  assumes "list_all (\<lambda>c. between 48 57 (code c)) src" and "src \<noteq> []"
  shows "parse_uint L src = digits_loop L 0 src"
proof -
  obtain c cs where src: "src = c # cs"
    using assms(2) by (cases src) auto
  with assms(1) have "between 48 57 (code c)" by simp
  then have "c \<noteq> CHR ''+''" "c \<noteq> CHR ''-''" by (auto simp: between_def)
  with src show ?thesis by (simp add: parse_uint_def)
qed

lemma parse_uint_show_nat: "n < L \<Longrightarrow> parse_uint L (show_nat n) = Inr n"
  by (simp add: parse_uint_digits show_nat_digits digits_loop_show_nat)

lemma show_nat_inj: "show_nat m = show_nat n \<Longrightarrow> m = n"
proof -
  assume eq: "show_nat m = show_nat n"
  let ?L = "Suc (max m n)"
  have "Inr m = parse_uint ?L (show_nat m)" by (rule parse_uint_show_nat [symmetric]) simp
  also have "\<dots> = Inr n" unfolding eq by (rule parse_uint_show_nat) simp
  finally show "m = n" by simp
qed

section \<open>ASCII case\<close>

definition lower_byte :: "byte \<Rightarrow> byte" where
  "lower_byte c = (if between 65 90 (code c) then char_of (code c + 32) else c)"

definition to_ascii_lowercase :: "bytes \<Rightarrow> bytes" where
  "to_ascii_lowercase bs = map lower_byte bs"

lemmas lower_eval = to_ascii_lowercase_def lower_byte_def between_def char_of_eq_iff

section \<open>Saturating words\<close>

definition saturating_add :: "'a::len word \<Rightarrow> 'a word \<Rightarrow> 'a word" where
  "saturating_add a b = (if unat a + unat b < 2 ^ LENGTH('a) then a + b else - 1)"

definition saturating_sub :: "'a::len word \<Rightarrow> 'a word \<Rightarrow> 'a word" where
  "saturating_sub a b = (if b \<le> a then a - b else 0)"

definition saturating_mul :: "'a::len word \<Rightarrow> 'a word \<Rightarrow> 'a word" where
  "saturating_mul a b = (if unat a * unat b < 2 ^ LENGTH('a) then a * b else - 1)"

definition div_ceil :: "'a::len word \<Rightarrow> 'a word \<Rightarrow> 'a word" where
  "div_ceil a b = (if 0 < a mod b then a div b + 1 else a div b)"

lemma unat_max_word: "unat (- 1 :: 'a::len word) = 2 ^ LENGTH('a) - 1"
  by (simp add: unsigned_minus_1_eq_mask mask_eq_exp_minus_1)

lemma unat_saturating_add:
  fixes a b :: "'a::len word"
  shows "unat (saturating_add a b) = min (unat a + unat b) (2 ^ LENGTH('a) - 1)"
proof (cases "unat a + unat b < 2 ^ LENGTH('a)")
  case True
  then have "unat a + unat b \<le> 2 ^ LENGTH('a) - 1" by linarith
  with True show ?thesis by (simp add: saturating_add_def unat_word_ariths min_absorb1)
next
  case False
  then have "2 ^ LENGTH('a) - 1 \<le> unat a + unat b" by linarith
  with False show ?thesis by (simp add: saturating_add_def unat_max_word min_absorb2)
qed

lemma unat_saturating_mul:
  fixes a b :: "'a::len word"
  shows "unat (saturating_mul a b) = min (unat a * unat b) (2 ^ LENGTH('a) - 1)"
proof (cases "unat a * unat b < 2 ^ LENGTH('a)")
  case True
  then have "unat a * unat b \<le> 2 ^ LENGTH('a) - 1" by linarith
  with True show ?thesis by (simp add: saturating_mul_def unat_word_ariths min_absorb1)
next
  case False
  then have "2 ^ LENGTH('a) - 1 \<le> unat a * unat b" by linarith
  with False show ?thesis by (simp add: saturating_mul_def unat_max_word min_absorb2)
qed

lemma unat_saturating_sub: "unat (saturating_sub a b) = unat a - unat b"
  by (auto simp: saturating_sub_def unat_sub word_le_nat_alt)

lemma digit_bytes:
  "digit_byte 0 = CHR ''0''" "digit_byte 1 = CHR ''1''" "digit_byte 2 = CHR ''2''" "digit_byte 3 = CHR ''3''"
  "digit_byte 4 = CHR ''4''" "digit_byte 5 = CHR ''5''" "digit_byte 6 = CHR ''6''" "digit_byte 7 = CHR ''7''"
  "digit_byte 8 = CHR ''8''" "digit_byte 9 = CHR ''9''"
  by (simp_all add: digit_byte_def char_of_eq_iff)

text \<open>A printed \<^verbatim>\<open>u64\<close> has at most twenty digits.\<close>

lemma length_show_nat: "n < 10 ^ Suc k \<Longrightarrow> length (show_nat n) \<le> Suc k"
proof (induction k arbitrary: n)
  case 0
  then show ?case by (subst show_nat.simps) simp
next
  case (Suc k)
  then have "length (show_nat (n div 10)) \<le> Suc k" by (simp add: div_less_iff_less_mult)
  then show ?case by (subst show_nat.simps) simp
qed

lemma unat_u64_bound: "unat (w :: 64 word) < 18446744073709551616"
  using unsigned_less [of w] by simp

lemma show_u64_fits: "length (show_nat (unat (w :: 64 word))) < 18446744073709551616"
proof -
  have "unat w < 10 ^ Suc 19" using unat_u64_bound [of w] by simp
  from length_show_nat [OF this] show ?thesis by simp
qed

end
