(* ===== verification/Domain_Time.thy ===== *)
theory Domain_Time
  imports Rust_Std
begin

text \<open>
  \<^verbatim>\<open>domain/time.rs\<close>: the clock and the two units.  Both newtypes wrap a
  \<^verbatim>\<open>u64\<close>.  The wall clock is a stream of raw readings in nanoseconds relative to
  the UNIX epoch; every call of \<open>now\<close> takes the next one, so an operation that reads the
  clock twice can see two different times, and a reading before the epoch is the error the
  code propagates.
\<close>

section \<open>Units\<close>

datatype seconds = Seconds (seconds_get: "64 word")

datatype milliseconds = Milliseconds (millis_get: "64 word")

text \<open>The derived \<^verbatim>\<open>Ord\<close> of \<^verbatim>\<open>Milliseconds\<close> compares the wrapped counts.\<close>

instantiation milliseconds :: linorder
begin

definition less_eq_milliseconds :: "milliseconds \<Rightarrow> milliseconds \<Rightarrow> bool" where
  "less_eq_milliseconds a b \<longleftrightarrow> millis_get a \<le> millis_get b"

definition less_milliseconds :: "milliseconds \<Rightarrow> milliseconds \<Rightarrow> bool" where
  "less_milliseconds a b \<longleftrightarrow> millis_get a < millis_get b"

instance
  by standard
    (auto simp: less_eq_milliseconds_def less_milliseconds_def intro: milliseconds.expand)

end

lemma millis_le_nat: "a \<le> b \<longleftrightarrow> unat (millis_get a) \<le> unat (millis_get b)"
  by (simp add: less_eq_milliseconds_def word_le_nat_alt)

lemma millis_less_nat: "a < b \<longleftrightarrow> unat (millis_get a) < unat (millis_get b)"
  by (simp add: less_milliseconds_def word_less_nat_alt)

section \<open>Arithmetic\<close>

definition ms_saturating_sub :: "milliseconds \<Rightarrow> milliseconds \<Rightarrow> milliseconds" where
  "ms_saturating_sub a b = Milliseconds (saturating_sub (millis_get a) (millis_get b))"

definition ms_saturating_add :: "milliseconds \<Rightarrow> milliseconds \<Rightarrow> milliseconds" where
  "ms_saturating_add a b = Milliseconds (saturating_add (millis_get a) (millis_get b))"

definition to_seconds_rounded_up :: "milliseconds \<Rightarrow> seconds" where
  "to_seconds_rounded_up a = Seconds (div_ceil (millis_get a) 1000)"

definition millis_from_seconds :: "seconds \<Rightarrow> milliseconds" where
  "millis_from_seconds s = Milliseconds (saturating_mul (seconds_get s) 1000)"

section \<open>The clock\<close>

datatype system_time_error = SystemTimeError

type_synonym clock = "int stream"

definition now :: "clock \<Rightarrow> (system_time_error, milliseconds) result \<times> clock" where
  "now clk =
    (let nanos = shd clk; millis = nat (nanos div 1000000)
     in if nanos < 0 then (Inl SystemTimeError, stl clk)
        else (Inr (Milliseconds (if millis < 2 ^ 64 then word_of_nat millis else - 1)), stl clk))"

text \<open>The readings of a clock, and a clock that stands still at a given time.\<close>

definition reading :: "clock \<Rightarrow> (system_time_error, milliseconds) result" where
  "reading clk = fst (now clk)"

definition clock_at :: "milliseconds \<Rightarrow> clock" where
  "clock_at t = sconst (int (unat (millis_get t)) * 1000000)"

lemma now_eq: "now clk = (reading clk, stl clk)"
  by (simp add: now_def reading_def Let_def)

lemma reading_clock_at [simp]: "reading (clock_at t) = Inr t"
proof -
  have "unat (millis_get t) < 2 ^ 64" using unsigned_less [of "millis_get t"] by simp
  then show ?thesis by (simp add: reading_def now_def clock_at_def Let_def)
qed

lemma stl_clock_at [simp]: "stl (clock_at t) = clock_at t"
  by (simp add: clock_at_def)

section \<open>Facts about the conversions\<close>

lemma unat_millis_from_seconds:
  "unat (millis_get (millis_from_seconds s)) = min (unat (seconds_get s) * 1000) (2 ^ 64 - 1)"
  by (simp add: millis_from_seconds_def unat_saturating_mul)

lemma unat_ms_saturating_add:
  "unat (millis_get (ms_saturating_add a b)) =
     min (unat (millis_get a) + unat (millis_get b)) (2 ^ 64 - 1)"
  by (simp add: ms_saturating_add_def unat_saturating_add)

lemma unat_ms_saturating_sub:
  "unat (millis_get (ms_saturating_sub a b)) = unat (millis_get a) - unat (millis_get b)"
  by (simp add: ms_saturating_sub_def unat_saturating_sub)

lemma ceil_div_thousand:
  "(n + 999) div 1000 = n div 1000 + (if n mod 1000 = 0 then 0 else 1 :: nat)"
proof -
  have "(n mod 1000 + 999) div 1000 = (if n mod 1000 = 0 then 0 else 1 :: nat)"
    by (auto intro!: div_nat_eqI)
  then show ?thesis by (subst div_add1_eq) simp
qed

lemma unat_to_seconds_rounded_up:
  "unat (seconds_get (to_seconds_rounded_up a)) = (unat (millis_get a) + 999) div 1000"
proof -
  let ?n = "unat (millis_get a)"
  have m: "unat (millis_get a mod 1000) = ?n mod 1000"
    and d: "unat (millis_get a div 1000) = ?n div 1000"
    by (simp_all add: unat_mod_distrib unat_div_distrib)
  have "?n div 1000 + 1 < 2 ^ 64"
    using unat_u64_bound [of "millis_get a"] by (simp add: div_less_iff_less_mult)
  then have "unat (div_ceil (millis_get a) 1000) = ?n div 1000 + (if ?n mod 1000 = 0 then 0 else 1)"
    using m d by (simp add: div_ceil_def word_less_nat_alt unat_word_ariths)
  then show ?thesis
    by (simp add: to_seconds_rounded_up_def ceil_div_thousand)
qed

text \<open>
  the seconds a \<^verbatim>\<open>TTL\<close> reports are the remaining milliseconds rounded up: enough
  to cover them, and less than one second more.
\<close>

theorem to_seconds_rounded_up_bounds:
  "unat (millis_get a) \<le> 1000 * unat (seconds_get (to_seconds_rounded_up a)) \<and>
   1000 * unat (seconds_get (to_seconds_rounded_up a)) < unat (millis_get a) + 1000"
proof -
  let ?n = "unat (millis_get a) + 999"
  have "1000 * (?n div 1000) + ?n mod 1000 = ?n" "?n mod 1000 < 1000" by simp_all
  then show ?thesis unfolding unat_to_seconds_rounded_up by linarith
qed

end
