(* ===== verification/Commands.thy ===== *)
theory Commands
  imports Domain_Time
begin

text \<open>
  \<^verbatim>\<open>domain/command\<close>: the parsed commands, the errors of the lift from a frame, and
  the outcomes the handlers produce.  The constructors are the source's; where a name is taken
  in HOL it carries its type (\<^verbatim>\<open>TtlSome\<close>, \<^verbatim>\<open>OutcomeOk\<close>).
\<close>

section \<open>Commands\<close>

datatype read_command =
    Get (read_key: bytes)
  | Exists (read_key: bytes)
  | Ttl (read_key: bytes)

datatype write_command =
    Set (write_key: bytes) (set_value: bytes) (set_expires_at: "milliseconds option")
  | Delete (write_key: bytes)
  | ExpireAt (write_key: bytes) (expire_deadline: milliseconds)
  | Persist (write_key: bytes)

datatype cache_command = Read read_command | Write write_command

datatype channel_command =
    Subscribe "bytes list"
  | Unsubscribe "bytes list"
  | Publish bytes bytes

datatype command =
    Cache cache_command
  | Channel channel_command
  | Ping "bytes option"

datatype command_error =
    UnrecognizedCommand
  | NotEnoughParts
  | TooManyParts
  | Syntax
  | Utf8 utf8_error
  | ParseInt int_error_kind

text \<open>The \<^verbatim>\<open>Command::\<close> constructors, through the \<^verbatim>\<open>From\<close> impls.\<close>

definition command_from_read :: "read_command \<Rightarrow> command" where
  "command_from_read c = Cache (Read c)"

definition command_from_write :: "write_command \<Rightarrow> command" where
  "command_from_write c = Cache (Write c)"

definition command_get :: "bytes \<Rightarrow> command" where
  "command_get key = command_from_read (Get key)"

definition command_set :: "bytes \<Rightarrow> bytes \<Rightarrow> milliseconds option \<Rightarrow> command" where
  "command_set key val expires = command_from_write (Set key val expires)"

definition command_delete :: "bytes \<Rightarrow> command" where
  "command_delete key = command_from_write (Delete key)"

definition command_exists :: "bytes \<Rightarrow> command" where
  "command_exists key = command_from_read (Exists key)"

definition command_expire_at :: "bytes \<Rightarrow> milliseconds \<Rightarrow> command" where
  "command_expire_at key expires = command_from_write (ExpireAt key expires)"

definition command_ttl :: "bytes \<Rightarrow> command" where
  "command_ttl key = command_from_read (Ttl key)"

definition command_persist :: "bytes \<Rightarrow> command" where
  "command_persist key = command_from_write (Persist key)"

definition command_ping :: "bytes option \<Rightarrow> command" where
  "command_ping message = Ping message"

definition command_subscribe :: "bytes list \<Rightarrow> command" where
  "command_subscribe ids = Channel (Subscribe ids)"

definition command_unsubscribe :: "bytes list \<Rightarrow> command" where
  "command_unsubscribe ids = Channel (Unsubscribe ids)"

definition command_publish :: "bytes \<Rightarrow> bytes \<Rightarrow> command" where
  "command_publish channel message = Channel (Publish channel message)"

lemmas command_defs =
  command_from_read_def command_from_write_def command_get_def command_set_def
  command_delete_def command_exists_def command_expire_at_def command_ttl_def
  command_persist_def command_ping_def command_subscribe_def command_unsubscribe_def
  command_publish_def

section \<open>Outcomes\<close>

datatype ttl_outcome = KeyNotFound | TtlNotFound | TtlSome seconds

datatype command_outcome =
    Value "bytes option"
  | OutcomeOk
  | Bool bool
  | TtlOutcome ttl_outcome
  | Pong "bytes option"
  | OutcomeInteger int

record sub_unsub_inner_entry =
  channel_id :: "bytes option"
  subscription_count :: nat

definition sub_unsub_entry_new :: "bytes \<Rightarrow> nat \<Rightarrow> sub_unsub_inner_entry" where
  "sub_unsub_entry_new channel count = \<lparr>channel_id = Some channel, subscription_count = count\<rparr>"

definition sub_unsub_entry_new_null :: "nat \<Rightarrow> sub_unsub_inner_entry" where
  "sub_unsub_entry_new_null count = \<lparr>channel_id = None, subscription_count = count\<rparr>"

datatype channel_command_outcome =
    SubscribeOutcome "sub_unsub_inner_entry list"
  | UnsubscribeOutcome "sub_unsub_inner_entry list"
  | PublishOutcome "32 word"

end
