(* ===== verification/Resp_Frame.thy ===== *)
theory Resp_Frame
  imports Commands
begin

text \<open>
  \<^verbatim>\<open>resp/crlf.rs\<close> and \<^verbatim>\<open>resp/frame.rs\<close>: the RESP framer.  The parser
  is also the framer, so its three answers matter: a frame with the leftover bytes,
  \<^const>\<open>Inl\<close> with \<^verbatim>\<open>Incomplete\<close> when bytes are missing, and any other error
  when the bytes can never become a frame.  The lemmas state the round trip with the encoder and
  that an answer, once given, is stable when more bytes arrive; both are the laws of the
  interface \<open>streaming_codec\<close> that the log replay and the session reader rely on.
\<close>

section \<open>The CRLF terminator\<close>

definition is_crlf :: "bytes \<Rightarrow> bool" where
  "is_crlf bs = (case bs of a # b # _ \<Rightarrow> a = CR \<and> b = LF | _ \<Rightarrow> False)"

definition windows2 :: "bytes \<Rightarrow> (byte \<times> byte) list" where
  "windows2 bs = zip bs (tl bs)"

fun position :: "('a \<Rightarrow> bool) \<Rightarrow> 'a list \<Rightarrow> nat option" where
  "position P [] = None"
| "position P (x # xs) = (if P x then Some 0 else map_option Suc (position P xs))"

definition split_crlf :: "bytes \<Rightarrow> (bytes \<times> bytes) option" where
  "split_crlf bs =
    (case position (\<lambda>w. w = (CR, LF)) (windows2 bs) of
       None \<Rightarrow> None
     | Some p \<Rightarrow> Some (take p bs, drop 2 (drop p bs)))"

section \<open>Frames\<close>

datatype parse_length_error = LengthUtf8 utf8_error | LengthParseInt int_error_kind

datatype frame_error =
    MissingTerminator
  | UnknownSigil
  | InvalidLength parse_length_error
  | Incomplete
  | Malformed

datatype frame = Array "frame list" | BulkString bytes

type_synonym frame_result = "(frame_error, frame \<times> bytes) result"

definition parse_length :: "bytes \<Rightarrow> (frame_error, nat) result" where
  "parse_length len_bytes =
    and_then (map_err (InvalidLength \<circ> LengthUtf8) (from_utf8 len_bytes))
      (\<lambda>s. map_err (InvalidLength \<circ> LengthParseInt) (parse_uint (2 ^ 64) s))"

definition strip_prefix :: "bytes \<Rightarrow> bytes \<Rightarrow> bytes option" where
  "strip_prefix p bs = (if take (length p) bs = p then Some (drop (length p) bs) else None)"

definition parse_bulk_string :: "bytes \<Rightarrow> nat \<Rightarrow> frame_result" where
  "parse_bulk_string bs len =
    (if length bs < len then Inl Incomplete
     else let payload = take len bs; rest = drop len bs
       in if length rest < 2 then Inl Incomplete
          else case strip_prefix CRLF rest of
            None \<Rightarrow> Inl MissingTerminator
          | Some remaining \<Rightarrow> Inr (BulkString payload, remaining))"

lemma position_Some_less: "position P xs = Some i \<Longrightarrow> i < length xs"
  by (induction xs arbitrary: i) (auto split: if_splits)

lemma split_crlf_shorter: "split_crlf bs = Some (h, r) \<Longrightarrow> length r + 2 \<le> length bs"
  by (auto simp: split_crlf_def windows2_def dest!: position_Some_less split: option.splits)

text \<open>
  The parser.  \<^verbatim>\<open>parse_array\<close> loops over its elements and calls
  \<^verbatim>\<open>parse_one\<close> for each, which calls \<^verbatim>\<open>parse_array\<close> for a nested array:
  one mutual recursion, the loop carrying the frames read so far.
\<close>

function parse_one :: "bytes \<Rightarrow> frame_result"
  and parse_array_loop :: "frame list \<Rightarrow> bytes \<Rightarrow> nat \<Rightarrow> frame_result" where
  "parse_one bs =
    (case split_crlf bs of
       None \<Rightarrow> Inl Incomplete
     | Some (header, rest) \<Rightarrow>
         (case header of
            [] \<Rightarrow> Inl Malformed
          | sigil # len_bytes \<Rightarrow>
              if len_bytes = [] then Inl Malformed
              else and_then (parse_length len_bytes) (\<lambda>len.
                if sigil = CHR ''*'' then parse_array_loop [] rest len
                else if sigil = CHR ''$'' then parse_bulk_string rest len
                else Inl UnknownSigil)))"
| "parse_array_loop vec buf len =
    (if len = 0 then Inr (Array vec, buf)
     else and_then (parse_one buf) (\<lambda>vb. parse_array_loop (vec @ [fst vb]) (snd vb) (len - 1)))"
  by pat_completeness auto

lemma parse_shorter_partial:
  "parse_one_parse_array_loop_dom (Inl bs) \<Longrightarrow>
     (\<And>f r. parse_one bs = Inr (f, r) \<Longrightarrow> length r < length bs)"
  "parse_one_parse_array_loop_dom (Inr (vec, buf, n)) \<Longrightarrow>
     (\<And>f r. parse_array_loop vec buf n = Inr (f, r) \<Longrightarrow> length r \<le> length buf)"
proof (induction bs and vec buf n rule: parse_one_parse_array_loop.pinduct)
  case (1 bs)
  then show ?case
    by (fastforce simp: parse_one.psimps and_then_eq_Inr parse_bulk_string_def strip_prefix_def
        Let_def dest: split_crlf_shorter split: option.splits list.splits if_splits)
next
  case (2 vec buf n)
  then show ?case
    by (fastforce simp: parse_array_loop.psimps and_then_eq_Inr split: if_splits)
qed

termination parse_one
proof (relation "measure (\<lambda>x. case x of Inl bs \<Rightarrow> 2 * length bs
    | Inr (vec, buf, n) \<Rightarrow> 2 * length buf + 1)", goal_cases)
  case 1
  show ?case by simp
next
  case (2 bs hr header rest sigil len_bytes len)
  then show ?case by (auto dest: split_crlf_shorter)
next
  case (3 vec buf len)
  then show ?case by simp
next
  case (4 vec buf len vb)
  then show ?case
    using parse_shorter_partial(1) [of buf "fst vb" "snd vb"] by simp
qed

declare parse_one.simps [simp del] parse_array_loop.simps [simp del]

definition parse_array :: "bytes \<Rightarrow> nat \<Rightarrow> frame_result" where
  "parse_array bs len = parse_array_loop [] bs len"

fun frame_write_to :: "frame \<Rightarrow> bytes" where
  "frame_write_to (Array frames) =
     ''*'' @ show_nat (length frames) @ CRLF @ concat (map frame_write_to frames)"
| "frame_write_to (BulkString str) =
     ''$'' @ show_nat (length str) @ CRLF @ str @ CRLF"

definition frame_from_write_command :: "write_command \<Rightarrow> frame" where
  "frame_from_write_command c =
    (case c of
       Set key val expires \<Rightarrow>
         Array ([BulkString ''SET'', BulkString key, BulkString val] @
           (case expires of
              Some t \<Rightarrow> [BulkString ''PXAT'', BulkString (show_nat (unat (millis_get t)))]
            | None \<Rightarrow> []))
     | Delete key \<Rightarrow> Array [BulkString ''DEL'', BulkString key]
     | ExpireAt key t \<Rightarrow>
         Array [BulkString ''PEXPIREAT'', BulkString key,
           BulkString (show_nat (unat (millis_get t)))]
     | Persist key \<Rightarrow> Array [BulkString ''PERSIST'', BulkString key])"

section \<open>The parser on a bounded stack\<close>

text \<open>
  The same two functions with the call stack made explicit: \<open>parse_one_stack d\<close> has room for
  \<open>d\<close> nested activations of \<^verbatim>\<open>parse_one\<close>, and \<^const>\<open>None\<close> is the
  overflow.  The element loop itself needs no stack; a nested array does.
\<close>

fun parse_array_stack ::
    "(bytes \<Rightarrow> frame_result option) \<Rightarrow> frame list \<Rightarrow> bytes \<Rightarrow> nat \<Rightarrow> frame_result option" where
  "parse_array_stack one vec buf len =
    (if len = 0 then Some (Inr (Array vec, buf))
     else case one buf of
       None \<Rightarrow> None
     | Some (Inl e) \<Rightarrow> Some (Inl e)
     | Some (Inr (v, rest)) \<Rightarrow> parse_array_stack one (vec @ [v]) rest (len - 1))"

declare parse_array_stack.simps [simp del]

primrec parse_one_stack :: "nat \<Rightarrow> bytes \<Rightarrow> frame_result option" where
  "parse_one_stack 0 bs = None"
| "parse_one_stack (Suc d) bs =
    (case split_crlf bs of
       None \<Rightarrow> Some (Inl Incomplete)
     | Some (header, rest) \<Rightarrow>
         (case header of
            [] \<Rightarrow> Some (Inl Malformed)
          | sigil # len_bytes \<Rightarrow>
              if len_bytes = [] then Some (Inl Malformed)
              else case parse_length len_bytes of
                Inl e \<Rightarrow> Some (Inl e)
              | Inr len \<Rightarrow>
                  if sigil = CHR ''*'' then parse_array_stack (parse_one_stack d) [] rest len
                  else if sigil = CHR ''$'' then Some (parse_bulk_string rest len)
                  else Some (Inl UnknownSigil)))"

definition nested_arrays :: "nat \<Rightarrow> bytes" where
  "nested_arrays d = concat (replicate d (''*1'' @ CRLF))"

section \<open>Facts about the terminator\<close>

lemma split_crlf_Nil [simp]: "split_crlf [] = None"
  by (simp add: split_crlf_def windows2_def)

lemma split_crlf_single [simp]: "split_crlf [c] = None"
  by (simp add: split_crlf_def windows2_def)

lemma split_crlf_Cons2:
  "split_crlf (a # b # bs) =
    (if a = CR \<and> b = LF then Some ([], bs)
     else map_option (\<lambda>(h, r). (a # h, r)) (split_crlf (b # bs)))"
  by (auto simp: split_crlf_def windows2_def split: option.split)

lemmas split_crlf_code = split_crlf_Nil split_crlf_single split_crlf_Cons2

lemma split_crlf_header: "CR \<notin> set h \<Longrightarrow> split_crlf (h @ CR # LF # r) = Some (h, r)"
proof (induction h)
  case Nil
  show ?case by (simp add: split_crlf_Cons2)
next
  case (Cons c h)
  show ?case
  proof (cases h)
    case Nil
    with Cons show ?thesis by (simp add: split_crlf_Cons2)
  next
    case (Cons d h')
    with Cons.IH Cons.prems show ?thesis by (auto simp: split_crlf_Cons2)
  qed
qed

lemma split_crlf_append: "split_crlf bs = Some (h, r) \<Longrightarrow> split_crlf (bs @ xs) = Some (h, r @ xs)"
proof (induction bs arbitrary: h rule: induct_list012)
  case 1
  then show ?case by simp
next
  case (2 a)
  then show ?case by simp
next
  case (3 a b bs)
  show ?case
  proof (cases "a = CR \<and> b = LF")
    case True
    with 3 show ?thesis by (simp add: split_crlf_Cons2)
  next
    case False
    with "3.prems" obtain h' where "h = a # h'" and "split_crlf (b # bs) = Some (h', r)"
      by (auto simp: split_crlf_Cons2)
    with "3.IH"(2) [of h'] False show ?thesis by (auto simp: split_crlf_Cons2)
  qed
qed

lemma split_crlf_parts: "split_crlf bs = Some (h, r) \<Longrightarrow> bs = h @ CRLF @ r"
proof (induction bs arbitrary: h rule: induct_list012)
  case 1
  then show ?case by simp
next
  case (2 a)
  then show ?case by simp
next
  case (3 a b bs)
  then show ?case by (auto simp: split_crlf_Cons2 split: if_splits)
qed

section \<open>What the parser consumes\<close>

lemma parse_bulk_string_suffix:
  "parse_bulk_string bs n = Inr (f, r) \<Longrightarrow> bs = take n bs @ CRLF @ r"
proof -
  assume "parse_bulk_string bs n = Inr (f, r)"
  then have "take 2 (drop n bs) = CRLF" and "r = drop 2 (drop n bs)"
    by (auto simp: parse_bulk_string_def strip_prefix_def Let_def numeral_2_eq_2 split: if_splits)
  then have "drop n bs = CRLF @ r" by (metis append_take_drop_id)
  then show ?thesis by (metis append_take_drop_id)
qed

lemma parse_suffix:
  "parse_one bs = Inr (f, r) \<Longrightarrow> strict_suffix r bs"
  "parse_array_loop vec buf n = Inr (f, r) \<Longrightarrow> suffix r buf"
proof (induction bs and vec buf n arbitrary: f r and f r
    rule: parse_one_parse_array_loop.induct)
  case (1 bs)
  then obtain h rest sigil len_bytes len where
      split: "split_crlf bs = Some (h, rest)" and h: "h = sigil # len_bytes" "len_bytes \<noteq> []"
    and len: "parse_length len_bytes = Inr len"
    and body: "(if sigil = CHR ''*'' then parse_array_loop [] rest len
       else if sigil = CHR ''$'' then parse_bulk_string rest len else Inl UnknownSigil) = Inr (f, r)"
    by (auto simp: parse_one.simps [of bs] and_then_eq_Inr
        split: option.splits list.splits if_splits)
  have "suffix r rest"
  proof (cases "sigil = CHR ''*''")
    case True
    with body "1.IH" [OF split refl h len] show ?thesis by simp
  next
    case False
    with body have "parse_bulk_string rest len = Inr (f, r)" by (simp split: if_splits)
    from parse_bulk_string_suffix [OF this] show ?thesis by (metis append_assoc suffixI)
  qed
  moreover have "strict_suffix rest bs"
    using split_crlf_parts [OF split] by (auto simp: strict_suffix_def suffix_def)
  ultimately show ?case by (rule suffix_order.le_less_trans)
next
  case (2 vec buf n)
  show ?case
  proof (cases "n = 0")
    case True
    with "2.prems" show ?thesis by (simp add: parse_array_loop.simps)
  next
    case False
    with "2.prems" obtain vb where one: "parse_one buf = Inr vb"
      and more: "parse_array_loop (vec @ [fst vb]) (snd vb) (n - 1) = Inr (f, r)"
      by (auto simp: parse_array_loop.simps [of vec buf n] and_then_eq_Inr)
    from "2.IH"(1) [OF False, of "fst vb" "snd vb"] one have "strict_suffix (snd vb) buf" by simp
    with "2.IH"(2) [OF False one more] show ?thesis
      by (meson suffix_order.le_less_trans suffix_order.less_imp_le)
  qed
qed

lemma parse_one_shorter: "parse_one bs = Inr (f, r) \<Longrightarrow> length r < length bs"
  by (rule suffix_length_less) (rule parse_suffix(1))

section \<open>Stability under more input\<close>

text \<open>
  An answer that is not \<^const>\<open>Incomplete\<close> stays the answer when bytes are appended:
  \<open>grown xs\<close> is what happens to it.
\<close>

definition grown :: "bytes \<Rightarrow> frame_result \<Rightarrow> frame_result" where
  "grown xs r = (case r of Inl e \<Rightarrow> Inl e | Inr (f, rest) \<Rightarrow> Inr (f, rest @ xs))"

lemma grown_simps [simp]:
  "grown xs (Inl e) = Inl e"
  "grown xs (Inr (f, r)) = Inr (f, r @ xs)"
  by (simp_all add: grown_def)

lemma parse_bulk_string_grow:
  "parse_bulk_string bs n \<noteq> Inl Incomplete \<Longrightarrow>
   parse_bulk_string (bs @ xs) n = grown xs (parse_bulk_string bs n)"
  by (auto simp: parse_bulk_string_def strip_prefix_def Let_def split: if_splits)

lemma parse_grow:
  "parse_one bs \<noteq> Inl Incomplete \<Longrightarrow> parse_one (bs @ xs) = grown xs (parse_one bs)"
  "parse_array_loop vec buf n \<noteq> Inl Incomplete \<Longrightarrow>
     parse_array_loop vec (buf @ xs) n = grown xs (parse_array_loop vec buf n)"
proof (induction bs and vec buf n rule: parse_one_parse_array_loop.induct)
  case (1 bs)
  then obtain h rest where split: "split_crlf bs = Some (h, rest)"
    by (auto simp: parse_one.simps [of bs] split: option.splits)
  show ?case
  proof (cases "\<exists>sigil len_bytes len. h = sigil # len_bytes \<and> len_bytes \<noteq> [] \<and>
      parse_length len_bytes = Inr len")
    case True
    then obtain sigil len_bytes len where h: "h = sigil # len_bytes" "len_bytes \<noteq> []"
      and len: "parse_length len_bytes = Inr len" by blast
    note loop = "1.IH" [OF split refl h len]
    show ?thesis
      using split h len "1.prems" loop parse_bulk_string_grow [of rest len xs]
      by (simp add: parse_one.simps [of bs] parse_one.simps [of "bs @ xs"]
          split_crlf_append [OF split] split: if_splits)
  next
    case False
    then show ?thesis
      using split
      by (auto simp: parse_one.simps [of bs] parse_one.simps [of "bs @ xs"] and_then_def
          split_crlf_append [OF split] split: list.splits sum.splits)
  qed
next
  case (2 vec buf n)
  show ?case
  proof (cases "n = 0")
    case True
    then show ?thesis by (simp add: parse_array_loop.simps)
  next
    case False
    with "2.prems" have not_inc: "parse_one buf \<noteq> Inl Incomplete"
      by (auto simp: parse_array_loop.simps [of vec buf n])
    from "2.IH"(1) [OF False not_inc] have one: "parse_one (buf @ xs) = grown xs (parse_one buf)" .
    show ?thesis
    proof (cases "parse_one buf")
      case (Inl e)
      with one False show ?thesis
        by (simp add: parse_array_loop.simps [of vec buf n] parse_array_loop.simps [of vec "buf @ xs" n])
    next
      case (Inr vb)
      with "2.IH"(2) [OF False Inr] "2.prems" one False show ?thesis
        by (cases vb) (simp add: parse_array_loop.simps [of vec buf n]
            parse_array_loop.simps [of vec "buf @ xs" n])
    qed
  qed
qed

section \<open>The codec interface\<close>

text \<open>
  What a client of a framed byte stream relies on.  Its lemmas are used by the log replay
  (frames back to back, a torn tail) and by the session reader (frames in arbitrary pieces).
\<close>

locale streaming_codec =
  fixes enc :: "'a \<Rightarrow> bytes"
    and dec :: "bytes \<Rightarrow> ('e, 'a \<times> bytes) result"
    and fits :: "'a \<Rightarrow> bool"
    and incomplete :: 'e
  assumes dec_enc: "fits x \<Longrightarrow> dec (enc x @ r) = Inr (x, r)"
    and dec_shorter: "dec bs = Inr (x, r) \<Longrightarrow> length r < length bs"
    and dec_grow: "dec bs = Inr (x, r) \<Longrightarrow> dec (bs @ xs) = Inr (x, r @ xs)"
    and dec_error_grow: "dec bs = Inl e \<Longrightarrow> e \<noteq> incomplete \<Longrightarrow> dec (bs @ xs) = Inl e"
begin

lemma enc_nonempty: "fits x \<Longrightarrow> enc x \<noteq> []"
proof
  assume fits: "fits x" and empty: "enc x = []"
  from dec_enc [OF fits, of "[]"] have "dec [] = Inr (x, [])" by (simp only: empty append_Nil)
  from dec_shorter [OF this] show False by simp
qed

lemma uniquely_decodable: "fits x \<Longrightarrow> fits y \<Longrightarrow> enc x @ r = enc y @ s \<Longrightarrow> x = y \<and> r = s"
proof -
  assume fits: "fits x" "fits y" and eq: "enc x @ r = enc y @ s"
  have "Inr (x, r) = dec (enc y @ s)" using dec_enc [OF fits(1), of r] unfolding eq by (rule sym)
  also have "\<dots> = Inr (y, s)" by (rule dec_enc) (rule fits(2))
  finally show ?thesis by simp
qed

lemma cut_frame_incomplete:
  assumes whole: "dec bs = Inr (x, r)" and cut: "length p < length bs - length r" "prefix p bs"
  shows "dec p = Inl incomplete"
proof (cases "dec p")
  case (Inl e)
  from cut(2) obtain xs where bs: "bs = p @ xs" by (auto simp: prefix_def)
  have "e = incomplete"
  proof (rule ccontr)
    assume "e \<noteq> incomplete"
    with Inl have "dec bs = Inl e" unfolding bs by (rule dec_error_grow)
    with whole show False by simp
  qed
  with Inl show ?thesis by simp
next
  case (Inr vr)
  obtain y s where vr: "vr = (y, s)" by (cases vr)
  from cut(2) obtain xs where bs: "bs = p @ xs" by (auto simp: prefix_def)
  from Inr vr have "dec bs = Inr (y, s @ xs)" unfolding bs by (simp add: dec_grow)
  with whole have "r = s @ xs" by simp
  with cut(1) bs show ?thesis by simp
qed

lemma torn_incomplete:
  assumes "fits x" "strict_prefix p (enc x)"
  shows "dec p = Inl incomplete"
proof (rule cut_frame_incomplete)
  show "dec (enc x) = Inr (x, [])" using dec_enc [OF assms(1), of "[]"] by simp
  show "length p < length (enc x) - length []" using prefix_length_less [OF assms(2)] by simp
  show "prefix p (enc x)" using assms(2) by simp
qed

end

section \<open>The round trip\<close>

text \<open>
  A frame fits when its lengths are \<^verbatim>\<open>usize\<close> values, as those of every frame in
  memory are.
\<close>

fun frame_fits :: "frame \<Rightarrow> bool" where
  "frame_fits (Array frames) \<longleftrightarrow> length frames < 2 ^ 64 \<and> list_all frame_fits frames"
| "frame_fits (BulkString str) \<longleftrightarrow> length str < 2 ^ 64"

lemma show_nat_no_CR: "CR \<notin> set (show_nat n)"
  using show_nat_digits [of n] by (auto simp: list_all_iff between_def)

lemma parse_length_show_nat: "n < 2 ^ 64 \<Longrightarrow> parse_length (show_nat n) = Inr n"
  by (simp add: parse_length_def from_utf8_ascii show_nat_ascii parse_uint_show_nat)

lemma parse_one_header:
  assumes "n < 2 ^ 64" "sigil \<noteq> CR"
  shows "parse_one (sigil # show_nat n @ CRLF @ rest) =
    (if sigil = CHR ''*'' then parse_array_loop [] rest n
     else if sigil = CHR ''$'' then parse_bulk_string rest n
     else Inl UnknownSigil)"
  using assms split_crlf_header [of "sigil # show_nat n" rest]
  by (simp add: parse_one.simps parse_length_show_nat show_nat_no_CR)

lemma parse_bulk_string_exact: "parse_bulk_string (str @ CRLF @ r) (length str) = Inr (BulkString str, r)"
  by (simp add: parse_bulk_string_def strip_prefix_def)

lemma parse_array_loop_frames:
  assumes "\<And>f r. f \<in> set fs \<Longrightarrow> parse_one (frame_write_to f @ r) = Inr (f, r)"
  shows "parse_array_loop vec (concat (map frame_write_to fs) @ r) (length fs) = Inr (Array (vec @ fs), r)"
  using assms
proof (induction fs arbitrary: vec)
  case Nil
  show ?case by (simp add: parse_array_loop.simps)
next
  case (Cons f fs)
  then show ?case by (subst parse_array_loop.simps) simp
qed

lemma parse_one_write_to: "frame_fits f \<Longrightarrow> parse_one (frame_write_to f @ r) = Inr (f, r)"
proof (induction f arbitrary: r)
  case (Array fs)
  then have "\<And>f r. f \<in> set fs \<Longrightarrow> parse_one (frame_write_to f @ r) = Inr (f, r)"
    by (simp add: list_all_iff)
  from parse_array_loop_frames [OF this] Array.prems show ?case
    using parse_one_header [of "length fs" "CHR ''*''"] by simp
next
  case (BulkString str)
  then show ?case
    using parse_one_header [of "length str" "CHR ''$''"] parse_bulk_string_exact [of str r] by simp
qed

interpretation resp: streaming_codec frame_write_to parse_one frame_fits Incomplete
proof (unfold_locales, goal_cases)
  case (1 f r)
  then show ?case by (rule parse_one_write_to)
next
  case (2 bs f r)
  then show ?case by (rule parse_one_shorter)
next
  case (3 bs f r xs)
  then show ?case using parse_grow(1) [of bs xs] by simp
next
  case (4 bs e xs)
  then show ?case using parse_grow(1) [of bs xs] by simp
qed

text \<open>
  C8: encoding a frame and parsing the bytes gives the frame back and leaves exactly the bytes that
  followed it, whatever the payload bytes are (an interior CRLF included).
\<close>

theorem frame_roundtrip:
  "frame_fits f \<Longrightarrow> parse_one (frame_write_to f @ rest) = Inr (f, rest)"
  by (rule resp.dec_enc)

theorem frame_roundtrip_witness:
  "parse_one (frame_write_to (Array [BulkString [CR, LF], Array []]) @ ''tail'') =
     Inr (Array [BulkString [CR, LF], Array []], ''tail'')"
  by (rule frame_roundtrip) simp

text \<open>
  a frame that has not fully arrived is reported as \<open>Incomplete\<close> and as nothing else:
  every proper prefix of the bytes a successful parse consumes.
\<close>

theorem frame_prefix_incomplete:
  assumes "parse_one bs = Inr (f, rest)" and "prefix p bs" and "length p < length bs - length rest"
  shows "parse_one p = Inl Incomplete"
  using assms(1,3,2) by (rule resp.cut_frame_incomplete)

theorem frame_prefix_incomplete_witness:
  "parse_one ''$3'' = Inl Incomplete"
proof (rule frame_prefix_incomplete)
  show "parse_one (frame_write_to (BulkString ''foo'')) = Inr (BulkString ''foo'', [])"
    using parse_one_write_to [of "BulkString ''foo''" "[]"] by simp
  show "prefix ''$3'' (frame_write_to (BulkString ''foo''))"
    by (simp add: show_nat.simps digit_byte_def char_of_eq_iff prefix_def)
  show "length ''$3'' < length (frame_write_to (BulkString ''foo'')) - length []"
    by (simp add: show_nat.simps)
qed

text \<open>
  C19: an answer other than \<open>Incomplete\<close> never changes when more bytes arrive: a parsed
  frame stays that frame with the new bytes left over, and an error stays that error.
\<close>

theorem parse_one_stable:
  "parse_one bs \<noteq> Inl Incomplete \<Longrightarrow>
   parse_one (bs @ new) =
     (case parse_one bs of Inl e \<Rightarrow> Inl e | Inr (f, rest) \<Rightarrow> Inr (f, rest @ new))"
  using parse_grow(1) [of bs new] by (simp add: grown_def)

theorem parse_one_stable_witness:
  "parse_one (''$'' @ CRLF @ ''junk'') = Inl Malformed"
proof -
  have malformed: "parse_one (''$'' @ CRLF) = Inl Malformed"
    by (simp add: parse_one.simps split_crlf_code)
  show ?thesis
    using parse_one_stable [of "''$'' @ CRLF" "''junk''"] malformed by simp
qed

section \<open>How much stack the parser needs\<close>

lemma parse_stack_enough:
  "length bs < d \<Longrightarrow> parse_one_stack d bs = Some (parse_one bs)"
  "length buf < d \<Longrightarrow>
     parse_array_stack (parse_one_stack d) vec buf n = Some (parse_array_loop vec buf n)"
proof (induction bs and vec buf n arbitrary: d and d rule: parse_one_parse_array_loop.induct)
  case (1 bs)
  then obtain d' where d: "d = Suc d'" "length bs \<le> d'" by (cases d) auto
  show ?case
  proof (cases "split_crlf bs")
    case None
    then show ?thesis by (simp add: d parse_one.simps)
  next
    case (Some hr)
    obtain h rest where split: "split_crlf bs = Some (h, rest)" using Some by (cases hr) auto
    with split_crlf_shorter [OF split] d(2) have short: "length rest < d'" by simp
    show ?thesis
    proof (cases h)
      case Nil
      with split show ?thesis by (simp add: d parse_one.simps)
    next
      case (Cons sigil len_bytes)
      show ?thesis
      proof (cases "parse_length len_bytes")
        case (Inl e)
        with split Cons show ?thesis by (simp add: d parse_one.simps)
      next
        case (Inr len)
        then show ?thesis
          using split Cons "1.IH" [OF split refl Cons _ Inr _ short]
          by (simp add: d parse_one.simps [of bs])
      qed
    qed
  qed
next
  case (2 vec buf n)
  show ?case
  proof (cases "n = 0")
    case True
    then show ?thesis by (simp add: parse_array_stack.simps parse_array_loop.simps)
  next
    case False
    from "2.IH"(1) [OF False "2.prems"] have one: "parse_one_stack d buf = Some (parse_one buf)" .
    show ?thesis
    proof (cases "parse_one buf")
      case (Inl e)
      with one False show ?thesis
        by (simp add: parse_array_stack.simps [of _ vec buf n] parse_array_loop.simps [of vec buf n])
    next
      case (Inr vb)
      obtain v r where vb: "vb = (v, r)" by (cases vb)
      with Inr parse_one_shorter [of buf v r] "2.prems" have "length r < d" by simp
      with "2.IH"(2) [OF False Inr, of d] one False Inr vb show ?thesis
        by (simp add: parse_array_stack.simps [of _ vec buf n] parse_array_loop.simps [of vec buf n])
    qed
  qed
qed

lemma show_one: "show_nat 1 = ''1''"
  by (simp add: show_nat.simps digit_byte_def char_of_eq_iff)

lemma nested_header: "split_crlf (''*1'' @ CRLF @ rest) = Some (''*1'', rest)"
  using split_crlf_header [of "''*1''" rest] by simp

lemma parse_length_one: "parse_length ''1'' = Inr 1"
  using parse_length_show_nat [of 1] by (simp add: show_one [simplified])

lemma parse_one_stack_nested:
  "parse_one_stack (Suc d) (nested_arrays (Suc n)) =
    (case parse_one_stack d (nested_arrays n) of
       None \<Rightarrow> None
     | Some (Inl e) \<Rightarrow> Some (Inl e)
     | Some (Inr (v, rest)) \<Rightarrow> Some (Inr (Array [v], rest)))"
proof -
  have split: "split_crlf (nested_arrays (Suc n)) = Some (''*1'', nested_arrays n)"
    using nested_header [of "nested_arrays n"] by (simp add: nested_arrays_def)
  show ?thesis
    by (simp only: parse_one_stack.simps split option.case prod.case)
      (auto simp: parse_length_one parse_array_stack.simps split: option.split sum.split)
qed

text \<open>
  C32: the parser's stack grows with the nesting of the input: for every stack depth \<open>d\<close> the
  \<open>4 * d\<close> bytes that open \<open>d\<close> nested arrays overflow it, although the parser would
  only have to answer \<open>Incomplete\<close>.  One activation per input byte is always enough.
\<close>

theorem parse_one_stack_depth:
  "length (nested_arrays d) = 4 * d \<and>
   parse_one_stack d (nested_arrays d) = None \<and>
   parse_one_stack (Suc d) (nested_arrays d) = Some (Inl Incomplete) \<and>
   parse_one_stack (Suc (length bs)) bs = Some (parse_one bs)"
proof (intro conjI)
  show "length (nested_arrays d) = 4 * d"
    by (induction d) (simp_all add: nested_arrays_def)
  show "parse_one_stack d (nested_arrays d) = None"
    by (induction d) (simp_all only: parse_one_stack.simps(1) parse_one_stack_nested option.case)
  show "parse_one_stack (Suc d) (nested_arrays d) = Some (Inl Incomplete)"
  proof (induction d)
    case 0
    show ?case by (simp add: nested_arrays_def)
  next
    case (Suc d)
    then show ?case by (simp only: parse_one_stack_nested option.case sum.case)
  qed
  show "parse_one_stack (Suc (length bs)) bs = Some (parse_one bs)"
    by (rule parse_stack_enough(1)) simp
qed

end
