(* ===== verification/Resp_Command.thy ===== *)
theory Resp_Command
  imports Resp_Frame
begin

text \<open>
  \<^verbatim>\<open>resp/command.rs\<close>: lifting a frame into a command.  The iterator over the array's
  frames is the list of frames not yet taken.  Only the relative deadlines read the clock, so the
  lift takes the clock and returns what is left of it.
\<close>

section \<open>Reading arguments\<close>

datatype command_from_frame_error =
    CommandError command_error
  | UnexpectedFrame
  | FrameSystemTime system_time_error

type_synonym 'a lift_result = "(command_from_frame_error, 'a) result"

definition next_bulk :: "frame list \<Rightarrow> (bytes \<times> frame list) lift_result" where
  "next_bulk iter =
    (case iter of
       [] \<Rightarrow> Inl (CommandError NotEnoughParts)
     | BulkString bs # rest \<Rightarrow> Inr (bs, rest)
     | Array _ # rest \<Rightarrow> Inl UnexpectedFrame)"

definition no_more :: "frame list \<Rightarrow> 'a \<Rightarrow> 'a lift_result" where
  "no_more iter x = (if iter \<noteq> [] then Inl (CommandError TooManyParts) else Inr x)"

definition parse_u64 :: "bytes \<Rightarrow> 64 word lift_result" where
  "parse_u64 bs =
    and_then (map_err (CommandError \<circ> Utf8) (from_utf8 bs)) (\<lambda>s.
    and_then (map_err (CommandError \<circ> ParseInt) (parse_uint (2 ^ 64) s)) (\<lambda>n.
    Inr (word_of_nat n)))"

fun collect_bulks :: "frame list \<Rightarrow> bytes list lift_result" where
  "collect_bulks [] = Inr []"
| "collect_bulks (BulkString bs # iter) = and_then (collect_bulks iter) (\<lambda>ids. Inr (bs # ids))"
| "collect_bulks (Array _ # iter) = Inl UnexpectedFrame"

section \<open>The verbs\<close>

text \<open>The arms of \<^verbatim>\<open>GET\<close>, \<^verbatim>\<open>DEL\<close>, \<^verbatim>\<open>EXISTS\<close>, \<^verbatim>\<open>TTL\<close> and
  \<^verbatim>\<open>PERSIST\<close>: one key and nothing after it.\<close>

definition one_key :: "(bytes \<Rightarrow> command) \<Rightarrow> frame list \<Rightarrow> command lift_result" where
  "one_key mk iter = and_then (next_bulk iter) (\<lambda>(key, iter). no_more iter (mk key))"

definition set_deadline ::
    "bytes \<Rightarrow> 64 word \<Rightarrow> clock \<Rightarrow> milliseconds lift_result \<times> clock" where
  "set_deadline opt amount clk =
    (if opt = ''ex'' then
       (case now clk of
          (Inl e, clk) \<Rightarrow> (Inl (FrameSystemTime e), clk)
        | (Inr t, clk) \<Rightarrow> (Inr (ms_saturating_add t (millis_from_seconds (Seconds amount))), clk))
     else if opt = ''px'' then
       (case now clk of
          (Inl e, clk) \<Rightarrow> (Inl (FrameSystemTime e), clk)
        | (Inr t, clk) \<Rightarrow> (Inr (ms_saturating_add t (Milliseconds amount)), clk))
     else if opt = ''exat'' then (Inr (millis_from_seconds (Seconds amount)), clk)
     else (Inr (Milliseconds amount), clk))"

definition parse_set_option ::
    "bytes \<Rightarrow> bytes \<Rightarrow> bytes \<Rightarrow> frame list \<Rightarrow> clock \<Rightarrow> command lift_result \<times> clock" where
  "parse_set_option key val opt iter clk =
    (if opt \<notin> set [''ex'', ''px'', ''exat'', ''pxat''] then (Inl (CommandError Syntax), clk)
     else case next_bulk iter of
       Inl e \<Rightarrow> (Inl e, clk)
     | Inr (bs, iter) \<Rightarrow>
         (case parse_u64 bs of
            Inl e \<Rightarrow> (Inl e, clk)
          | Inr amount \<Rightarrow>
              (case set_deadline opt amount clk of
                 (Inl e, clk) \<Rightarrow> (Inl e, clk)
               | (Inr expires, clk) \<Rightarrow> (no_more iter (command_set key val (Some expires)), clk))))"

definition parse_set :: "frame list \<Rightarrow> clock \<Rightarrow> command lift_result \<times> clock" where
  "parse_set iter clk =
    (case next_bulk iter of
       Inl e \<Rightarrow> (Inl e, clk)
     | Inr (key, iter) \<Rightarrow>
         (case next_bulk iter of
            Inl e \<Rightarrow> (Inl e, clk)
          | Inr (val, iter) \<Rightarrow>
              (case iter of
                 [] \<Rightarrow> (Inr (command_set key val None), clk)
               | Array _ # iter \<Rightarrow> (Inl UnexpectedFrame, clk)
               | BulkString opt # iter \<Rightarrow>
                   parse_set_option key val (to_ascii_lowercase opt) iter clk)))"

definition parse_ping :: "frame list \<Rightarrow> command lift_result" where
  "parse_ping iter =
    (case iter of
       [] \<Rightarrow> Inr (command_ping None)
     | Array _ # iter \<Rightarrow> Inl UnexpectedFrame
     | BulkString message # iter \<Rightarrow> no_more iter (command_ping (Some message)))"

text \<open>A key, a number, and nothing after them.\<close>

definition key_and_amount :: "frame list \<Rightarrow> (bytes \<times> 64 word) lift_result" where
  "key_and_amount iter =
    and_then (next_bulk iter) (\<lambda>(key, iter).
    and_then (next_bulk iter) (\<lambda>(bs, iter).
    and_then (parse_u64 bs) (\<lambda>amount. no_more iter (key, amount))))"

definition parse_expire :: "frame list \<Rightarrow> clock \<Rightarrow> command lift_result \<times> clock" where
  "parse_expire iter clk =
    (case key_and_amount iter of
       Inl e \<Rightarrow> (Inl e, clk)
     | Inr (key, amount) \<Rightarrow>
         (case now clk of
            (Inl e, clk) \<Rightarrow> (Inl (FrameSystemTime e), clk)
          | (Inr t, clk) \<Rightarrow>
              (Inr (command_expire_at key
                 (ms_saturating_add t (millis_from_seconds (Seconds amount)))), clk)))"

definition parse_expireat :: "frame list \<Rightarrow> command lift_result" where
  "parse_expireat iter =
    and_then (key_and_amount iter) (\<lambda>(key, amount).
      Inr (command_expire_at key (millis_from_seconds (Seconds amount))))"

definition parse_pexpireat :: "frame list \<Rightarrow> command lift_result" where
  "parse_pexpireat iter =
    and_then (key_and_amount iter) (\<lambda>(key, amount).
      Inr (command_expire_at key (Milliseconds amount)))"

definition parse_subscribe :: "frame list \<Rightarrow> command lift_result" where
  "parse_subscribe iter =
    and_then (collect_bulks iter) (\<lambda>ids.
      if ids = [] then Inl (CommandError NotEnoughParts) else Inr (command_subscribe ids))"

definition parse_unsubscribe :: "frame list \<Rightarrow> command lift_result" where
  "parse_unsubscribe iter = and_then (collect_bulks iter) (\<lambda>ids. Inr (command_unsubscribe ids))"

definition parse_publish :: "frame list \<Rightarrow> command lift_result" where
  "parse_publish iter =
    (case iter of
       channel # message # iter \<Rightarrow>
         (case (channel, message) of
            (BulkString channel, BulkString message) \<Rightarrow>
              no_more iter (command_publish channel message)
          | _ \<Rightarrow> Inl UnexpectedFrame)
     | _ \<Rightarrow> Inl (CommandError NotEnoughParts))"

definition dispatch_verb :: "bytes \<Rightarrow> frame list \<Rightarrow> clock \<Rightarrow> command lift_result \<times> clock" where
  "dispatch_verb verb iter clk =
    (if verb = ''get'' then (one_key command_get iter, clk)
     else if verb = ''set'' then parse_set iter clk
     else if verb = ''del'' then (one_key command_delete iter, clk)
     else if verb = ''ping'' then (parse_ping iter, clk)
     else if verb = ''exists'' then (one_key command_exists iter, clk)
     else if verb = ''expire'' then parse_expire iter clk
     else if verb = ''expireat'' then (parse_expireat iter, clk)
     else if verb = ''pexpireat'' then (parse_pexpireat iter, clk)
     else if verb = ''ttl'' then (one_key command_ttl iter, clk)
     else if verb = ''persist'' then (one_key command_persist iter, clk)
     else if verb = ''subscribe'' then (parse_subscribe iter, clk)
     else if verb = ''unsubscribe'' then (parse_unsubscribe iter, clk)
     else if verb = ''publish'' then (parse_publish iter, clk)
     else (Inl (CommandError UnrecognizedCommand), clk))"

definition command_try_from :: "frame \<Rightarrow> clock \<Rightarrow> command lift_result \<times> clock" where
  "command_try_from value clk =
    (case value of
       BulkString _ \<Rightarrow> (Inl UnexpectedFrame, clk)
     | Array [] \<Rightarrow> (Inl (CommandError NotEnoughParts), clk)
     | Array (BulkString verb # iter) \<Rightarrow> dispatch_verb (to_ascii_lowercase verb) iter clk
     | Array (Array _ # iter) \<Rightarrow> (Inl UnexpectedFrame, clk))"

section \<open>Reading arguments back\<close>

lemma next_bulk_BulkString [simp]: "next_bulk (BulkString bs # iter) = Inr (bs, iter)"
  by (simp add: next_bulk_def)

lemma next_bulk_Inr: "next_bulk iter = Inr (bs, rest) \<longleftrightarrow> iter = BulkString bs # rest"
  by (auto simp: next_bulk_def split: list.splits frame.splits)

lemma no_more_Nil [simp]: "no_more [] x = Inr x"
  by (simp add: no_more_def)

lemma no_more_Inr: "no_more iter x = Inr y \<longleftrightarrow> iter = [] \<and> x = y"
  by (auto simp: no_more_def)

lemma parse_u64_show_nat [simp]: "parse_u64 (show_nat (unat (w :: 64 word))) = Inr w"
  using unat_u64_bound [of w]
  by (simp add: parse_u64_def from_utf8_ascii show_nat_ascii parse_uint_show_nat)

lemma key_and_amount_show_nat [simp]:
  "key_and_amount [BulkString key, BulkString (show_nat (unat w))] = Inr (key, w)"
  by (simp add: key_and_amount_def)

lemma lower_logged_verbs [simp]:
  "to_ascii_lowercase ''SET'' = ''set''"
  "to_ascii_lowercase ''PXAT'' = ''pxat''"
  "to_ascii_lowercase ''DEL'' = ''del''"
  "to_ascii_lowercase ''PEXPIREAT'' = ''pexpireat''"
  "to_ascii_lowercase ''PERSIST'' = ''persist''"
  by (simp_all add: lower_eval)

section \<open>What the lift accepts\<close>

text \<open>The clock is read for a relative deadline only: \<^verbatim>\<open>EXPIRE\<close>, and
  \<^verbatim>\<open>SET\<close> with \<^verbatim>\<open>EX\<close> or \<^verbatim>\<open>PX\<close>.\<close>

definition relative_deadline :: "frame \<Rightarrow> bool" where
  "relative_deadline f =
    (case f of
       Array (BulkString verb # args) \<Rightarrow>
         to_ascii_lowercase verb = ''expire'' \<or>
         to_ascii_lowercase verb = ''set'' \<and>
           (case args of
              _ # _ # BulkString opt # _ \<Rightarrow> to_ascii_lowercase opt \<in> {''ex'', ''px''}
            | _ \<Rightarrow> False)
     | _ \<Rightarrow> False)"

lemma collect_bulks_Inr: "collect_bulks iter = Inr ids \<longleftrightarrow> iter = map BulkString ids"
proof (induction iter arbitrary: ids rule: collect_bulks.induct)
  case 1
  show ?case by auto
next
  case (2 bs iter)
  then show ?case by (cases ids) (auto simp: and_then_eq_Inr)
next
  case (3 fs iter)
  show ?case by (cases ids) auto
qed

lemma key_and_amount_Inr:
  "key_and_amount iter = Inr (key, amount) \<longleftrightarrow>
     (\<exists>bs. iter = [BulkString key, BulkString bs] \<and> parse_u64 bs = Inr amount)"
  by (auto simp: key_and_amount_def and_then_eq_Inr next_bulk_Inr no_more_Inr)

lemma one_key_Inr: "one_key mk iter = Inr c \<longleftrightarrow> (\<exists>key. iter = [BulkString key] \<and> c = mk key)"
  by (auto simp: one_key_def and_then_eq_Inr next_bulk_Inr no_more_Inr)

lemma parse_ping_Inr:
  "parse_ping iter = Inr c \<longleftrightarrow>
     iter = [] \<and> c = Ping None \<or> (\<exists>m. iter = [BulkString m] \<and> c = Ping (Some m))"
  by (auto simp: parse_ping_def no_more_Inr command_ping_def split: list.splits frame.splits)

lemma parse_publish_Inr:
  "parse_publish iter = Inr c \<longleftrightarrow>
     (\<exists>ch m. iter = [BulkString ch, BulkString m] \<and> c = command_publish ch m)"
  by (auto simp: parse_publish_def no_more_Inr split: list.splits frame.splits)

lemma parse_set_option_Inr:
  "fst (parse_set_option key val opt iter clk) = Inr c \<Longrightarrow> \<exists>bs. iter = [BulkString bs]"
  by (auto simp: parse_set_option_def next_bulk_Inr no_more_Inr
      split: if_splits sum.splits prod.splits)

lemma parse_set_Inr:
  "fst (parse_set iter clk) = Inr c \<Longrightarrow> \<exists>parts. iter = map BulkString parts"
  by (fastforce simp: parse_set_def next_bulk_Inr map_eq_Cons_conv Cons_eq_map_conv
      dest!: parse_set_option_Inr
      split: sum.splits prod.splits list.splits frame.splits
      intro: exI [of _ "[_, _]"] exI [of _ "[_, _, _, _]"])

lemma parse_expire_Inr:
  "fst (parse_expire iter clk) = Inr c \<Longrightarrow> \<exists>key bs. iter = [BulkString key, BulkString bs]"
  by (auto simp: parse_expire_def key_and_amount_Inr split: sum.splits prod.splits)

lemma dispatch_verb_bulks:
  "fst (dispatch_verb verb iter clk) = Inr c \<Longrightarrow> \<exists>parts. iter = map BulkString parts"
  by (auto simp: dispatch_verb_def one_key_Inr parse_ping_Inr parse_publish_Inr
      parse_expireat_def parse_pexpireat_def parse_subscribe_def parse_unsubscribe_def
      and_then_eq_Inr key_and_amount_Inr collect_bulks_Inr Cons_eq_map_conv
      dest!: parse_set_Inr parse_expire_Inr split: if_splits)

lemma dispatch_verb_clock:
  assumes "verb \<noteq> ''expire''" "verb \<noteq> ''set''"
  shows "dispatch_verb verb iter clk = (fst (dispatch_verb verb iter clk'), clk)"
  using assms by (simp add: dispatch_verb_def)

lemma set_deadline_absolute:
  "opt \<notin> {''ex'', ''px''} \<Longrightarrow> set_deadline opt amount clk =
     (Inr (if opt = ''exat'' then millis_from_seconds (Seconds amount) else Milliseconds amount), clk)"
  by (simp add: set_deadline_def)

lemma parse_set_clock:
  assumes "\<not> relative_deadline (Array (BulkString verb # iter))" "to_ascii_lowercase verb = ''set''"
  shows "parse_set iter clk = (fst (parse_set iter clk'), clk)"
proof -
  have "parse_set_option key val opt rest clk = (fst (parse_set_option key val opt rest clk'), clk)"
    if "opt \<notin> {''ex'', ''px''}" for key val opt rest
    using that by (auto simp: parse_set_option_def set_deadline_absolute split: sum.splits)
  then show ?thesis
    using assms by (auto simp: parse_set_def relative_deadline_def next_bulk_Inr
        split: sum.splits prod.splits list.splits frame.splits)
qed

lemma set_deadline_relative:
  "reading clk = Inr t \<Longrightarrow> set_deadline ''ex'' amount clk =
     (Inr (ms_saturating_add t (millis_from_seconds (Seconds amount))), stl clk)"
  "reading clk = Inr t \<Longrightarrow> set_deadline ''px'' amount clk =
     (Inr (ms_saturating_add t (Milliseconds amount)), stl clk)"
  by (simp_all add: set_deadline_def now_eq)

lemma unat_deadline_in_seconds:
  "unat (millis_get (ms_saturating_add t (millis_from_seconds (Seconds s)))) =
     min (unat (millis_get t) + 1000 * unat s) (2 ^ 64 - 1)"
  unfolding unat_ms_saturating_add unat_millis_from_seconds by (simp add: min_def)

lemma lift_log_frame: "command_try_from (frame_from_write_command wc) clk = (Inr (Cache (Write wc)), clk)"
proof (cases wc)
  case (Set key val expires)
  then show ?thesis
    by (cases expires)
      (simp_all add: command_try_from_def frame_from_write_command_def dispatch_verb_def
        parse_set_def parse_set_option_def set_deadline_def command_defs)
qed (simp_all add: command_try_from_def frame_from_write_command_def dispatch_verb_def one_key_def
    parse_pexpireat_def command_defs)

section \<open>Properties\<close>

text \<open>
  C1: what is logged is what is replayed.  The frame a write command is logged as lifts back to
  that very command, deadline included, and without reading the clock: replay resolves nothing
  relative to the time it runs at.
\<close>

theorem logged_frame_lifts_back:
  "command_try_from (frame_from_write_command c) clk = (Inr (Cache (Write c)), clk)"
  by (rule lift_log_frame)

text \<open>
  only a non-empty array of bulk strings lifts to a command: a bare bulk string, an empty
  array or a nested array in any position is refused, whatever the verb.
\<close>

theorem accepted_frame_is_bulk_array:
  assumes "fst (command_try_from f clk) = Inr c"
  shows "\<exists>parts. parts \<noteq> [] \<and> f = Array (map BulkString parts)"
proof -
  from assms obtain verb iter where f: "f = Array (BulkString verb # iter)"
    and "fst (dispatch_verb (to_ascii_lowercase verb) iter clk) = Inr c"
    by (auto simp: command_try_from_def split: frame.splits list.splits)
  then obtain parts where "iter = map BulkString parts" using dispatch_verb_bulks by blast
  with f have "f = Array (map BulkString (verb # parts))" by simp
  then show ?thesis by blast
qed

theorem accepted_frame_is_bulk_array_witness:
  "\<exists>parts. parts \<noteq> [] \<and> Array [BulkString ''PING''] = Array (map BulkString parts)"
  by (rule accepted_frame_is_bulk_array [of _ "clock_at (Milliseconds 0)" "Ping None"])
    (simp add: command_try_from_def dispatch_verb_def parse_ping_def command_ping_def
      lower_eval)

text \<open>
  a frame without a relative deadline lifts to the same command at every time and leaves the
  clock unread; only \<^verbatim>\<open>EXPIRE\<close>, \<^verbatim>\<open>SET .. EX\<close> and \<^verbatim>\<open>SET .. PX\<close>
  depend on when they arrive.
\<close>

theorem absolute_commands_ignore_clock:
  assumes "\<not> relative_deadline f"
  shows "command_try_from f clk = (fst (command_try_from f clk'), clk)"
proof (cases "\<exists>verb iter. f = Array (BulkString verb # iter)")
  case True
  then obtain verb iter where f: "f = Array (BulkString verb # iter)" by blast
  with assms have expire: "to_ascii_lowercase verb \<noteq> ''expire''"
    by (auto simp: relative_deadline_def)
  show ?thesis
  proof (cases "to_ascii_lowercase verb = ''set''")
    case True
    with parse_set_clock [of verb iter clk clk'] assms f show ?thesis
      by (simp add: command_try_from_def dispatch_verb_def)
  next
    case False
    with expire dispatch_verb_clock f show ?thesis by (simp add: command_try_from_def)
  qed
next
  case False
  then show ?thesis
    by (auto simp: command_try_from_def split: frame.splits list.splits)
qed

theorem absolute_commands_ignore_clock_witness:
  "command_try_from (Array [BulkString ''get'', BulkString ''k'']) (clock_at (Milliseconds 5)) =
     (fst (command_try_from (Array [BulkString ''get'', BulkString ''k''])
        (clock_at (Milliseconds 9))), clock_at (Milliseconds 5))"
  by (rule absolute_commands_ignore_clock)
    (simp add: relative_deadline_def lower_eval)

text \<open>
  \<^verbatim>\<open>EXPIRE key s\<close> received at time \<open>t\<close> becomes the absolute deadline
  \<open>t + 1000 * s\<close> milliseconds, saturating at the end of the \<^verbatim>\<open>u64\<close> range, from one clock
  reading.
\<close>

theorem expire_resolves_deadline:
  fixes s :: "64 word"
  assumes "reading clk = Inr t"
  shows "\<exists>d. command_try_from
      (Array [BulkString ''EXPIRE'', BulkString key, BulkString (show_nat (unat s))]) clk =
        (Inr (Cache (Write (ExpireAt key d))), stl clk) \<and>
      unat (millis_get d) = min (unat (millis_get t) + 1000 * unat s) (2 ^ 64 - 1)"
proof -
  have "to_ascii_lowercase ''EXPIRE'' = ''expire''"
    by (simp add: lower_eval)
  with assms show ?thesis
    by (simp add: command_try_from_def dispatch_verb_def parse_expire_def now_eq command_defs
        unat_deadline_in_seconds del: One_nat_def)
qed

theorem expire_resolves_deadline_witness:
  "\<exists>d. command_try_from (Array [BulkString ''EXPIRE'', BulkString ''k'',
      BulkString (show_nat (unat (10 :: 64 word)))]) (clock_at (Milliseconds 500)) =
        (Inr (Cache (Write (ExpireAt ''k'' d))), stl (clock_at (Milliseconds 500))) \<and>
      unat (millis_get d) = min (unat (millis_get (Milliseconds 500)) + 1000 * unat (10 :: 64 word))
        (2 ^ 64 - 1)"
  by (rule expire_resolves_deadline) simp

text \<open>
  \<^verbatim>\<open>SET key value EX s\<close> received at time \<open>t\<close> stores the absolute deadline
  \<open>t + 1000 * s\<close>, and \<^verbatim>\<open>PX ms\<close> the deadline \<open>t + ms\<close>, both saturating: downstream
  only the absolute value is left.
\<close>

theorem set_resolves_relative_deadline:
  fixes n :: "64 word"
  assumes "reading clk = Inr t"
  shows "(\<exists>d. command_try_from (Array [BulkString ''SET'', BulkString key, BulkString val,
        BulkString ''EX'', BulkString (show_nat (unat n))]) clk =
          (Inr (Cache (Write (Set key val (Some d)))), stl clk) \<and>
        unat (millis_get d) = min (unat (millis_get t) + 1000 * unat n) (2 ^ 64 - 1)) \<and>
    (\<exists>d. command_try_from (Array [BulkString ''SET'', BulkString key, BulkString val,
        BulkString ''PX'', BulkString (show_nat (unat n))]) clk =
          (Inr (Cache (Write (Set key val (Some d)))), stl clk) \<and>
        unat (millis_get d) = min (unat (millis_get t) + unat n) (2 ^ 64 - 1))"
proof -
  have lower: "to_ascii_lowercase ''EX'' = ''ex''" "to_ascii_lowercase ''PX'' = ''px''"
    by (simp_all add: lower_eval)
  have "unat (millis_get (ms_saturating_add t (Milliseconds n))) =
      min (unat (millis_get t) + unat n) (2 ^ 64 - 1)"
    by (simp add: unat_ms_saturating_add)
  then show ?thesis
    using set_deadline_relative [OF assms, of n] unat_deadline_in_seconds [of t n] lower
    by (simp add: command_try_from_def dispatch_verb_def parse_set_def parse_set_option_def
        command_defs)
qed

theorem set_resolves_relative_deadline_witness:
  "(\<exists>d. command_try_from (Array [BulkString ''SET'', BulkString ''k'', BulkString ''v'',
        BulkString ''EX'', BulkString (show_nat (unat (7 :: 64 word)))]) (clock_at (Milliseconds 3)) =
          (Inr (Cache (Write (Set ''k'' ''v'' (Some d)))), stl (clock_at (Milliseconds 3))) \<and>
        unat (millis_get d) =
          min (unat (millis_get (Milliseconds 3)) + 1000 * unat (7 :: 64 word)) (2 ^ 64 - 1))"
  using set_resolves_relative_deadline [OF reading_clock_at [of "Milliseconds 3"]] by blast


end
