(* ===== verification/Resp_Reply.thy ===== *)
theory Resp_Reply
  imports Resp_Command
begin

text \<open>
  \<^verbatim>\<open>resp/reply.rs\<close> and the \<^verbatim>\<open>From\<close> impls of \<^verbatim>\<open>inbound/mod.rs\<close>: what
  goes back to a client.  An \<^verbatim>\<open>i64\<close> reply is an \<^typ>\<open>int\<close>; the only conversions
  that can leave its range are the ones the source clamps.
\<close>

section \<open>Simple payloads\<close>

datatype simple_inner_error = IncludesCarriageReturn | IncludesLineFeed

datatype simple_inner = SimpleInner (as_bytes: bytes)

definition simple_inner_try_from :: "bytes \<Rightarrow> (simple_inner_error, simple_inner) result" where
  "simple_inner_try_from val =
    (if CR \<in> set val then Inl IncludesCarriageReturn
     else if LF \<in> set val then Inl IncludesLineFeed
     else Inr (SimpleInner val))"

definition simple_ok :: simple_inner where
  "simple_ok = SimpleInner ''OK''"

definition simple_pong :: simple_inner where
  "simple_pong = SimpleInner ''PONG''"

definition sanitized :: "bytes \<Rightarrow> simple_inner" where
  "sanitized bs = SimpleInner (filter (\<lambda>b. b \<noteq> CR \<and> b \<noteq> LF) bs)"

section \<open>Replies\<close>

datatype reply =
    SimpleString simple_inner
  | SimpleError simple_inner
  | ReplyBulkString bytes
  | NullBulk
  | Integer int
  | ReplyArray "reply list"

fun reply_to_bytes :: "reply \<Rightarrow> bytes" where
  "reply_to_bytes (SimpleString inner) = ''+'' @ as_bytes inner @ CRLF"
| "reply_to_bytes (SimpleError inner) = ''-'' @ as_bytes inner @ CRLF"
| "reply_to_bytes (ReplyBulkString bs) = ''$'' @ show_nat (length bs) @ CRLF @ bs @ CRLF"
| "reply_to_bytes NullBulk = ''$-1'' @ CRLF"
| "reply_to_bytes (Integer i) = '':'' @ show_int i @ CRLF"
| "reply_to_bytes (ReplyArray replies) =
     ''*'' @ show_nat (length replies) @ CRLF @ concat (map reply_to_bytes replies)"

record replies = replies_inner :: "reply list"

definition replies_to_bytes :: "replies \<Rightarrow> bytes" where
  "replies_to_bytes r = concat (map reply_to_bytes (replies_inner r))"

text \<open>
  The \<^verbatim>\<open>write_to\<close> methods take any \<^verbatim>\<open>impl Write\<close>, so its \<^verbatim>\<open>write_all\<close> is an argument, on a state
  that stands for the writer.
\<close>

definition reply_write_to ::
    "(bytes \<Rightarrow> 'w \<Rightarrow> ('e, unit) result \<times> 'w) \<Rightarrow> reply \<Rightarrow> 'w \<Rightarrow> ('e, unit) result \<times> 'w" where
  "reply_write_to write_all r w = write_all (reply_to_bytes r) w"

fun replies_write_loop ::
    "(bytes \<Rightarrow> 'w \<Rightarrow> ('e, unit) result \<times> 'w) \<Rightarrow> reply list \<Rightarrow> 'w \<Rightarrow> ('e, unit) result \<times> 'w" where
  "replies_write_loop write_all [] w = (Inr (), w)"
| "replies_write_loop write_all (r # rs) w =
    (case reply_write_to write_all r w of
       (Inl e, w) \<Rightarrow> (Inl e, w)
     | (Inr _, w) \<Rightarrow> replies_write_loop write_all rs w)"

definition replies_write_to ::
    "(bytes \<Rightarrow> 'w \<Rightarrow> ('e, unit) result \<times> 'w) \<Rightarrow> replies \<Rightarrow> 'w \<Rightarrow> ('e, unit) result \<times> 'w" where
  "replies_write_to write_all rs w = replies_write_loop write_all (replies_inner rs) w"

text \<open>
  What a caller relies on of a writer: \<^verbatim>\<open>write_all\<close> adds its bytes at the end, all of them when it
  succeeds and a part from the front when it does not.
\<close>

locale byte_sink =
  fixes write_all :: "bytes \<Rightarrow> 'w \<Rightarrow> ('e, unit) result \<times> 'w"
    and held :: "'w \<Rightarrow> bytes"
  assumes write_all_held: "write_all bs w = (r, w') \<Longrightarrow>
    \<exists>p. prefix p bs \<and> held w' = held w @ p \<and> (r = Inr () \<longrightarrow> p = bs)"
begin

lemma replies_write_loop_held:
  "replies_write_loop write_all rs w = (r, w') \<Longrightarrow>
   \<exists>p. prefix p (concat (map reply_to_bytes rs)) \<and> held w' = held w @ p \<and>
     (r = Inr () \<longrightarrow> p = concat (map reply_to_bytes rs))"
proof (induction rs arbitrary: w)
  case Nil
  then show ?case by simp
next
  case (Cons reply rs)
  obtain r1 w1 where one: "write_all (reply_to_bytes reply) w = (r1, w1)" by fastforce
  obtain p where p: "prefix p (reply_to_bytes reply)" "held w1 = held w @ p"
      "r1 = Inr () \<longrightarrow> p = reply_to_bytes reply"
    using write_all_held [OF one] by blast
  show ?case
  proof (cases r1)
    case (Inl e)
    with Cons.prems one have "r = Inl e" "w' = w1" by (simp_all add: reply_write_to_def)
    with p show ?thesis by auto
  next
    case (Inr u)
    with Cons.prems one have "replies_write_loop write_all rs w1 = (r, w')"
      by (simp add: reply_write_to_def)
    from Cons.IH [OF this] p Inr show ?thesis by auto
  qed
qed

lemma replies_write_to_held:
  assumes "replies_write_to write_all rs w = (r, w')"
  shows "\<exists>p. prefix p (replies_to_bytes rs) \<and> held w' = held w @ p \<and>
    (r = Inr () \<longrightarrow> p = replies_to_bytes rs)"
  using replies_write_loop_held assms by (simp add: replies_write_to_def replies_to_bytes_def)

end

text \<open>\<^verbatim>\<open>Vec<u8>\<close> as a writer.\<close>

definition vec_write_all :: "bytes \<Rightarrow> bytes \<Rightarrow> ('e, unit) result \<times> bytes" where
  "vec_write_all bs w = (Inr (), w @ bs)"

interpretation vec: byte_sink vec_write_all "\<lambda>w. w"
  by unfold_locales (auto simp: vec_write_all_def)

lemma replies_write_loop_vec:
  "replies_write_loop vec_write_all rs w = (Inr (), w @ concat (map reply_to_bytes rs))"
  by (induction rs arbitrary: w) (simp_all add: reply_write_to_def vec_write_all_def)

section \<open>Outcomes as replies\<close>

definition i64_max :: int where
  "i64_max = 2 ^ 63 - 1"

definition i64_clamp :: "nat \<Rightarrow> int" where
  "i64_clamp n = (if int n \<le> i64_max then int n else i64_max)"

definition reply_from_outcome :: "command_outcome \<Rightarrow> reply" where
  "reply_from_outcome v =
    (case v of
       Value (Some val) \<Rightarrow> ReplyBulkString val
     | Value None \<Rightarrow> NullBulk
     | OutcomeOk \<Rightarrow> SimpleString simple_ok
     | Pong (Some message) \<Rightarrow> ReplyBulkString message
     | Pong None \<Rightarrow> SimpleString simple_pong
     | Bool b \<Rightarrow> Integer (if b then 1 else 0)
     | TtlOutcome KeyNotFound \<Rightarrow> Integer (-2)
     | TtlOutcome TtlNotFound \<Rightarrow> Integer (-1)
     | TtlOutcome (TtlSome ttl) \<Rightarrow> Integer (i64_clamp (unat (seconds_get ttl)))
     | OutcomeInteger i \<Rightarrow> Integer i)"

definition channel_reply :: "bytes option \<Rightarrow> reply" where
  "channel_reply channel = (case channel of Some c \<Rightarrow> ReplyBulkString c | None \<Rightarrow> NullBulk)"

definition sub_unsub_reply :: "bytes \<Rightarrow> sub_unsub_inner_entry \<Rightarrow> reply" where
  "sub_unsub_reply verb entry =
     ReplyArray [ReplyBulkString verb, channel_reply (channel_id entry),
       Integer (i64_clamp (subscription_count entry))]"

definition replies_from_channel_outcome :: "channel_command_outcome \<Rightarrow> replies" where
  "replies_from_channel_outcome v =
    (case v of
       SubscribeOutcome entries \<Rightarrow>
         \<lparr>replies_inner = map (sub_unsub_reply ''subscribe'') entries\<rparr>
     | UnsubscribeOutcome entries \<Rightarrow>
         \<lparr>replies_inner = map (sub_unsub_reply ''unsubscribe'') entries\<rparr>
     | PublishOutcome sent_count \<Rightarrow> \<lparr>replies_inner = [Integer (int (unat sent_count))]\<rparr>)"

section \<open>The reply invariant\<close>

definition simple_ok_inner :: "simple_inner \<Rightarrow> bool" where
  "simple_ok_inner s \<longleftrightarrow> CR \<notin> set (as_bytes s) \<and> LF \<notin> set (as_bytes s)"

fun reply_invar :: "reply \<Rightarrow> bool" where
  "reply_invar (SimpleString s) = simple_ok_inner s"
| "reply_invar (SimpleError s) = simple_ok_inner s"
| "reply_invar (Integer i) = (- i64_max - 1 \<le> i \<and> i \<le> i64_max)"
| "reply_invar (ReplyArray rs) = list_all reply_invar rs"
| "reply_invar _ = True"

lemma simple_ok_inner_constructors [simp]:
  "simple_ok_inner simple_ok" "simple_ok_inner simple_pong" "simple_ok_inner (sanitized bs)"
  by (auto simp: simple_ok_inner_def simple_ok_def simple_pong_def sanitized_def)

lemma simple_inner_try_from_Inr:
  "simple_inner_try_from v = Inr s \<longleftrightarrow> s = SimpleInner v \<and> simple_ok_inner s"
  by (auto simp: simple_inner_try_from_def simple_ok_inner_def)

lemma i64_clamp_range [simp]: "- i64_max - 1 \<le> i64_clamp n" "i64_clamp n \<le> i64_max"
  by (simp_all add: i64_clamp_def i64_max_def)

lemma i64_clamp_id: "n < 2 ^ 63 \<Longrightarrow> i64_clamp n = int n"
  by (simp add: i64_clamp_def i64_max_def)

section \<open>Reply bytes are self-delimiting\<close>

fun reply_line :: "reply \<Rightarrow> bytes" where
  "reply_line (SimpleString s) = CHR ''+'' # as_bytes s"
| "reply_line (SimpleError s) = CHR ''-'' # as_bytes s"
| "reply_line (ReplyBulkString bs) = CHR ''$'' # show_nat (length bs)"
| "reply_line NullBulk = ''$-1''"
| "reply_line (Integer i) = CHR '':'' # show_int i"
| "reply_line (ReplyArray rs) = CHR ''*'' # show_nat (length rs)"

fun reply_body :: "reply \<Rightarrow> bytes" where
  "reply_body (ReplyBulkString bs) = bs @ CRLF"
| "reply_body (ReplyArray rs) = concat (map reply_to_bytes rs)"
| "reply_body _ = []"

lemma reply_to_bytes_line: "reply_to_bytes r = reply_line r @ CR # LF # reply_body r"
  by (cases r) simp_all

lemma reply_to_bytes_nonempty [simp]: "reply_to_bytes r \<noteq> []"
  by (cases r) simp_all

lemma show_nat_no_minus [simp]: "show_nat n \<noteq> CHR ''-'' # bs"
  using show_nat_digits [of n] by (auto simp: between_def)

lemma show_int_no_CR: "CR \<notin> set (show_int i)"
  by (simp add: show_int_def show_nat_no_CR)

lemma show_int_inj: "show_int i = show_int j \<Longrightarrow> i = j"
  by (auto simp: show_int_def dest: show_nat_inj split: if_splits)
    (metis show_nat_no_minus)

lemma reply_line_no_CR: "reply_invar r \<Longrightarrow> CR \<notin> set (reply_line r)"
  by (cases r) (auto simp: simple_ok_inner_def show_nat_no_CR show_int_no_CR)

lemma reply_bytes_split:
  assumes "reply_invar r" "reply_invar s" "reply_to_bytes r @ x = reply_to_bytes s @ y"
  shows "reply_line r = reply_line s" "reply_body r @ x = reply_body s @ y"
proof -
  have "Some (reply_line r, reply_body r @ x) = split_crlf (reply_to_bytes r @ x)"
    using split_crlf_header [OF reply_line_no_CR [OF assms(1)]] by (simp add: reply_to_bytes_line)
  also have "\<dots> = Some (reply_line s, reply_body s @ y)"
    using split_crlf_header [OF reply_line_no_CR [OF assms(2)]] assms(3)
    by (simp add: reply_to_bytes_line)
  finally show "reply_line r = reply_line s" "reply_body r @ x = reply_body s @ y" by simp_all
qed

lemma concat_replies_inj:
  assumes "length rs = length ss"
    and "\<And>r s x y. r \<in> set rs \<Longrightarrow> reply_invar s \<Longrightarrow>
      reply_to_bytes r @ x = reply_to_bytes s @ y \<Longrightarrow> r = s \<and> x = y"
    and "list_all reply_invar ss"
    and "concat (map reply_to_bytes rs) @ x = concat (map reply_to_bytes ss) @ y"
  shows "rs = ss \<and> x = y"
  using assms
proof (induction rs ss rule: list_induct2)
  case Nil
  then show ?case by simp
next
  case (Cons r rs s ss)
  have "r = s \<and> concat (map reply_to_bytes rs) @ x = concat (map reply_to_bytes ss) @ y"
    using Cons.prems(1) [of r s] Cons.prems(2, 3) by simp
  moreover from this have "rs = ss \<and> x = y"
    using Cons.prems(2) by (intro Cons.IH Cons.prems(1)) simp_all
  ultimately show ?case by simp
qed

lemma reply_bytes_inj:
  "reply_invar r \<Longrightarrow> reply_invar s \<Longrightarrow> reply_to_bytes r @ x = reply_to_bytes s @ y \<Longrightarrow>
     r = s \<and> x = y"
proof (induction r arbitrary: s x y)
  case (ReplyBulkString bs)
  note parts = reply_bytes_split [OF ReplyBulkString]
  then obtain bs' where "s = ReplyBulkString bs'" "length bs = length bs'"
    by (cases s) (auto dest: show_nat_inj)
  with parts(2) show ?case by simp
next
  case (ReplyArray rs)
  note parts = reply_bytes_split [OF ReplyArray.prems]
  then obtain ss where s: "s = ReplyArray ss" "length rs = length ss"
    by (cases s) (auto dest: show_nat_inj)
  with parts(2) have body: "concat (map reply_to_bytes rs) @ x = concat (map reply_to_bytes ss) @ y"
    by simp
  have step: "r = s \<and> x = y" if "r \<in> set rs" "reply_invar s"
      "reply_to_bytes r @ x = reply_to_bytes s @ y" for r s x y
    using ReplyArray.IH [OF that(1) _ that(2, 3)] ReplyArray.prems(1) that(1)
    by (simp add: list_all_iff)
  have "rs = ss \<and> x = y"
    by (rule concat_replies_inj [OF s(2) step _ body]) (use ReplyArray.prems(2) s in simp_all)
  with s show ?case by simp
next
  case (SimpleString i)
  from reply_bytes_split [OF SimpleString] show ?case
    by (cases s) (auto intro: simple_inner.expand)
next
  case (SimpleError i)
  from reply_bytes_split [OF SimpleError] show ?case
    by (cases s) (auto intro: simple_inner.expand)
next
  case NullBulk
  from reply_bytes_split [OF NullBulk] show ?case
    by (cases s) (auto dest: sym)
next
  case (Integer i)
  from reply_bytes_split [OF Integer] show ?case
    by (cases s) (auto dest: show_int_inj)
qed

lemma replies_bytes_inj:
  "list_all reply_invar rs \<Longrightarrow> list_all reply_invar ss \<Longrightarrow>
     concat (map reply_to_bytes rs) = concat (map reply_to_bytes ss) \<Longrightarrow> rs = ss"
proof (induction rs arbitrary: ss)
  case Nil
  then show ?case by (cases ss) auto
next
  case (Cons r rs)
  have "ss \<noteq> []" using Cons.prems(3) by auto
  then obtain s ss' where ss: "ss = s # ss'" by (meson neq_Nil_conv)
  have invar: "reply_invar r" "reply_invar s" using Cons.prems(1, 2) ss by simp_all
  have "reply_to_bytes r @ concat (map reply_to_bytes rs) =
      reply_to_bytes s @ concat (map reply_to_bytes ss')"
    using Cons.prems(3) unfolding ss by simp
  from reply_bytes_inj [OF invar this]
  have "r = s" "concat (map reply_to_bytes rs) = concat (map reply_to_bytes ss')" by blast+
  with Cons.IH [of ss'] Cons.prems ss show ?case by simp
qed

section \<open>Properties\<close>

text \<open>
  C28: a client can always tell the replies apart.  Two batches of well-formed replies with the
  same bytes are the same batch: no payload, error text or channel name can be mistaken for
  another frame.
\<close>

theorem replies_unambiguous:
  assumes "list_all reply_invar (replies_inner a)" "list_all reply_invar (replies_inner b)"
    and "replies_to_bytes a = replies_to_bytes b"
  shows "replies_inner a = replies_inner b"
  using assms unfolding replies_to_bytes_def by (rule replies_bytes_inj)

theorem replies_unambiguous_witness:
  "replies_inner \<lparr>replies_inner = [SimpleError (sanitized ''ERR a'')]\<rparr> =
   replies_inner \<lparr>replies_inner = [SimpleError (sanitized (''ERR '' @ CRLF @ ''a''))]\<rparr>"
  by (rule replies_unambiguous) (simp_all add: replies_to_bytes_def sanitized_def simple_ok_inner_def)

text \<open>
  C29: every reply the server builds is well formed: the conversions of cache outcomes and of
  channel outcomes, and the error replies made from arbitrary message bytes, contain no stray line
  break, and their integers are \<^verbatim>\<open>i64\<close> values.
\<close>

theorem built_replies_well_formed:
  assumes "\<And>i. v = OutcomeInteger i \<Longrightarrow> - i64_max - 1 \<le> i \<and> i \<le> i64_max"
  shows "reply_invar (reply_from_outcome v) \<and>
    list_all reply_invar (replies_inner (replies_from_channel_outcome cv)) \<and>
    reply_invar (SimpleError (sanitized bs))"
proof (intro conjI)
  show "reply_invar (reply_from_outcome v)"
  proof (cases v)
    case (TtlOutcome t)
    then show ?thesis by (cases t) (simp_all add: reply_from_outcome_def, simp_all add: i64_max_def)
  next
    case (OutcomeInteger i)
    with assms show ?thesis by (simp add: reply_from_outcome_def)
  qed (auto simp: reply_from_outcome_def i64_max_def split: option.splits)
  have count: "int (unat (n :: 32 word)) \<le> i64_max" for n
    using unsigned_less [where ?'a = int, of n] by (simp add: i64_max_def)
  have entry: "reply_invar (sub_unsub_reply verb e)" for verb e
    by (simp add: sub_unsub_reply_def channel_reply_def split: option.splits)
  show "list_all reply_invar (replies_inner (replies_from_channel_outcome cv))"
  proof (cases cv)
    case (PublishOutcome n)
    with count [of n] show ?thesis
      by (simp add: replies_from_channel_outcome_def i64_max_def order_trans [OF _ uint_nonnegative])
  qed (simp_all add: replies_from_channel_outcome_def list_all_iff entry)
qed simp

theorem built_replies_well_formed_witness:
  "reply_invar (reply_from_outcome (OutcomeInteger 1)) \<and>
    list_all reply_invar (replies_inner (replies_from_channel_outcome (PublishOutcome 2))) \<and>
    reply_invar (SimpleError (sanitized (''ERR '' @ CRLF)))"
  by (rule built_replies_well_formed) (simp add: i64_max_def)

end
