(* ===== verification/Cache.thy ===== *)
theory Cache
  imports Commands
begin

text \<open>
  \<^verbatim>\<open>domain/cache.rs\<close>: the store.  The state is the map behind the mutex together with the
  mutex's poison flag; an operation takes the store and the clock and returns its answer, the
  store and what is left of the clock, so a second reading of the clock is visible.  An operation
  that holds the lock throughout is one definition; \<^verbatim>\<open>expires_at\<close> gives the lock up halfway,
  so it is two, and another thread can run between them.
\<close>

section \<open>State\<close>

datatype cache_error = CacheMutexPoisoned | CacheSystemTime system_time_error

record entry =
  entry_value :: bytes
  entry_expires_at :: "milliseconds option"

definition entry_new :: "bytes \<Rightarrow> milliseconds option \<Rightarrow> entry" where
  "entry_new val expires = \<lparr>entry_value = val, entry_expires_at = expires\<rparr>"

record cache =
  cache_inner :: "(bytes \<times> entry) list"
  cache_poisoned :: bool

type_synonym 'a cache_answer = "(cache_error, 'a) result \<times> cache \<times> clock"

definition cache_new :: "(bytes \<times> entry) list \<Rightarrow> cache" where
  "cache_new data = \<lparr>cache_inner = data, cache_poisoned = False\<rparr>"

text \<open>The test \<^verbatim>\<open>expires_at.is_some_and(|t| now >= t)\<close>.\<close>

definition expired :: "milliseconds \<Rightarrow> entry \<Rightarrow> bool" where
  "expired t e = (case entry_expires_at e of Some d \<Rightarrow> d \<le> t | None \<Rightarrow> False)"

abbreviation lookup :: "cache \<Rightarrow> bytes \<Rightarrow> entry option" where
  "lookup c \<equiv> map_of (cache_inner c)"

definition drop_key :: "bytes \<Rightarrow> cache \<Rightarrow> cache" where
  "drop_key key c = c\<lparr>cache_inner := AList.delete key (cache_inner c)\<rparr>"

definition put_key :: "bytes \<Rightarrow> entry \<Rightarrow> cache \<Rightarrow> cache" where
  "put_key key e c = c\<lparr>cache_inner := AList.update key e (cache_inner c)\<rparr>"

section \<open>Operations\<close>

definition cache_get :: "bytes \<Rightarrow> cache \<Rightarrow> clock \<Rightarrow> entry option cache_answer" where
  "cache_get key c clk =
    (case now clk of
       (Inl e, clk) \<Rightarrow> (Inl (CacheSystemTime e), c, clk)
     | (Inr t, clk) \<Rightarrow>
         if cache_poisoned c then (Inl CacheMutexPoisoned, c, clk)
         else case lookup c key of
           Some e \<Rightarrow> if expired t e then (Inr None, drop_key key c, clk) else (Inr (Some e), c, clk)
         | None \<Rightarrow> (Inr None, c, clk))"

definition cache_insert :: "bytes \<Rightarrow> entry \<Rightarrow> cache \<Rightarrow> (cache_error, entry option) result \<times> cache" where
  "cache_insert key e c =
    (if cache_poisoned c then (Inl CacheMutexPoisoned, c)
     else (Inr (lookup c key), put_key key e c))"

definition cache_remove :: "bytes \<Rightarrow> cache \<Rightarrow> (cache_error, entry option) result \<times> cache" where
  "cache_remove key c =
    (if cache_poisoned c then (Inl CacheMutexPoisoned, c)
     else (Inr (lookup c key), drop_key key c))"

definition cache_contains :: "bytes \<Rightarrow> cache \<Rightarrow> clock \<Rightarrow> bool cache_answer" where
  "cache_contains key c clk =
    (if cache_poisoned c then (Inl CacheMutexPoisoned, c, clk)
     else case lookup c key of
       None \<Rightarrow> (Inr False, c, clk)
     | Some e \<Rightarrow>
         (case entry_expires_at e of
            None \<Rightarrow> (Inr True, c, clk)
          | Some d \<Rightarrow>
              (case now clk of
                 (Inl err, clk) \<Rightarrow> (Inl (CacheSystemTime err), c, clk)
               | (Inr t, clk) \<Rightarrow>
                   if d \<le> t then (Inr False, drop_key key c, clk) else (Inr True, c, clk))))"

definition cache_set_expires_at ::
    "bytes \<Rightarrow> milliseconds \<Rightarrow> cache \<Rightarrow> clock \<Rightarrow> bool cache_answer" where
  "cache_set_expires_at key d c clk =
    (case now clk of
       (Inl e, clk) \<Rightarrow> (Inl (CacheSystemTime e), c, clk)
     | (Inr t, clk) \<Rightarrow>
         if d \<le> t then
           (case cache_remove key c of
              (Inl e, c) \<Rightarrow> (Inl e, c, clk)
            | (Inr old, c) \<Rightarrow> (Inr (old \<noteq> None), c, clk))
         else if cache_poisoned c then (Inl CacheMutexPoisoned, c, clk)
         else case lookup c key of
           None \<Rightarrow> (Inr False, c, clk)
         | Some e \<Rightarrow> (Inr True, put_key key (e\<lparr>entry_expires_at := Some d\<rparr>) c, clk))"

text \<open>
  \<^verbatim>\<open>Cache::expires_at\<close> up to \<^verbatim>\<open>drop(guard)\<close>, and what it does with the deadline it read
  on the store as it is by then.
\<close>

definition expires_at_read ::
    "bytes \<Rightarrow> cache \<Rightarrow> (cache_error, milliseconds option option) result" where
  "expires_at_read key c =
    (if cache_poisoned c then Inl CacheMutexPoisoned
     else Inr (map_option entry_expires_at (lookup c key)))"

definition expires_at_finish ::
    "bytes \<Rightarrow> milliseconds option \<Rightarrow> cache \<Rightarrow> clock \<Rightarrow> milliseconds option option cache_answer" where
  "expires_at_finish key deadline c clk =
    (case now clk of
       (Inl e, clk) \<Rightarrow> (Inl (CacheSystemTime e), c, clk)
     | (Inr t, clk) \<Rightarrow>
         if (case deadline of Some d \<Rightarrow> d \<le> t | None \<Rightarrow> False) then
           (case cache_remove key c of
              (Inl e, c) \<Rightarrow> (Inl e, c, clk)
            | (Inr _, c) \<Rightarrow> (Inr None, c, clk))
         else (Inr (Some deadline), c, clk))"

definition cache_expires_at ::
    "bytes \<Rightarrow> cache \<Rightarrow> clock \<Rightarrow> milliseconds option option cache_answer" where
  "cache_expires_at key c clk =
    (case expires_at_read key c of
       Inl e \<Rightarrow> (Inl e, c, clk)
     | Inr None \<Rightarrow> (Inr None, c, clk)
     | Inr (Some deadline) \<Rightarrow> expires_at_finish key deadline c clk)"

definition cache_time_to_live ::
    "bytes \<Rightarrow> cache \<Rightarrow> clock \<Rightarrow> milliseconds option option cache_answer" where
  "cache_time_to_live key c clk =
    (case cache_expires_at key c clk of
       (Inl e, c, clk) \<Rightarrow> (Inl e, c, clk)
     | (Inr None, c, clk) \<Rightarrow> (Inr None, c, clk)
     | (Inr (Some None), c, clk) \<Rightarrow> (Inr (Some None), c, clk)
     | (Inr (Some (Some d)), c, clk) \<Rightarrow>
         (case now clk of
            (Inl e, clk) \<Rightarrow> (Inl (CacheSystemTime e), c, clk)
          | (Inr t, clk) \<Rightarrow> (Inr (Some (Some (ms_saturating_sub d t))), c, clk)))"

definition cache_remove_ttl :: "bytes \<Rightarrow> cache \<Rightarrow> clock \<Rightarrow> bool cache_answer" where
  "cache_remove_ttl key c clk =
    (if cache_poisoned c then (Inl CacheMutexPoisoned, c, clk)
     else case lookup c key of
       None \<Rightarrow> (Inr False, c, clk)
     | Some e \<Rightarrow>
         (case entry_expires_at e of
            None \<Rightarrow> (Inr False, c, clk)
          | Some d \<Rightarrow>
              (case now clk of
                 (Inl err, clk) \<Rightarrow> (Inl (CacheSystemTime err), c, clk)
               | (Inr t, clk) \<Rightarrow>
                   if d \<le> t then (Inr False, drop_key key c, clk)
                   else (Inr True, put_key key (e\<lparr>entry_expires_at := None\<rparr>) c, clk))))"

definition cache_remove_expired :: "cache \<Rightarrow> clock \<Rightarrow> nat cache_answer" where
  "cache_remove_expired c clk =
    (case now clk of
       (Inl e, clk) \<Rightarrow> (Inl (CacheSystemTime e), c, clk)
     | (Inr t, clk) \<Rightarrow>
         if cache_poisoned c then (Inl CacheMutexPoisoned, c, clk)
         else
           let gone = map fst (filter (\<lambda>(key, e). expired t e) (cache_inner c))
           in (Inr (length gone),
               c\<lparr>cache_inner := fold AList.delete gone (cache_inner c)\<rparr>, clk))"

text \<open>\<^verbatim>\<open>Cache::execute\<close>: one arm per command, each calling the operation that backs it.\<close>

definition answer_map :: "('a \<Rightarrow> 'b) \<Rightarrow> 'a cache_answer \<Rightarrow> 'b cache_answer" where
  "answer_map f a = (case a of (r, c, clk) \<Rightarrow> (case r of Inl e \<Rightarrow> Inl e | Inr x \<Rightarrow> Inr (f x), c, clk))"

definition ttl_outcome_of :: "milliseconds option option \<Rightarrow> ttl_outcome" where
  "ttl_outcome_of ttl =
    (case ttl of
       None \<Rightarrow> KeyNotFound
     | Some None \<Rightarrow> TtlNotFound
     | Some (Some left) \<Rightarrow> TtlSome (to_seconds_rounded_up left))"

definition cache_execute :: "cache_command \<Rightarrow> cache \<Rightarrow> clock \<Rightarrow> command_outcome cache_answer" where
  "cache_execute cmd c clk =
    (case cmd of
       Read (Get key) \<Rightarrow> answer_map (\<lambda>e. Value (map_option entry_value e)) (cache_get key c clk)
     | Read (Exists key) \<Rightarrow>
         answer_map (\<lambda>b. OutcomeInteger (if b then 1 else 0)) (cache_contains key c clk)
     | Read (Ttl key) \<Rightarrow>
         answer_map (\<lambda>ttl. TtlOutcome (ttl_outcome_of ttl)) (cache_time_to_live key c clk)
     | Write (Set key val expires) \<Rightarrow>
         (case cache_insert key (entry_new val expires) c of
            (r, c) \<Rightarrow> answer_map (\<lambda>_. OutcomeOk) (r, c, clk))
     | Write (Delete key) \<Rightarrow>
         (case cache_remove key c of
            (r, c) \<Rightarrow> answer_map (\<lambda>old. Bool (old \<noteq> None)) (r, c, clk))
     | Write (ExpireAt key d) \<Rightarrow> answer_map Bool (cache_set_expires_at key d c clk)
     | Write (Persist key) \<Rightarrow> answer_map Bool (cache_remove_ttl key c clk))"

section \<open>The store as a map\<close>

definition cache_invar :: "cache \<Rightarrow> bool" where
  "cache_invar c \<longleftrightarrow> distinct_keys (cache_inner c)"

primrec cache_command_key :: "cache_command \<Rightarrow> bytes" where
  "cache_command_key (Read r) = read_key r"
| "cache_command_key (Write w) = write_key w"

lemma lookup_drop_key [map_laws]: "lookup (drop_key k c) = (lookup c)(k := None)"
  by (simp add: drop_key_def alist.get_remove)

lemma lookup_put_key [map_laws]: "lookup (put_key k e c) = (lookup c)(k \<mapsto> e)"
  by (simp add: put_key_def alist.get_insert)

lemma lookup_cache_new [simp]: "lookup (cache_new data) = map_of data"
  by (simp add: cache_new_def)

lemma cache_poisoned_keys [simp]:
  "cache_poisoned (drop_key k c) = cache_poisoned c"
  "cache_poisoned (put_key k e c) = cache_poisoned c"
  "\<not> cache_poisoned (cache_new data)"
  by (simp_all add: drop_key_def put_key_def cache_new_def)

lemma cache_invar_keys [map_laws]:
  "cache_invar c \<Longrightarrow> cache_invar (drop_key k c)"
  "cache_invar c \<Longrightarrow> cache_invar (put_key k e c)"
  by (simp_all add: cache_invar_def drop_key_def put_key_def alist.invar_remove alist.invar_insert)

lemma answer_map_simps [simp]:
  "answer_map f (Inl e, c, clk) = (Inl e, c, clk)"
  "answer_map f (Inr x, c, clk) = (Inr (f x), c, clk)"
  by (simp_all add: answer_map_def)

lemma answer_map_parts [simp]:
  "snd (answer_map f a) = snd a"
  "fst (answer_map f a) = Inl e \<longleftrightarrow> fst a = Inl e"
  by (auto simp: answer_map_def split: prod.splits sum.splits)

text \<open>What a \<^verbatim>\<open>TTL\<close> does when nothing runs between its two halves.\<close>

lemma cache_time_to_live_eq:
  "cache_time_to_live key c clk =
    (if cache_poisoned c then (Inl CacheMutexPoisoned, c, clk)
     else case lookup c key of
       None \<Rightarrow> (Inr None, c, clk)
     | Some e \<Rightarrow>
         (case reading clk of
            Inl x \<Rightarrow> (Inl (CacheSystemTime x), c, stl clk)
          | Inr t \<Rightarrow>
              if expired t e then (Inr None, drop_key key c, stl clk)
              else case entry_expires_at e of
                None \<Rightarrow> (Inr (Some None), c, stl clk)
              | Some d \<Rightarrow>
                  (case reading (stl clk) of
                     Inl x \<Rightarrow> (Inl (CacheSystemTime x), c, stl (stl clk))
                   | Inr t' \<Rightarrow> (Inr (Some (Some (ms_saturating_sub d t'))), c, stl (stl clk)))))"
proof (cases "lookup c key")
  case None
  then show ?thesis
    by (simp add: cache_time_to_live_def cache_expires_at_def expires_at_read_def)
next
  case (Some e)
  then show ?thesis
    by (cases "entry_expires_at e")
      (simp_all add: cache_time_to_live_def cache_expires_at_def expires_at_read_def
        expires_at_finish_def cache_remove_def expired_def now_eq split: sum.split)
qed

lemmas cache_read_defs = cache_get_def cache_contains_def cache_time_to_live_eq

lemmas cache_write_defs =
  cache_insert_def cache_remove_def cache_set_expires_at_def cache_remove_ttl_def

lemmas cache_op_defs = cache_read_defs cache_write_defs now_eq

text \<open>
  Every operation answers in one of three ways: the store as it was, without the command's key,
  or with a new entry under it.
\<close>

lemma cache_execute_effect:
  "fst (snd (cache_execute cmd c clk)) = c \<or>
   \<not> cache_poisoned c \<and> (\<exists>x. fst (cache_execute cmd c clk) = Inr x) \<and>
     (fst (snd (cache_execute cmd c clk)) = drop_key (cache_command_key cmd) c \<or>
      (\<exists>e. fst (snd (cache_execute cmd c clk)) = put_key (cache_command_key cmd) e c))"
proof (cases cmd)
  case (Read r)
  then show ?thesis
    by (cases r) (auto simp: cache_execute_def cache_op_defs split: sum.split option.split)
next
  case (Write w)
  then show ?thesis
    by (cases w) (auto simp: cache_execute_def cache_op_defs split: sum.split option.split)
qed

lemma cache_execute_poisoned [simp]:
  "cache_poisoned (fst (snd (cache_execute cmd c clk))) = cache_poisoned c"
  using cache_execute_effect [of cmd c clk] by auto

lemma cache_execute_other_key:
  "k \<noteq> cache_command_key cmd \<Longrightarrow> lookup (fst (snd (cache_execute cmd c clk))) k = lookup c k"
  using cache_execute_effect [of cmd c clk] by (auto simp: map_laws)

lemma cache_execute_clock:
  "\<exists>n \<le> 2. snd (snd (cache_execute cmd c clk)) = sdrop n clk"
proof -
  have "snd (snd (cache_execute cmd c clk)) \<in> {sdrop 0 clk, sdrop 1 clk, sdrop 2 clk}"
  proof (cases cmd)
    case (Read r)
    then show ?thesis
      by (cases r)
        (auto simp: cache_execute_def cache_op_defs numeral_2_eq_2 split: sum.split option.split)
  next
    case (Write w)
    then show ?thesis
      by (cases w)
        (auto simp: cache_execute_def cache_op_defs split: sum.split option.split)
  qed
  then show ?thesis by (metis insert_iff empty_iff one_le_numeral order_refl zero_le)
qed

section \<open>The live view\<close>

text \<open>
  The abstract store: at time \<open>t\<close> a client sees the entries whose deadline has not passed.
  \<open>spec_execute\<close> is what a command does to that view, with no lock, no lazy removal and a clock
  that stands at \<open>t\<close>.
\<close>

definition view :: "milliseconds \<Rightarrow> (bytes \<rightharpoonup> entry) \<Rightarrow> (bytes \<rightharpoonup> entry)" where
  "view t m = (\<lambda>k. case m k of
     Some e \<Rightarrow> if expired t e then None else Some e | None \<Rightarrow> None)"

definition spec_execute ::
    "cache_command \<Rightarrow> milliseconds \<Rightarrow> (bytes \<rightharpoonup> entry) \<Rightarrow> command_outcome \<times> (bytes \<rightharpoonup> entry)" where
  "spec_execute cmd t m =
    (case cmd of
       Read (Get k) \<Rightarrow> (Value (map_option entry_value (m k)), m)
     | Read (Exists k) \<Rightarrow> (OutcomeInteger (if m k = None then 0 else 1), m)
     | Read (Ttl k) \<Rightarrow>
         (TtlOutcome (case m k of
            None \<Rightarrow> KeyNotFound
          | Some e \<Rightarrow> (case entry_expires_at e of
              None \<Rightarrow> TtlNotFound
            | Some d \<Rightarrow> TtlSome (to_seconds_rounded_up (ms_saturating_sub d t)))), m)
     | Write (Set k v d) \<Rightarrow> (OutcomeOk, view t (m(k \<mapsto> entry_new v d)))
     | Write (Delete k) \<Rightarrow> (Bool (m k \<noteq> None), m(k := None))
     | Write (ExpireAt k d) \<Rightarrow>
         (Bool (m k \<noteq> None),
          view t (m(k := map_option (\<lambda>e. e\<lparr>entry_expires_at := Some d\<rparr>) (m k))))
     | Write (Persist k) \<Rightarrow>
         (Bool (\<exists>e. m k = Some e \<and> entry_expires_at e \<noteq> None),
          m(k := map_option (\<lambda>e. e\<lparr>entry_expires_at := None\<rparr>) (m k))))"

text \<open>A key whose deadline has passed but whose entry is still in the map.\<close>

definition leftover :: "milliseconds \<Rightarrow> cache \<Rightarrow> bytes \<Rightarrow> bool" where
  "leftover t c k = (case lookup c k of Some e \<Rightarrow> expired t e | None \<Rightarrow> False)"

lemma view_upd:
  "view t (m(k := x)) = (view t m)(k := view t (\<lambda>_. x) k)"
  by (auto simp: view_def)

lemma view_view [simp]: "view t (view t m) = view t m"
  by (auto simp: view_def split: option.split)

lemma execute_read_refines:
  assumes "\<not> cache_poisoned c" "reading clk = Inr t" "reading (stl clk) = Inr t"
  shows "\<exists>c' clk'. cache_execute (Read r) c clk =
      (Inr (fst (spec_execute (Read r) t (view t (lookup c)))), c', clk') \<and>
    view t (lookup c') = snd (spec_execute (Read r) t (view t (lookup c)))"
proof (cases "lookup c (read_key r)")
  case None
  then have "view t (lookup c) (read_key r) = None" by (simp add: view_def)
  with None assms show ?thesis
    by (cases r) (simp_all add: cache_execute_def spec_execute_def cache_op_defs ttl_outcome_of_def)
next
  case (Some e)
  then have v: "view t (lookup c) (read_key r) = (if expired t e then None else Some e)"
    and gone: "expired t e \<Longrightarrow> view t ((lookup c)(read_key r := None)) = view t (lookup c)"
    by (auto simp: view_def)
  show ?thesis
    using Some assms v gone
    by (cases r; cases "entry_expires_at e")
      (auto simp: cache_execute_def spec_execute_def cache_op_defs ttl_outcome_of_def map_laws
        expired_def)
qed

lemma execute_write_refines:
  assumes "\<not> cache_poisoned c" "reading clk = Inr t"
    and "\<And>k. w = Delete k \<Longrightarrow> \<not> leftover t c k"
    and "\<And>k d. w = ExpireAt k d \<Longrightarrow> \<not> leftover t c k"
  shows "\<exists>c' clk'. cache_execute (Write w) c clk =
      (Inr (fst (spec_execute (Write w) t (view t (lookup c)))), c', clk') \<and>
    view t (lookup c') = snd (spec_execute (Write w) t (view t (lookup c)))"
proof -
  have v: "view t (lookup c) k = (if leftover t c k then None else lookup c k)" for k
    by (simp add: view_def leftover_def split: option.split)
  show ?thesis
  proof (cases w)
    case (Set k x d)
    with assms(1) show ?thesis
      by (simp add: cache_execute_def spec_execute_def cache_op_defs map_laws view_upd)
  next
    case (Delete k)
    then show ?thesis
      using assms v [of k]
      by (simp add: cache_execute_def spec_execute_def cache_op_defs map_laws view_upd)
        (simp add: view_def)
  next
    case (ExpireAt k d)
    then have live: "\<not> leftover t c k" using assms(4) by simp
    show ?thesis
      using assms(1, 2) ExpireAt live
      by (cases "lookup c k")
        (auto simp: cache_execute_def spec_execute_def cache_op_defs map_laws view_def leftover_def
          expired_def fun_eq_iff split: option.split)
  next
    case (Persist k)
    show ?thesis
      using assms(1, 2) Persist v [of k]
      by (cases "lookup c k"; cases "entry_expires_at (the (lookup c k))")
        (auto simp: cache_execute_def spec_execute_def cache_op_defs map_laws view_def leftover_def
          expired_def fun_eq_iff split: option.split)
  qed
qed

section \<open>The sweep\<close>

lemma cache_remove_expired_healthy:
  assumes "cache_invar c" "\<not> cache_poisoned c" "reading clk = Inr t"
  shows "\<exists>c'. cache_remove_expired c clk = (Inr (card {k. leftover t c k}), c', stl clk) \<and>
    lookup c' = view t (lookup c) \<and> cache_invar c' \<and> \<not> cache_poisoned c'"
proof -
  have "{k. leftover t c k} = {k. \<exists>e. lookup c k = Some e \<and> expired t e}"
    by (auto simp: leftover_def split: option.splits)
  moreover have "map_of (fold AList.delete (map fst (filter (\<lambda>(key, e). expired t e) (cache_inner c)))
      (cache_inner c)) = view t (lookup c)"
    using alist.get_sweep [of "cache_inner c" "expired t"] assms(1)
    by (auto simp: cache_invar_def view_def fun_eq_iff split: option.split)
  moreover note alist.sweep_count [of "cache_inner c" "expired t"]
  ultimately show ?thesis
    using assms by (simp add: cache_remove_expired_def now_eq cache_invar_def alist.invar_fold_remove)
qed

lemma cache_execute_invar: "cache_invar c \<Longrightarrow> cache_invar (fst (snd (cache_execute cmd c clk)))"
  using cache_execute_effect [of cmd c clk] by (auto simp: map_laws)

lemma cache_remove_expired_invar: "cache_invar c \<Longrightarrow> cache_invar (fst (snd (cache_remove_expired c clk)))"
  by (auto simp: cache_remove_expired_def cache_invar_def Let_def now_eq alist.invar_fold_remove
      split: sum.split)

section \<open>Writes whose deadlines lie ahead\<close>

text \<open>What a write does to the entry under its own key when no deadline is in the past.\<close>

definition apply_key :: "write_command \<Rightarrow> entry option \<Rightarrow> entry option" where
  "apply_key w x =
    (case w of
       Set k v d \<Rightarrow> Some (entry_new v d)
     | Delete k \<Rightarrow> None
     | ExpireAt k d \<Rightarrow> map_option (\<lambda>e. e\<lparr>entry_expires_at := Some d\<rparr>) x
     | Persist k \<Rightarrow> map_option (\<lambda>e. e\<lparr>entry_expires_at := None\<rparr>) x)"

definition write_deadline :: "write_command \<Rightarrow> milliseconds option" where
  "write_deadline w = (case w of Set k v d \<Rightarrow> d | ExpireAt k d \<Rightarrow> Some d | _ \<Rightarrow> None)"

lemma cache_execute_ahead:
  assumes "\<not> cache_poisoned c" "reading clk = Inr t"
    and "\<not> leftover t c (write_key w)"
    and "\<And>k d. w = ExpireAt k d \<Longrightarrow> t < d"
  shows "lookup (fst (snd (cache_execute (Write w) c clk))) (write_key w) =
      apply_key w (lookup c (write_key w))"
    and "\<exists>x. fst (cache_execute (Write w) c clk) = Inr x"
proof -
  have "lookup (fst (snd (cache_execute (Write w) c clk))) (write_key w) =
      apply_key w (lookup c (write_key w)) \<and> (\<exists>x. fst (cache_execute (Write w) c clk) = Inr x)"
  proof (cases w)
    case (ExpireAt k d)
    with assms show ?thesis
      by (auto simp: cache_execute_def cache_op_defs map_laws apply_key_def split: option.split)
  next
    case (Persist k)
    with assms show ?thesis
      by (cases "lookup c k"; cases "entry_expires_at (the (lookup c k))")
        (auto simp: cache_execute_def cache_op_defs map_laws apply_key_def leftover_def expired_def)
  qed (use assms in \<open>simp_all add: cache_execute_def cache_op_defs map_laws apply_key_def\<close>)
  then show "lookup (fst (snd (cache_execute (Write w) c clk))) (write_key w) =
      apply_key w (lookup c (write_key w))"
    and "\<exists>x. fst (cache_execute (Write w) c clk) = Inr x" by blast+
qed

lemma ttl_arithmetic:
  assumes "unat (millis_get t) + 1000 * unat s < 2 ^ 64" "t \<le> t2"
    and "unat (millis_get t2) < unat (millis_get t) + 1000" "0 < s"
  shows "to_seconds_rounded_up
    (ms_saturating_sub (ms_saturating_add t (millis_from_seconds (Seconds s))) t2) = Seconds s"
proof -
  let ?d = "ms_saturating_add t (millis_from_seconds (Seconds s))"
  let ?t = "unat (millis_get t)" and ?t2 = "unat (millis_get t2)"
  have "unat (millis_get ?d) = ?t + 1000 * unat s"
    using assms(1) unfolding unat_ms_saturating_add unat_millis_from_seconds by simp
  then have left: "unat (millis_get (ms_saturating_sub ?d t2)) = ?t + 1000 * unat s - ?t2"
    by (simp add: unat_ms_saturating_sub)
  have "0 < unat s" using assms(4) by (simp add: word_less_nat_alt)
  then have "(?t + 1000 * unat s - ?t2 + 999) div 1000 = unat s"
    using assms(2, 3) by (intro div_nat_eqI) (simp_all add: millis_le_nat)
  then have "unat (seconds_get (to_seconds_rounded_up (ms_saturating_sub ?d t2))) = unat s"
    by (simp add: unat_to_seconds_rounded_up left)
  then have "seconds_get (to_seconds_rounded_up (ms_saturating_sub ?d t2)) = seconds_get (Seconds s)"
    by (simp add: word_unat_eq_iff)
  then show ?thesis by (rule seconds.expand)
qed

section \<open>Properties\<close>

text \<open>
  C5: the store implements the live view.  On a healthy store whose clock reads \<open>t\<close>, every
  command answers what it answers on the map of unexpired entries and changes that map as it
  should, lazy removals notwithstanding; for \<^verbatim>\<open>DEL\<close> and the expire commands the key must
  not be an expired leftover.
\<close>

theorem execute_refines_live_view:
  assumes "\<not> cache_poisoned c" "reading clk = Inr t" "reading (stl clk) = Inr t"
    and "\<And>k. cmd = Write (Delete k) \<Longrightarrow> \<not> leftover t c k"
    and "\<And>k d. cmd = Write (ExpireAt k d) \<Longrightarrow> \<not> leftover t c k"
  shows "\<exists>c' clk'. cache_execute cmd c clk =
      (Inr (fst (spec_execute cmd t (view t (lookup c)))), c', clk') \<and>
    view t (lookup c') = snd (spec_execute cmd t (view t (lookup c)))"
proof (cases cmd)
  case (Read r)
  with execute_read_refines [OF assms(1-3)] show ?thesis by simp
next
  case (Write w)
  with execute_write_refines [OF assms(1, 2), of w] assms(4, 5) show ?thesis by simp
qed

theorem execute_refines_live_view_witness:
  "\<exists>c' clk'. cache_execute (Read (Get ''k''))
      (cache_new [(''k'', entry_new ''v'' (Some (Milliseconds 5)))]) (clock_at (Milliseconds 9)) =
      (Inr (fst (spec_execute (Read (Get ''k'')) (Milliseconds 9) (view (Milliseconds 9)
        (lookup (cache_new [(''k'', entry_new ''v'' (Some (Milliseconds 5)))]))))), c', clk') \<and>
    view (Milliseconds 9) (lookup c') = snd (spec_execute (Read (Get ''k'')) (Milliseconds 9)
      (view (Milliseconds 9) (lookup (cache_new [(''k'', entry_new ''v'' (Some (Milliseconds 5)))]))))"
  by (rule execute_refines_live_view) simp_all

text \<open>
  a sweep at time \<open>t\<close> leaves exactly the live view at \<open>t\<close> in the map and reports the number
  of expired keys it dropped.
\<close>

theorem sweep_leaves_live_view:
  assumes "cache_invar c" "\<not> cache_poisoned c" "reading clk = Inr t"
  shows "\<exists>c'. cache_remove_expired c clk = (Inr (card {k. leftover t c k}), c', stl clk) \<and>
    lookup c' = view t (lookup c) \<and> (\<forall>k. \<not> leftover t c' k)"
proof -
  obtain c' where c': "cache_remove_expired c clk = (Inr (card {k. leftover t c k}), c', stl clk)"
      "lookup c' = view t (lookup c)"
    using cache_remove_expired_healthy [OF assms] by blast
  then have "\<forall>k. \<not> leftover t c' k"
    by (simp add: leftover_def view_def split: option.split)
  with c' show ?thesis by blast
qed

theorem sweep_leaves_live_view_witness:
  "\<exists>c'. cache_remove_expired (cache_new [(''k'', entry_new ''v'' (Some (Milliseconds 5)))])
        (clock_at (Milliseconds 9)) =
      (Inr (card {k. leftover (Milliseconds 9)
          (cache_new [(''k'', entry_new ''v'' (Some (Milliseconds 5)))]) k}), c',
        stl (clock_at (Milliseconds 9))) \<and>
    lookup c' = view (Milliseconds 9) (lookup (cache_new [(''k'', entry_new ''v'' (Some (Milliseconds 5)))])) \<and>
    (\<forall>k. \<not> leftover (Milliseconds 9) c' k)"
  by (rule sweep_leaves_live_view) (simp_all add: cache_invar_def cache_new_def)

text \<open>
  C22: whatever a command answers, it keeps the map's invariant and the lock's state, touches no
  key but its own, and when it fails it leaves the store as it was.
\<close>

theorem execute_confined:
  assumes "cache_execute cmd c clk = (r, c', clk')"
  shows "(cache_invar c \<longrightarrow> cache_invar c') \<and> cache_poisoned c' = cache_poisoned c \<and>
    (\<forall>k. k \<noteq> cache_command_key cmd \<longrightarrow> lookup c' k = lookup c k) \<and>
    (\<forall>e. r = Inl e \<longrightarrow> c' = c)"
  using cache_execute_effect [of cmd c clk] assms by (auto simp: map_laws)

theorem execute_confined_witness:
  "\<exists>r c' clk'. cache_execute (Write (Delete ''k'')) (cache_new []) (clock_at (Milliseconds 0)) =
      (r, c', clk') \<and> cache_invar c'"
proof -
  let ?x = "cache_execute (Write (Delete ''k'')) (cache_new []) (clock_at (Milliseconds 0))"
  have "?x = (fst ?x, fst (snd ?x), snd (snd ?x))" by simp
  from execute_confined [OF this] show ?thesis
    by (metis cache_invar_def cache_new_def distinct.simps(1) list.simps(8) prod.collapse
        select_convs(1) cache.select_convs(1))
qed

text \<open>
  a time to live of \<open>s\<close> seconds set at time \<open>t\<close> reads back as \<open>s\<close>, not \<open>s - 1\<close>, for the
  first second, although a \<^verbatim>\<open>TTL\<close> reads the clock twice.
\<close>

theorem ttl_reads_back:
  assumes "\<not> cache_poisoned c" "lookup c k = Some e"
    and "entry_expires_at e = Some (ms_saturating_add t (millis_from_seconds (Seconds s)))"
    and "unat (millis_get t) + 1000 * unat s < 2 ^ 64" "0 < s"
    and "reading clk = Inr t1" "reading (stl clk) = Inr t2" "t1 \<le> t2" "t \<le> t2"
    and "unat (millis_get t2) < unat (millis_get t) + 1000"
  shows "cache_execute (Read (Ttl k)) c clk = (Inr (TtlOutcome (TtlSome (Seconds s))), c, stl (stl clk))"
proof -
  have "1 \<le> unat s" using assms(5) by (simp add: word_less_nat_alt)
  then have "\<not> expired t1 e"
    using assms(3, 4, 8, 10)
    by (simp add: expired_def millis_le_nat unat_ms_saturating_add unat_millis_from_seconds)
  then show ?thesis
    using assms ttl_arithmetic [OF assms(4, 9, 10, 5)]
    by (simp add: cache_execute_def cache_time_to_live_eq ttl_outcome_of_def)
qed

theorem ttl_reads_back_witness:
  "cache_execute (Read (Ttl ''k''))
      (cache_new [(''k'', entry_new ''v''
        (Some (ms_saturating_add (Milliseconds 100) (millis_from_seconds (Seconds 60)))))])
      (clock_at (Milliseconds 600)) =
    (Inr (TtlOutcome (TtlSome (Seconds 60))),
     cache_new [(''k'', entry_new ''v''
        (Some (ms_saturating_add (Milliseconds 100) (millis_from_seconds (Seconds 60)))))],
     stl (stl (clock_at (Milliseconds 600))))"
  by (rule ttl_reads_back [where t = "Milliseconds 100" and ?t1.0 = "Milliseconds 600"
        and ?t2.0 = "Milliseconds 600" and e = "entry_new ''v''
          (Some (ms_saturating_add (Milliseconds 100) (millis_from_seconds (Seconds 60))))"])
    (simp_all add: entry_new_def millis_le_nat)

text \<open>
  C35: an expire command brings an expired key back.  As long as no read and no sweep has dropped
  it, a key past its deadline gets the new deadline and is visible again with its old value, whereas
  on the live view the key is missing.
\<close>

theorem expire_revives_leftover:
  assumes "\<not> cache_poisoned c" "reading clk = Inr t" "lookup c k = Some e" "expired t e" "t < d"
  shows "\<exists>c'. cache_execute (Write (ExpireAt k d)) c clk = (Inr (Bool True), c', stl clk) \<and>
    view t (lookup c') k = Some (e\<lparr>entry_expires_at := Some d\<rparr>) \<and>
    fst (spec_execute (Write (ExpireAt k d)) t (view t (lookup c))) = Bool False"
  using assms
  by (auto simp: cache_execute_def cache_op_defs map_laws view_def expired_def spec_execute_def)

theorem expire_revives_leftover_witness:
  "\<exists>c'. cache_execute (Write (ExpireAt ''k'' (Milliseconds 20)))
        (cache_new [(''k'', entry_new ''v'' (Some (Milliseconds 5)))]) (clock_at (Milliseconds 9)) =
      (Inr (Bool True), c', stl (clock_at (Milliseconds 9))) \<and>
    view (Milliseconds 9) (lookup c') ''k'' =
      Some ((entry_new ''v'' (Some (Milliseconds 5)))\<lparr>entry_expires_at := Some (Milliseconds 20)\<rparr>) \<and>
    fst (spec_execute (Write (ExpireAt ''k'' (Milliseconds 20))) (Milliseconds 9)
      (view (Milliseconds 9) (lookup (cache_new [(''k'', entry_new ''v'' (Some (Milliseconds 5)))])))) =
      Bool False"
  by (rule expire_revives_leftover) (simp_all add: entry_new_def expired_def millis_le_nat millis_less_nat)

text \<open>
  C36: the lock is given up between the two halves of \<^verbatim>\<open>expires_at\<close>.  When a deadline read by a
  \<^verbatim>\<open>TTL\<close> has passed and a \<^verbatim>\<open>SET\<close> of the same key runs in between, the second half removes
  the entry the \<^verbatim>\<open>SET\<close> has just stored.
\<close>

theorem ttl_race_drops_fresh_set:
  assumes "\<not> cache_poisoned c" "lookup c k = Some e" "entry_expires_at e = Some d"
    and "d \<le> t" "reading clk = Inr t"
  shows "\<exists>c1 c2. expires_at_read k c = Inr (Some (Some d)) \<and>
    cache_execute (Write (Set k v None)) c clk0 = (Inr OutcomeOk, c1, clk0) \<and>
    lookup c1 k = Some (entry_new v None) \<and>
    expires_at_finish k (Some d) c1 clk = (Inr None, c2, stl clk) \<and> lookup c2 k = None"
  using assms
  by (simp add: cache_execute_def expires_at_read_def expires_at_finish_def cache_op_defs map_laws)

theorem ttl_race_drops_fresh_set_witness:
  "\<exists>c1 c2. expires_at_read ''k'' (cache_new [(''k'', entry_new ''old'' (Some (Milliseconds 5)))]) =
      Inr (Some (Some (Milliseconds 5))) \<and>
    cache_execute (Write (Set ''k'' ''new'' None))
      (cache_new [(''k'', entry_new ''old'' (Some (Milliseconds 5)))]) (clock_at (Milliseconds 6)) =
      (Inr OutcomeOk, c1, clock_at (Milliseconds 6)) \<and>
    lookup c1 ''k'' = Some (entry_new ''new'' None) \<and>
    expires_at_finish ''k'' (Some (Milliseconds 5)) c1 (clock_at (Milliseconds 6)) =
      (Inr None, c2, stl (clock_at (Milliseconds 6))) \<and> lookup c2 ''k'' = None"
  by (rule ttl_race_drops_fresh_set
        [where t = "Milliseconds 6" and e = "entry_new ''old'' (Some (Milliseconds 5))"])
    (simp_all add: entry_new_def millis_le_nat)

end
