(* ===== verification/Channels.thy ===== *)
theory Channels
  imports Commands
begin

text \<open>
  \<^verbatim>\<open>domain/channels.rs\<close>: the subscription registry.  A \<^verbatim>\<open>Sender\<close> is a handle on the mpsc
  that a session's writer drains, so the mpscs live in a store of mailboxes: the bytes queued and
  whether the receiving end is still there.  Handles are compared by address; two registrations of
  one session share a mailbox.
\<close>

section \<open>Mailboxes\<close>

record mailbox =
  mbox_queue :: "bytes list"
  mbox_open :: bool

type_synonym sender = nat
type_synonym mailboxes = "sender \<Rightarrow> mailbox"

datatype send_error = SendError bytes

definition sender_send :: "bytes \<Rightarrow> sender \<Rightarrow> mailboxes \<Rightarrow> (send_error, unit) result \<times> mailboxes" where
  "sender_send message s boxes =
    (if mbox_open (boxes s)
     then (Inr (), boxes(s := (boxes s)\<lparr>mbox_queue := mbox_queue (boxes s) @ [message]\<rparr>))
     else (Inl (SendError message), boxes))"

section \<open>The registry\<close>

record subscriber =
  subscriber_id :: "32 word"
  subscriber_sender :: sender

definition subscriber_new :: "32 word \<Rightarrow> sender \<Rightarrow> subscriber" where
  "subscriber_new i s = \<lparr>subscriber_id = i, subscriber_sender = s\<rparr>"

definition subscriber_send ::
    "bytes \<Rightarrow> subscriber \<Rightarrow> mailboxes \<Rightarrow> (send_error, unit) result \<times> mailboxes" where
  "subscriber_send message sub boxes = sender_send message (subscriber_sender sub) boxes"

type_synonym subscribers = "(32 word \<times> sender) list"

datatype channels_error = ChannelsMutexPoisoned

record channels =
  channels_map :: "(bytes \<times> subscribers) list"
  channels_poisoned :: bool

definition channels_new :: channels where
  "channels_new = \<lparr>channels_map = [], channels_poisoned = False\<rparr>"

text \<open>What \<^verbatim>\<open>subscribe\<close> and \<^verbatim>\<open>unsubscribe\<close> do to the map once they hold the lock.\<close>

definition registry_insert ::
    "bytes \<Rightarrow> 32 word \<Rightarrow> sender \<Rightarrow> (bytes \<times> subscribers) list \<Rightarrow> (bytes \<times> subscribers) list" where
  "registry_insert ch i s m =
    (let subs = (case map_of m ch of Some subs \<Rightarrow> subs | None \<Rightarrow> [])
     in AList.update ch (AList.update i s subs) m)"

definition registry_remove ::
    "bytes \<Rightarrow> 32 word \<Rightarrow> (bytes \<times> subscribers) list \<Rightarrow> (bytes \<times> subscribers) list" where
  "registry_remove ch i m =
    (case map_of m ch of
       None \<Rightarrow> m
     | Some subs \<Rightarrow>
         let subs = AList.delete i subs
         in if subs = [] then AList.delete ch m else AList.update ch subs m)"

definition channels_subscribe ::
    "bytes \<Rightarrow> subscriber \<Rightarrow> channels \<Rightarrow> (channels_error, unit) result \<times> channels" where
  "channels_subscribe ch sub cs =
    (if channels_poisoned cs then (Inl ChannelsMutexPoisoned, cs)
     else (Inr (), cs\<lparr>channels_map :=
       registry_insert ch (subscriber_id sub) (subscriber_sender sub) (channels_map cs)\<rparr>))"

definition channels_unsubscribe ::
    "bytes \<Rightarrow> 32 word \<Rightarrow> channels \<Rightarrow> (channels_error, unit) result \<times> channels" where
  "channels_unsubscribe ch i cs =
    (if channels_poisoned cs then (Inl ChannelsMutexPoisoned, cs)
     else (Inr (), cs\<lparr>channels_map := registry_remove ch i (channels_map cs)\<rparr>))"

text \<open>\<^verbatim>\<open>retain\<close> with the sending closure: the subscribers kept, the mailboxes, the count.\<close>

fun retain_sent :: "bytes \<Rightarrow> subscribers \<Rightarrow> mailboxes \<Rightarrow> 32 word \<Rightarrow> subscribers \<times> mailboxes \<times> 32 word" where
  "retain_sent message [] boxes n = ([], boxes, n)"
| "retain_sent message ((i, s) # subs) boxes n =
    (case sender_send message s boxes of
       (Inr _, boxes) \<Rightarrow>
         (case retain_sent message subs boxes (saturating_add n 1) of
            (kept, boxes, n) \<Rightarrow> ((i, s) # kept, boxes, n))
     | (Inl _, boxes) \<Rightarrow> retain_sent message subs boxes n)"

definition channels_publish ::
    "bytes \<Rightarrow> bytes \<Rightarrow> channels \<Rightarrow> mailboxes \<Rightarrow>
      (channels_error, 32 word) result \<times> channels \<times> mailboxes" where
  "channels_publish message ch cs boxes =
    (if channels_poisoned cs then (Inl ChannelsMutexPoisoned, cs, boxes)
     else case map_of (channels_map cs) ch of
       None \<Rightarrow> (Inr 0, cs, boxes)
     | Some subs \<Rightarrow>
         (case retain_sent message subs boxes 0 of
            (kept, boxes, n) \<Rightarrow>
              (Inr n, cs\<lparr>channels_map := AList.update ch kept (channels_map cs)\<rparr>, boxes)))"

section \<open>The membership interface\<close>

text \<open>
  What a session relies on: who is a member of which channel, and how joining and leaving change
  that.  Joining or leaving a list of channels is then settled once, inside the interface.
\<close>

locale membership =
  fixes members :: "'r \<Rightarrow> 'c \<Rightarrow> 'i \<rightharpoonup> 's"
    and join :: "'c \<Rightarrow> 'i \<Rightarrow> 's \<Rightarrow> 'r \<Rightarrow> 'r"
    and leave :: "'c \<Rightarrow> 'i \<Rightarrow> 'r \<Rightarrow> 'r"
  assumes members_join: "members (join c i s r) = (members r)(c := (members r c)(i \<mapsto> s))"
    and members_leave: "members (leave c i r) = (members r)(c := (members r c)(i := None))"
begin

lemma members_join_all:
  "members (fold (\<lambda>c. join c i s) cs r) ch j =
    (if ch \<in> set cs \<and> j = i then Some s else members r ch j)"
  by (induction cs arbitrary: r) (auto simp: members_join)

lemma members_leave_all:
  "members (fold (\<lambda>c. leave c i) cs r) ch j =
    (if ch \<in> set cs \<and> j = i then None else members r ch j)"
  by (induction cs arbitrary: r) (auto simp: members_leave)

lemma leave_after_join: "members r c i = None \<Longrightarrow> members (leave c i (join c i s r)) = members r"
  by (auto simp: members_join members_leave fun_eq_iff)

end

definition members_of :: "(bytes \<times> subscribers) list \<Rightarrow> bytes \<Rightarrow> 32 word \<rightharpoonup> sender" where
  "members_of m ch = (case map_of m ch of Some subs \<Rightarrow> map_of subs | None \<Rightarrow> Map.empty)"

lemma delete_empty_map_of: "AList.delete i subs = [] \<Longrightarrow> x \<noteq> i \<Longrightarrow> map_of subs x = None"
  by (metis delete_conv' fun_upd_other map_of.simps(1))

interpretation registry: membership members_of registry_insert registry_remove
proof (unfold_locales, goal_cases)
  case (1 c i s r)
  show ?case
    by (auto simp: members_of_def registry_insert_def Let_def alist_laws fun_eq_iff split: option.split)
next
  case (2 c i r)
  show ?case
    by (auto simp: members_of_def registry_remove_def Let_def alist_laws fun_eq_iff
        dest: delete_empty_map_of split: option.split)
qed

section \<open>The registry invariant\<close>

definition registry_invar :: "(bytes \<times> subscribers) list \<Rightarrow> bool" where
  "registry_invar m \<longleftrightarrow> distinct_keys m \<and> (\<forall>(ch, subs) \<in> set m. distinct_keys subs)"

definition no_empty_channel :: "(bytes \<times> subscribers) list \<Rightarrow> bool" where
  "no_empty_channel m \<longleftrightarrow> (\<forall>(ch, subs) \<in> set m. subs \<noteq> [])"

lemma set_update_subset: "set (AList.update k v m) \<subseteq> insert (k, v) (set m)"
  by (induction m) auto

lemma set_delete_subset: "set (AList.delete k m) \<subseteq> set m"
  by (auto simp: AList.delete_eq)

lemma registry_invar_update:
  "registry_invar m \<Longrightarrow> distinct_keys subs \<Longrightarrow> registry_invar (AList.update ch subs m)"
  using set_update_subset [of ch subs m] by (auto simp: registry_invar_def alist_laws)

lemma registry_invar_delete: "registry_invar m \<Longrightarrow> registry_invar (AList.delete ch m)"
  using set_delete_subset [of ch m] by (auto simp: registry_invar_def alist_laws)

lemma registry_invar_lookup: "registry_invar m \<Longrightarrow> map_of m ch = Some subs \<Longrightarrow> distinct_keys subs"
  by (auto simp: registry_invar_def dest: map_of_SomeD)

lemma registry_invar_ops [map_laws]:
  assumes "registry_invar m"
  shows "registry_invar (registry_insert ch i s m)" "registry_invar (registry_remove ch i m)"
  using assms registry_invar_lookup [OF assms, of ch]
  by (auto simp: registry_insert_def registry_remove_def Let_def alist_laws
      intro!: registry_invar_update registry_invar_delete split: option.split)

lemma AList_update_nonempty: "AList.update k v m \<noteq> []"
  by (induction m) auto

lemma no_empty_channel_ops:
  assumes "no_empty_channel m"
  shows "no_empty_channel (registry_insert ch i s m)" "no_empty_channel (registry_remove ch i m)"
proof -
  have upd: "no_empty_channel (AList.update ch subs m)" if "subs \<noteq> []" for subs
    using set_update_subset [of ch subs m] assms that by (auto simp: no_empty_channel_def)
  then show "no_empty_channel (registry_insert ch i s m)"
    by (simp add: registry_insert_def AList_update_nonempty)
  show "no_empty_channel (registry_remove ch i m)"
    using upd assms set_delete_subset [of ch m]
    by (auto simp: registry_remove_def Let_def no_empty_channel_def split: option.split)
qed

section \<open>Fan-out\<close>

definition deliver :: "bytes \<Rightarrow> sender set \<Rightarrow> mailboxes \<Rightarrow> mailboxes" where
  "deliver message S boxes = (\<lambda>s. if s \<in> S \<and> mbox_open (boxes s)
     then (boxes s)\<lparr>mbox_queue := mbox_queue (boxes s) @ [message]\<rparr> else boxes s)"

abbreviation reachable :: "mailboxes \<Rightarrow> 32 word \<times> sender \<Rightarrow> bool" where
  "reachable boxes \<equiv> \<lambda>(i, s). mbox_open (boxes s)"

lemma retain_sent_eq:
  "distinct (map snd subs) \<Longrightarrow> retain_sent message subs boxes n = (kept, boxes', n') \<Longrightarrow>
     kept = filter (reachable boxes) subs \<and> boxes' = deliver message (snd ` set subs) boxes \<and>
     unat n' = min (unat n + length kept) (2 ^ 32 - 1)"
proof (induction subs arbitrary: boxes n kept boxes' n')
  case Nil
  have "unat n \<le> 2 ^ 32 - 1" using unsigned_less [where ?'a = nat, of n] by simp
  with Nil show ?case by (auto simp: deliver_def)
next
  case (Cons x subs)
  obtain i s where x: "x = (i, s)" by (cases "x")
  show ?case
  proof (cases "mbox_open (boxes s)")
    case True
    let ?b = "boxes(s := (boxes s)\<lparr>mbox_queue := mbox_queue (boxes s) @ [message]\<rparr>)"
    obtain kept0 where rest: "retain_sent message subs ?b (saturating_add n 1) = (kept0, boxes', n')"
      and kept: "kept = (i, s) # kept0"
      using Cons.prems(2) True x by (auto simp: sender_send_def split: prod.splits)
    have fresh: "s \<notin> snd ` set subs" using Cons.prems(1) x by simp
    then have f: "filter (reachable ?b) subs = filter (reachable boxes) subs"
      by (intro filter_cong) (auto simp: image_iff)
    have d: "deliver message (snd ` set subs) ?b = deliver message (snd ` set (x # subs)) boxes"
      using fresh True x by (auto simp: deliver_def fun_eq_iff)
    have c: "unat (saturating_add n 1) + length kept0 = min (unat n + 1) (2 ^ 32 - 1) + length kept0"
      by (simp add: unat_saturating_add)
    have dist: "distinct (map snd subs)" using Cons.prems(1) by simp
    from Cons.IH [OF dist rest] f d
    have ih: "kept0 = filter (reachable boxes) subs"
        "boxes' = deliver message (snd ` set (x # subs)) boxes"
        "unat n' = min (unat (saturating_add n 1) + length kept0) (2 ^ 32 - 1)" by argo+
    have "unat n' = min (unat n + length kept) (2 ^ 32 - 1)"
      using ih(3) kept unfolding c by (simp add: min_def)
    with ih(1, 2) kept True x show ?thesis by simp
  next
    case False
    then have "retain_sent message subs boxes n = (kept, boxes', n')"
      using Cons.prems(2) x by (simp add: sender_send_def)
    from Cons.IH [OF _ this] Cons.prems(1) False x show ?thesis
      by (auto simp: deliver_def)
  qed
qed

section \<open>Properties\<close>

text \<open>
  C21: a \<^verbatim>\<open>PUBLISH\<close> puts the message once at the end of the queue of every subscriber whose
  session is alive and nowhere else, answers how many those are (saturating), and prunes the dead
  ones from that channel only.
\<close>

theorem publish_fans_out:
  assumes "\<not> channels_poisoned cs" "map_of (channels_map cs) ch = Some subs"
    and "distinct (map snd subs)"
  shows "\<exists>n cs'. channels_publish message ch cs boxes =
      (Inr n, cs', deliver message (snd ` set subs) boxes) \<and>
    unat n = min (length (filter (reachable boxes) subs)) (2 ^ 32 - 1) \<and>
    map_of (channels_map cs') = (map_of (channels_map cs))(ch \<mapsto> filter (reachable boxes) subs)"
proof -
  obtain kept boxes' n where r: "retain_sent message subs boxes 0 = (kept, boxes', n)"
    by (cases "retain_sent message subs boxes 0")
  from retain_sent_eq [OF assms(3) r] r assms(1, 2) show ?thesis
    by (simp add: channels_publish_def alist_laws)
qed

theorem publish_fans_out_witness:
  "\<exists>n cs'. channels_publish ''hi'' ''news''
        \<lparr>channels_map = [(''news'', [(1, 10), (2, 20)])], channels_poisoned = False\<rparr>
        (\<lambda>s. \<lparr>mbox_queue = [], mbox_open = s = 10\<rparr>) =
      (Inr n, cs', deliver ''hi'' (snd ` set [(1 :: 32 word, 10), (2, 20)])
        (\<lambda>s. \<lparr>mbox_queue = [], mbox_open = s = 10\<rparr>)) \<and>
    unat n = min (length (filter (reachable (\<lambda>s. \<lparr>mbox_queue = [], mbox_open = s = 10\<rparr>))
      [(1, 10), (2, 20)])) (2 ^ 32 - 1) \<and>
    map_of (channels_map cs') = (map_of (channels_map
        \<lparr>channels_map = [(''news'', [(1, 10), (2, 20)])], channels_poisoned = False\<rparr>))
      (''news'' \<mapsto> filter (reachable (\<lambda>s. \<lparr>mbox_queue = [], mbox_open = s = 10\<rparr>)) [(1, 10), (2, 20)])"
  by (rule publish_fans_out) simp_all

text \<open>
  subscribing and unsubscribing change exactly one membership, keep the map's keys distinct,
  and never leave a channel without subscribers behind.
\<close>

theorem subscribe_unsubscribe_membership:
  assumes "\<not> channels_poisoned cs" "registry_invar (channels_map cs)"
    and "no_empty_channel (channels_map cs)"
  shows "\<exists>cs1 cs2. channels_subscribe ch (subscriber_new i s) cs = (Inr (), cs1) \<and>
    members_of (channels_map cs1) =
      (members_of (channels_map cs))(ch := (members_of (channels_map cs) ch)(i \<mapsto> s)) \<and>
    registry_invar (channels_map cs1) \<and> no_empty_channel (channels_map cs1) \<and>
    channels_unsubscribe ch i cs = (Inr (), cs2) \<and>
    members_of (channels_map cs2) =
      (members_of (channels_map cs))(ch := (members_of (channels_map cs) ch)(i := None)) \<and>
    registry_invar (channels_map cs2) \<and> no_empty_channel (channels_map cs2)"
  using assms registry_invar_ops [OF assms(2)] no_empty_channel_ops [OF assms(3)]
  by (simp add: channels_subscribe_def channels_unsubscribe_def subscriber_new_def
      registry.members_join registry.members_leave)

theorem subscribe_unsubscribe_membership_witness:
  "\<exists>cs1 cs2. channels_subscribe ''news'' (subscriber_new 1 7) channels_new = (Inr (), cs1) \<and>
    members_of (channels_map cs1) = (members_of (channels_map channels_new))
      (''news'' := (members_of (channels_map channels_new) ''news'')(1 \<mapsto> 7)) \<and>
    registry_invar (channels_map cs1) \<and> no_empty_channel (channels_map cs1) \<and>
    channels_unsubscribe ''news'' 1 channels_new = (Inr (), cs2) \<and>
    members_of (channels_map cs2) = (members_of (channels_map channels_new))
      (''news'' := (members_of (channels_map channels_new) ''news'')(1 := None)) \<and>
    registry_invar (channels_map cs2) \<and> no_empty_channel (channels_map cs2)"
  by (rule subscribe_unsubscribe_membership)
    (simp_all add: channels_new_def registry_invar_def no_empty_channel_def)

text \<open>
  a \<^verbatim>\<open>PUBLISH\<close> to a channel whose sessions have all gone prunes them and leaves the channel
  behind with no subscribers, so the map does not hold live channels only.
\<close>

theorem publish_leaves_empty_channel:
  assumes "\<not> channels_poisoned cs" "map_of (channels_map cs) ch = Some subs"
    and "\<forall>(i, s) \<in> set subs. \<not> mbox_open (boxes s)"
  shows "\<exists>cs'. channels_publish message ch cs boxes = (Inr 0, cs', boxes) \<and>
    map_of (channels_map cs') ch = Some [] \<and> \<not> no_empty_channel (channels_map cs')"
proof -
  have "retain_sent message subs boxes n = ([], boxes, n)" for n
    using assms(3) by (induction subs) (auto simp: sender_send_def)
  moreover have "\<not> no_empty_channel (AList.update ch [] m)" for m :: "(bytes \<times> subscribers) list"
    by (induction m) (auto simp: no_empty_channel_def)
  ultimately show ?thesis
    using assms(1, 2) by (simp add: channels_publish_def alist_laws)
qed

theorem publish_leaves_empty_channel_witness:
  "\<exists>cs'. channels_publish ''hi'' ''news''
        \<lparr>channels_map = [(''news'', [(1, 10)])], channels_poisoned = False\<rparr>
        (\<lambda>s. \<lparr>mbox_queue = [], mbox_open = False\<rparr>) =
      (Inr 0, cs', (\<lambda>s. \<lparr>mbox_queue = [], mbox_open = False\<rparr>)) \<and>
    map_of (channels_map cs') ''news'' = Some [] \<and> \<not> no_empty_channel (channels_map cs')"
  by (rule publish_leaves_empty_channel) simp_all

end
