(* ===== verification/Executor.thy ===== *)
theory Executor
  imports Cache Channels
begin

text \<open>
  \<^verbatim>\<open>domain/ports.rs\<close> and \<^verbatim>\<open>domain/executor.rs\<close>: a command becomes an effect on the cache
  and, when it is a write, a record in the log.  The executor is generic over the repository, as in
  the source: the repository's \<^verbatim>\<open>append\<close> is an argument, its state a type parameter, and what
  the executor relies on is the interface \<open>cache_repository\<close>.  An adapter's own error is boxed, so
  it is a type parameter too.
\<close>

section \<open>The ports\<close>

datatype 'b repository_error = RepositoryGeneric 'b

datatype 'b execute_error =
    ExecuteCache cache_error
  | ExecuteRepository "'b repository_error"
  | ExecuteChannels channels_error
  | ExecuteGeneric 'b

type_synonym ('b, 'r, 'w) append_op =
  "write_command \<Rightarrow> 'r \<Rightarrow> 'w \<Rightarrow> ('b repository_error, unit) result \<times> 'r \<times> 'w"

section \<open>The executor\<close>

record 'r executor =
  exec_cache :: cache
  exec_repo :: 'r

definition executor_new :: "cache \<Rightarrow> 'r \<Rightarrow> 'r executor" where
  "executor_new c r = \<lparr>exec_cache = c, exec_repo = r\<rparr>"

definition execute ::
    "cache_command \<Rightarrow> 'r executor \<Rightarrow> clock \<Rightarrow>
      ('b execute_error, command_outcome) result \<times> 'r executor \<times> clock" where
  "execute cmd ex clk =
    (case cache_execute cmd (exec_cache ex) clk of
       (r, c, clk) \<Rightarrow> (map_err ExecuteCache r, ex\<lparr>exec_cache := c\<rparr>, clk))"

definition execute_logged ::
    "('b, 'r, 'w) append_op \<Rightarrow> cache_command \<Rightarrow> 'r executor \<Rightarrow> clock \<Rightarrow> 'w \<Rightarrow>
      ('b execute_error, command_outcome) result \<times> 'r executor \<times> clock \<times> 'w" where
  "execute_logged app cmd ex clk w =
    (case execute cmd ex clk of
       (Inl e, ex, clk) \<Rightarrow> (Inl e, ex, clk, w)
     | (Inr outcome, ex, clk) \<Rightarrow>
         (case cmd of
            Read _ \<Rightarrow> (Inr outcome, ex, clk, w)
          | Write wc \<Rightarrow>
              (case app wc (exec_repo ex) w of
                 (Inl e, r, w) \<Rightarrow> (Inl (ExecuteRepository e), ex\<lparr>exec_repo := r\<rparr>, clk, w)
               | (Inr _, r, w) \<Rightarrow> (Inr outcome, ex\<lparr>exec_repo := r\<rparr>, clk, w))))"

text \<open>A client's commands, one after the other, for as long as they succeed.\<close>

fun run_logged ::
    "('b, 'r, 'w) append_op \<Rightarrow> cache_command list \<Rightarrow> 'r executor \<Rightarrow> clock \<Rightarrow> 'w \<Rightarrow>
      ('b execute_error, command_outcome list) result \<times> 'r executor \<times> clock \<times> 'w" where
  "run_logged app [] ex clk w = (Inr [], ex, clk, w)"
| "run_logged app (cmd # cmds) ex clk w =
    (case execute_logged app cmd ex clk w of
       (Inl e, ex, clk, w) \<Rightarrow> (Inl e, ex, clk, w)
     | (Inr outcome, ex, clk, w) \<Rightarrow>
         (case run_logged app cmds ex clk w of
            (Inl e, ex, clk, w) \<Rightarrow> (Inl e, ex, clk, w)
          | (Inr outcomes, ex, clk, w) \<Rightarrow> (Inr (outcome # outcomes), ex, clk, w)))"

definition writes_of :: "cache_command list \<Rightarrow> write_command list" where
  "writes_of cmds = concat (map (\<lambda>cmd. case cmd of Write wc \<Rightarrow> [wc] | Read _ \<Rightarrow> []) cmds)"

lemma writes_of_simps [simp]:
  "writes_of [] = []"
  "writes_of (Read r # cmds) = writes_of cmds"
  "writes_of (Write wc # cmds) = wc # writes_of cmds"
  by (simp_all add: writes_of_def)

lemma writes_of_Write [simp]: "writes_of (map Write ws) = ws"
  by (induction ws) simp_all

section \<open>The repository interface\<close>

text \<open>
  What the executor relies on: \<open>logged\<close> is the sequence of writes a recovery would replay, and an
  append that succeeds adds its command at the end of it.
\<close>

locale cache_repository =
  fixes app :: "('b, 'r, 'w) append_op"
    and logged :: "'r \<Rightarrow> write_command list"
    and good :: "'r \<Rightarrow> bool"
    and fits :: "write_command \<Rightarrow> bool"
  assumes append_logs: "good r \<Longrightarrow> fits wc \<Longrightarrow> app wc r w = (Inr x, r', w') \<Longrightarrow>
    good r' \<and> logged r' = logged r @ [wc]"
begin

lemma execute_logged_logs:
  assumes "good (exec_repo ex)" "\<forall>wc. cmd = Write wc \<longrightarrow> fits wc"
    and "execute_logged app cmd ex clk w = (Inr x, ex', clk', w')"
  shows "good (exec_repo ex')" "logged (exec_repo ex') = logged (exec_repo ex) @ writes_of [cmd]"
proof -
  have "good (exec_repo ex') \<and> logged (exec_repo ex') = logged (exec_repo ex) @ writes_of [cmd]"
    using assms append_logs
    by (auto simp: execute_logged_def execute_def map_err_def
        split: prod.splits sum.splits cache_command.splits)
  then show "good (exec_repo ex')" "logged (exec_repo ex') = logged (exec_repo ex) @ writes_of [cmd]"
    by blast+
qed

lemma run_logged_logs:
  "good (exec_repo ex) \<Longrightarrow> list_all fits (writes_of cmds) \<Longrightarrow>
   run_logged app cmds ex clk w = (Inr xs, ex', clk', w') \<Longrightarrow>
   good (exec_repo ex') \<and> logged (exec_repo ex') = logged (exec_repo ex) @ writes_of cmds"
proof (induction cmds arbitrary: ex clk w xs)
  case Nil
  then show ?case by simp
next
  case (Cons cmd cmds)
  from Cons.prems(3) obtain x ex1 clk1 w1 xs' where
      step: "execute_logged app cmd ex clk w = (Inr x, ex1, clk1, w1)"
    and rest: "run_logged app cmds ex1 clk1 w1 = (Inr xs', ex', clk', w')"
    by (auto split: prod.splits sum.splits)
  have fits: "\<forall>wc. cmd = Write wc \<longrightarrow> fits wc" "list_all fits (writes_of cmds)"
    using Cons.prems(2) by (cases cmd; simp)+
  from execute_logged_logs [OF Cons.prems(1) fits(1) step] Cons.IH [OF _ fits(2) rest]
  show ?case by (cases cmd) simp_all
qed

end

section \<open>The cache side of a logged run\<close>

lemma execute_logged_cache:
  assumes "execute_logged app cmd ex clk w = (Inr x, ex', clk', w')"
  shows "cache_execute cmd (exec_cache ex) clk = (Inr x, exec_cache ex', clk')"
  using assms
  by (auto simp: execute_logged_def execute_def map_err_def
      split: prod.splits sum.splits cache_command.splits)

text \<open>The commands of a run applied to the cache alone.\<close>

fun run_cache :: "cache_command list \<Rightarrow> cache \<Rightarrow> clock \<Rightarrow> (cache_error, unit) result \<times> cache \<times> clock" where
  "run_cache [] c clk = (Inr (), c, clk)"
| "run_cache (cmd # cmds) c clk =
    (case cache_execute cmd c clk of
       (Inl e, c, clk) \<Rightarrow> (Inl e, c, clk)
     | (Inr _, c, clk) \<Rightarrow> run_cache cmds c clk)"

lemma run_logged_cache:
  "run_logged app cmds ex clk w = (Inr xs, ex', clk', w') \<Longrightarrow>
   run_cache cmds (exec_cache ex) clk = (Inr (), exec_cache ex', clk')"
proof (induction cmds arbitrary: ex clk w xs)
  case Nil
  then show ?case by simp
next
  case (Cons cmd cmds)
  from Cons.prems obtain x ex1 clk1 w1 xs' where
      step: "execute_logged app cmd ex clk w = (Inr x, ex1, clk1, w1)"
    and rest: "run_logged app cmds ex1 clk1 w1 = (Inr xs', ex', clk', w')"
    by (auto split: prod.splits sum.splits)
  with Cons.IH [OF rest] execute_logged_cache [OF step] show ?case by simp
qed

section \<open>Properties\<close>

text \<open>
  C23: the order of the two effects.  A read never reaches the log; a command the cache refuses
  changes neither the cache nor the log; and when the append fails the command was a write that the
  cache has already applied.  There is no other error.
\<close>

theorem execute_logged_errors:
  assumes "execute_logged app cmd ex clk w = (r, ex', clk', w')"
  shows "(\<forall>rc. cmd = Read rc \<longrightarrow> exec_repo ex' = exec_repo ex \<and> w' = w) \<and>
    (\<forall>e. r = Inl e \<longrightarrow>
      (\<exists>ce. e = ExecuteCache ce \<and> ex' = ex \<and> w' = w) \<or>
      (\<exists>re wc out. e = ExecuteRepository re \<and> cmd = Write wc \<and>
        cache_execute cmd (exec_cache ex) clk = (Inr out, exec_cache ex', clk')))"
proof -
  obtain a c clk1 where x: "cache_execute cmd (exec_cache ex) clk = (a, c, clk1)"
    by (cases "cache_execute cmd (exec_cache ex) clk")
  have "a = Inl e \<Longrightarrow> c = exec_cache ex" for e
    using cache_execute_effect [of cmd "exec_cache ex" clk] x by auto
  with x assms show ?thesis
    by (cases a; cases cmd)
      (auto simp: execute_logged_def execute_def split: prod.splits sum.splits)
qed

theorem execute_logged_errors_witness:
  "\<exists>out. cache_execute (Write (Delete ''k'')) (cache_new []) (clock_at (Milliseconds 1)) =
     (Inr out, cache_new [], clock_at (Milliseconds 1))"
proof -
  have "execute_logged (\<lambda>wc r w. (Inl (RepositoryGeneric ()), r, w)) (Write (Delete ''k''))
      \<lparr>exec_cache = cache_new [], exec_repo = ()\<rparr> (clock_at (Milliseconds 1)) () =
    (Inl (ExecuteRepository (RepositoryGeneric ())),
     \<lparr>exec_cache = cache_new [], exec_repo = ()\<rparr>, clock_at (Milliseconds 1), ())"
    by (simp add: execute_logged_def execute_def cache_execute_def cache_remove_def drop_key_def
        cache_new_def)
  from execute_logged_errors [OF this] show ?thesis by auto
qed

end
