(* ===== verification/Session.thy ===== *)
theory Session
  imports Resp_Reply Executor
begin

text \<open>
  \<^verbatim>\<open>inbound/session.rs\<close>: one connection.  The socket is the list of what its reads will return
  (a chunk of bytes or an error); when the list is used up the peer has closed, and every further
  read is an end of file.  The reply mpsc and the registry are shared: a session works on the
  mailboxes and the channels it is given and returns them.  The executor behind the
  \<^verbatim>\<open>Execute\<close> port is an argument, with its state a type parameter.
\<close>

section \<open>Errors as text\<close>

definition utf8_error_display :: "utf8_error \<Rightarrow> bytes" where
  "utf8_error_display e =
    (case error_len e of
       Some n \<Rightarrow> ''invalid utf-8 sequence of '' @ show_nat n @ '' bytes from index '' @
         show_nat (valid_up_to e)
     | None \<Rightarrow> ''incomplete utf-8 byte sequence from index '' @ show_nat (valid_up_to e))"

primrec int_error_display :: "int_error_kind \<Rightarrow> bytes" where
  "int_error_display EmptyString = ''cannot parse integer from empty string''"
| "int_error_display InvalidDigit = ''invalid digit found in string''"
| "int_error_display PosOverflow = ''number too large to fit in target type''"

primrec parse_length_error_display :: "parse_length_error \<Rightarrow> bytes" where
  "parse_length_error_display (LengthUtf8 e) = utf8_error_display e"
| "parse_length_error_display (LengthParseInt e) = int_error_display e"

primrec frame_error_display :: "frame_error \<Rightarrow> bytes" where
  "frame_error_display MissingTerminator = ''missing crlf terminator''"
| "frame_error_display UnknownSigil = ''unknown sigil''"
| "frame_error_display (InvalidLength e) = ''failed to parse length: '' @ parse_length_error_display e"
| "frame_error_display Incomplete = ''incomplete frame''"
| "frame_error_display Malformed = ''malformed value''"

primrec command_error_display :: "command_error \<Rightarrow> bytes" where
  "command_error_display UnrecognizedCommand = ''unrecognized command''"
| "command_error_display NotEnoughParts = ''not enough parts''"
| "command_error_display TooManyParts = ''too many parts''"
| "command_error_display Syntax = ''syntax error''"
| "command_error_display (Utf8 e) = utf8_error_display e"
| "command_error_display (ParseInt e) = int_error_display e"

primrec command_from_frame_error_display :: "command_from_frame_error \<Rightarrow> bytes" where
  "command_from_frame_error_display (CommandError e) = command_error_display e"
| "command_from_frame_error_display UnexpectedFrame =
     ''unexpected value; command is made of an array of bulk strings''"
| "command_from_frame_error_display (FrameSystemTime e) =
     ''second time provided was later than self''"

definition err_reply :: "bytes \<Rightarrow> reply" where
  "err_reply message = SimpleError (sanitized (''ERR '' @ message))"

section \<open>The reader\<close>

datatype read_error_kind = TimedOut | WouldBlock | OtherKind

datatype read_event = Chunk bytes | ReadErr read_error_kind

record session_reader =
  sr_socket :: "read_event list"
  sr_buf :: bytes

definition session_reader_new :: "read_event list \<Rightarrow> session_reader" where
  "session_reader_new socket = \<lparr>sr_socket = socket, sr_buf = []\<rparr>"

definition reader_read :: "session_reader \<Rightarrow> (read_error_kind, nat) result \<times> session_reader" where
  "reader_read sr =
    (case sr_socket sr of
       [] \<Rightarrow> (Inr 0, sr)
     | Chunk bs # socket \<Rightarrow>
         (Inr (length bs), sr\<lparr>sr_socket := socket, sr_buf := sr_buf sr @ bs\<rparr>)
     | ReadErr k # socket \<Rightarrow> (Inl k, sr\<lparr>sr_socket := socket\<rparr>))"

definition parse_frame :: "session_reader \<Rightarrow> (frame_error, frame) result \<times> session_reader" where
  "parse_frame sr =
    (case parse_one (sr_buf sr) of
       Inr (frame, bs) \<Rightarrow>
         (let consumed = length (sr_buf sr) - length bs
          in (Inr frame, sr\<lparr>sr_buf := drop consumed (sr_buf sr)\<rparr>))
     | Inl e \<Rightarrow> (Inl e, if e \<noteq> Incomplete then sr\<lparr>sr_buf := []\<rparr> else sr))"

text \<open>What a reader still has to go through: its buffer and its socket.\<close>

definition pending :: "session_reader \<Rightarrow> nat" where
  "pending sr = length (sr_buf sr) +
     sum_list (map (\<lambda>ev. Suc (case ev of Chunk bs \<Rightarrow> length bs | ReadErr _ \<Rightarrow> 0)) (sr_socket sr))"

lemma parse_frame_pending:
  assumes "parse_frame sr = (r, sr')" "r \<noteq> Inl Incomplete"
  shows "pending sr' < pending sr" "sr_socket sr' = sr_socket sr"
proof -
  have "pending sr' < pending sr \<and> sr_socket sr' = sr_socket sr"
  proof (cases "parse_one (sr_buf sr)")
    case (Inl e)
    then have "sr_buf sr \<noteq> []" if "e \<noteq> Incomplete" using that by (auto simp: parse_one.simps)
    with Inl assms show ?thesis by (auto simp: parse_frame_def pending_def)
  next
    case (Inr x)
    obtain f bs where x: "x = (f, bs)" by (cases x)
    with Inr parse_one_shorter have "length bs < length (sr_buf sr)" by simp
    with Inr x assms show ?thesis by (auto simp: parse_frame_def pending_def Let_def)
  qed
  then show "pending sr' < pending sr" "sr_socket sr' = sr_socket sr" by blast+
qed

lemma parse_frame_incomplete: "parse_frame sr = (Inl Incomplete, sr') \<Longrightarrow> sr' = sr"
  by (auto simp: parse_frame_def Let_def split: sum.splits)

lemma reader_read_pending:
  assumes "reader_read sr = (r, sr')" "r \<noteq> Inr 0"
  shows "pending sr' < pending sr"
  using assms by (auto simp: reader_read_def pending_def split: list.splits read_event.splits)

lemma reader_read_le: "reader_read sr = (r, sr') \<Longrightarrow> pending sr' \<le> pending sr"
  by (auto simp: reader_read_def pending_def split: list.splits read_event.splits)

datatype 'x read_half_error =
    RhIo read_error_kind
  | RhExecutor 'x
  | RhSend send_error

function read_frame ::
    "session_reader \<Rightarrow> sender \<Rightarrow> mailboxes \<Rightarrow>
      ('x read_half_error, frame option) result \<times> session_reader \<times> mailboxes" where
  "read_frame sr s boxes =
    (case parse_frame sr of
       (Inr frame, sr) \<Rightarrow> (Inr (Some frame), sr, boxes)
     | (Inl e, sr) \<Rightarrow>
         if e = Incomplete then
           (case reader_read sr of
              (Inl k, sr) \<Rightarrow> (Inl (RhIo k), sr, boxes)
            | (Inr n, sr) \<Rightarrow> if n = 0 then (Inr None, sr, boxes) else read_frame sr s boxes)
         else
           (case sender_send (reply_to_bytes (err_reply (frame_error_display e))) s boxes of
              (Inl se, boxes) \<Rightarrow> (Inl (RhSend se), sr, boxes)
            | (Inr _, boxes) \<Rightarrow> read_frame sr s boxes))"
  by pat_completeness auto
termination read_frame
  by (relation "measure (\<lambda>(sr, s, boxes). pending sr)")
    (auto dest: parse_frame_incomplete [OF sym] reader_read_pending [OF sym]
      parse_frame_pending(1) [OF sym])

declare read_frame.simps [simp del]

lemma read_frame_pending:
  "read_frame sr s boxes = (r, sr', boxes') \<Longrightarrow>
     pending sr' \<le> pending sr \<and> (r \<noteq> Inr None \<longrightarrow> pending sr' < pending sr)"
proof (induction sr s boxes rule: read_frame.induct)
  case (1 sr s boxes)
  obtain a sr1 where p: "parse_frame sr = (a, sr1)" by (cases "parse_frame sr")
  show ?case
  proof (cases a)
    case (Inr f)
    with p 1(3) parse_frame_pending(1) [OF p] show ?thesis by (auto simp: read_frame.simps [of sr])
  next
    case (Inl e)
    show ?thesis
    proof (cases "e = Incomplete")
      case True
      then have sr1: "sr1 = sr" using p Inl parse_frame_incomplete by simp
      obtain b sr2 where rd: "reader_read sr = (b, sr2)" by (cases "reader_read sr")
      show ?thesis
        using 1 p Inl True sr1 rd reader_read_pending [OF rd] reader_read_le [OF rd]
        by (cases b) (fastforce simp: read_frame.simps [of sr] split: if_splits)+
    next
      case False
      have lt: "pending sr1 < pending sr" using parse_frame_pending(1) [OF p] Inl False by simp
      obtain b boxes1 where snd: "sender_send (reply_to_bytes (err_reply (frame_error_display e))) s boxes =
          (b, boxes1)" by (cases "sender_send (reply_to_bytes (err_reply (frame_error_display e))) s boxes")
      show ?thesis
        using 1 p Inl False snd lt by (cases b) (fastforce simp: read_frame.simps [of sr])+
    qed
  qed
qed

function read_half_read_command ::
    "session_reader \<Rightarrow> sender \<Rightarrow> mailboxes \<Rightarrow> clock \<Rightarrow>
      ('x read_half_error, command option) result \<times> session_reader \<times> mailboxes \<times> clock" where
  "read_half_read_command sr s boxes clk =
    (case read_frame sr s boxes of
       (Inl e, sr, boxes) \<Rightarrow> (Inl e, sr, boxes, clk)
     | (Inr None, sr, boxes) \<Rightarrow> (Inr None, sr, boxes, clk)
     | (Inr (Some frame), sr, boxes) \<Rightarrow>
         (case command_try_from frame clk of
            (Inr cmd, clk) \<Rightarrow> (Inr (Some cmd), sr, boxes, clk)
          | (Inl e, clk) \<Rightarrow>
              (case sender_send (reply_to_bytes (err_reply (command_from_frame_error_display e))) s boxes of
                 (Inl se, boxes) \<Rightarrow> (Inl (RhSend se), sr, boxes, clk)
               | (Inr _, boxes) \<Rightarrow> read_half_read_command sr s boxes clk)))"
  by pat_completeness auto
termination read_half_read_command
  by (relation "measure (\<lambda>(sr, s, boxes, clk). pending sr)")
    (auto dest: read_frame_pending [OF sym])

declare read_half_read_command.simps [simp del]

lemma read_command_pending:
  fixes r :: "('x read_half_error, command option) result"
  shows "read_half_read_command sr s boxes clk = (r, sr', boxes', clk') \<Longrightarrow>
     pending sr' \<le> pending sr \<and> (r \<noteq> Inr None \<longrightarrow> pending sr' < pending sr)"
proof (induction "pending sr" arbitrary: sr boxes clk rule: less_induct)
  case less
  obtain a :: "('x read_half_error, frame option) result" and sr1 boxes1 where
      f: "read_frame sr s boxes = (a, sr1, boxes1)" using prod_cases3 by blast
  note lt = read_frame_pending [OF f]
  show ?case
  proof (cases "\<exists>frame. a = Inr (Some frame)")
    case False
    with f lt less.prems show ?thesis
      by (cases a) (auto simp: read_half_read_command.simps [of sr] split: option.splits)
  next
    case True
    then obtain frame where a: "a = Inr (Some frame)" by blast
    obtain b clk1 where c: "command_try_from frame clk = (b, clk1)" by (cases "command_try_from frame clk")
    show ?thesis
    proof (cases b)
      case (Inr cmd)
      with f a c lt less.prems show ?thesis by (simp add: read_half_read_command.simps [of sr])
    next
      case (Inl e)
      obtain d boxes2 where snd: "sender_send (reply_to_bytes
          (err_reply (command_from_frame_error_display e))) s boxes1 = (d, boxes2)"
        by (meson surj_pair)
      show ?thesis
      proof (cases d)
        case (Inl se)
        with \<open>b = Inl e\<close> f a c snd lt less.prems show ?thesis
          by (simp add: read_half_read_command.simps [of sr])
      next
        case (Inr u)
        with \<open>b = Inl e\<close> f a c snd less.prems
        have "read_half_read_command sr1 s boxes2 clk1 = (r, sr', boxes', clk')"
          by (simp add: read_half_read_command.simps [of sr])
        with less.hyps [of sr1 boxes2 clk1] lt a show ?thesis by fastforce
      qed
    qed
  qed
qed

section \<open>The session\<close>

text \<open>
  \<open>rh_subscriptions\<close> is the \<^verbatim>\<open>HashSet\<close> of joined channels.  The mpsc created by
  \<^verbatim>\<open>split\<close> is the mailbox \<open>rh_sender\<close> points to; the write half owns its receiving end.
\<close>

record read_half =
  rh_id :: "32 word"
  rh_reader :: session_reader
  rh_sender :: sender
  rh_subscriptions :: "bytes list"

definition subscriber_from_read_half :: "read_half \<Rightarrow> subscriber" where
  "subscriber_from_read_half rh = subscriber_new (rh_id rh) (rh_sender rh)"

text \<open>\<^verbatim>\<open>Session::new\<close> and \<^verbatim>\<open>Session::split\<close>: a read half on a fresh mailbox at \<open>s\<close>.\<close>

definition session_split ::
    "32 word \<Rightarrow> read_event list \<Rightarrow> sender \<Rightarrow> mailboxes \<Rightarrow> read_half \<times> mailboxes" where
  "session_split i socket s boxes =
    (\<lparr>rh_id = i, rh_reader = session_reader_new socket, rh_sender = s, rh_subscriptions = []\<rparr>,
     boxes(s := \<lparr>mbox_queue = [], mbox_open = True\<rparr>))"

fun subscribe_loop ::
    "bytes list \<Rightarrow> sub_unsub_inner_entry list \<Rightarrow> read_half \<Rightarrow> channels \<Rightarrow>
      (channels_error, sub_unsub_inner_entry list) result \<times> read_half \<times> channels" where
  "subscribe_loop [] entries rh cs = (Inr entries, rh, cs)"
| "subscribe_loop (ch # ids) entries rh cs =
    (case channels_subscribe ch (subscriber_from_read_half rh) cs of
       (Inl e, cs) \<Rightarrow> (Inl e, rh, cs)
     | (Inr _, cs) \<Rightarrow>
         (let subs = List.insert ch (rh_subscriptions rh)
          in subscribe_loop ids (entries @ [sub_unsub_entry_new ch (length subs)])
               (rh\<lparr>rh_subscriptions := subs\<rparr>) cs))"

fun unsubscribe_loop ::
    "bytes list \<Rightarrow> sub_unsub_inner_entry list \<Rightarrow> read_half \<Rightarrow> channels \<Rightarrow>
      (channels_error, sub_unsub_inner_entry list) result \<times> read_half \<times> channels" where
  "unsubscribe_loop [] entries rh cs = (Inr entries, rh, cs)"
| "unsubscribe_loop (ch # ids) entries rh cs =
    (case channels_unsubscribe ch (rh_id rh) cs of
       (Inl e, cs) \<Rightarrow> (Inl e, rh, cs)
     | (Inr _, cs) \<Rightarrow>
         (let subs = removeAll ch (rh_subscriptions rh)
          in unsubscribe_loop ids (entries @ [sub_unsub_entry_new ch (length subs)])
               (rh\<lparr>rh_subscriptions := subs\<rparr>) cs))"

definition message_push :: "bytes \<Rightarrow> bytes \<Rightarrow> reply" where
  "message_push ch message =
     ReplyArray [ReplyBulkString ''message'', ReplyBulkString ch, ReplyBulkString message]"

definition execute_channel_command ::
    "channel_command \<Rightarrow> read_half \<Rightarrow> channels \<Rightarrow> mailboxes \<Rightarrow>
      (channels_error, channel_command_outcome) result \<times> read_half \<times> channels \<times> mailboxes" where
  "execute_channel_command cmd rh cs boxes =
    (case cmd of
       Subscribe ids \<Rightarrow>
         (case subscribe_loop ids [] rh cs of
            (Inl e, rh, cs) \<Rightarrow> (Inl e, rh, cs, boxes)
          | (Inr entries, rh, cs) \<Rightarrow> (Inr (SubscribeOutcome entries), rh, cs, boxes))
     | Unsubscribe ids \<Rightarrow>
         (let targets = (if ids = [] then rh_subscriptions rh else ids)
          in if targets = [] then
               (Inr (UnsubscribeOutcome [sub_unsub_entry_new_null (length (rh_subscriptions rh))]),
                rh, cs, boxes)
             else case unsubscribe_loop targets [] rh cs of
               (Inl e, rh, cs) \<Rightarrow> (Inl e, rh, cs, boxes)
             | (Inr entries, rh, cs) \<Rightarrow> (Inr (UnsubscribeOutcome entries), rh, cs, boxes))
     | Publish ch message \<Rightarrow>
         (case channels_publish (reply_to_bytes (message_push ch message)) ch cs boxes of
            (Inl e, cs, boxes) \<Rightarrow> (Inl e, rh, cs, boxes)
          | (Inr n, cs, boxes) \<Rightarrow> (Inr (PublishOutcome n), rh, cs, boxes)))"

fun unsubscribe_each ::
    "bytes list \<Rightarrow> 32 word \<Rightarrow> channels \<Rightarrow> (channels_error, unit) result list \<times> channels" where
  "unsubscribe_each [] i cs = ([], cs)"
| "unsubscribe_each (ch # chs) i cs =
    (case channels_unsubscribe ch i cs of
       (r, cs) \<Rightarrow> (case unsubscribe_each chs i cs of (rs, cs) \<Rightarrow> (r # rs, cs)))"

definition unsubscribe_from_all ::
    "read_half \<Rightarrow> channels \<Rightarrow> (channels_error, unit) result list \<times> channels" where
  "unsubscribe_from_all rh cs = unsubscribe_each (rh_subscriptions rh) (rh_id rh) cs"

section \<open>The loop\<close>

text \<open>
  The world a session shares with the others, and what is behind the \<^verbatim>\<open>Execute\<close> port.  One
  iteration of the reader loop either goes on or breaks with a result.
\<close>

record 'e world =
  w_exec :: 'e
  w_channels :: channels
  w_boxes :: mailboxes
  w_clock :: clock

type_synonym ('b, 'e) execute_op =
  "cache_command \<Rightarrow> 'e \<Rightarrow> clock \<Rightarrow> ('b execute_error, command_outcome) result \<times> 'e \<times> clock"

datatype 'b flow = Continue | Break "('b execute_error read_half_error, unit) result"

definition send_reply :: "bytes \<Rightarrow> read_half \<Rightarrow> 'e world \<Rightarrow> 'b flow \<times> 'e world" where
  "send_reply bs rh w =
    (case sender_send bs (rh_sender rh) (w_boxes w) of
       (Inr _, boxes) \<Rightarrow> (Continue, w\<lparr>w_boxes := boxes\<rparr>)
     | (Inl se, boxes) \<Rightarrow> (Break (Inl (RhSend se)), w\<lparr>w_boxes := boxes\<rparr>))"

definition run_command ::
    "('b, 'e) execute_op \<Rightarrow> command \<Rightarrow> read_half \<Rightarrow> 'e world \<Rightarrow> 'b flow \<times> read_half \<times> 'e world" where
  "run_command exec cmd rh w =
    (case cmd of
       Cache cc \<Rightarrow>
         (case exec cc (w_exec w) (w_clock w) of
            (Inl e, x, clk) \<Rightarrow> (Break (Inl (RhExecutor e)), rh, w\<lparr>w_exec := x, w_clock := clk\<rparr>)
          | (Inr outcome, x, clk) \<Rightarrow>
              (case send_reply (reply_to_bytes (reply_from_outcome outcome)) rh
                 (w\<lparr>w_exec := x, w_clock := clk\<rparr>) of (fl, w) \<Rightarrow> (fl, rh, w)))
     | Channel cc \<Rightarrow>
         (case execute_channel_command cc rh (w_channels w) (w_boxes w) of
            (Inl e, rh, cs, boxes) \<Rightarrow>
              (Break (Inl (RhExecutor (ExecuteChannels e))), rh, w\<lparr>w_channels := cs, w_boxes := boxes\<rparr>)
          | (Inr outcome, rh, cs, boxes) \<Rightarrow>
              (case send_reply (replies_to_bytes (replies_from_channel_outcome outcome)) rh
                 (w\<lparr>w_channels := cs, w_boxes := boxes\<rparr>) of (fl, w) \<Rightarrow> (fl, rh, w)))
     | Ping message \<Rightarrow>
         (case send_reply (reply_to_bytes (reply_from_outcome (Pong message))) rh w of
            (fl, w) \<Rightarrow> (fl, rh, w)))"

definition repl_step ::
    "('b, 'e) execute_op \<Rightarrow> bool \<Rightarrow> read_half \<Rightarrow> 'e world \<Rightarrow> 'b flow \<times> read_half \<times> 'e world" where
  "repl_step exec shutdown rh w =
    (if shutdown then (Break (Inr ()), rh, w)
     else case read_half_read_command (rh_reader rh) (rh_sender rh) (w_boxes w) (w_clock w) of
       (r, sr, boxes, clk) \<Rightarrow>
         (let rh = rh\<lparr>rh_reader := sr\<rparr>; w = w\<lparr>w_boxes := boxes, w_clock := clk\<rparr>
          in case r of
            Inr (Some cmd) \<Rightarrow> run_command exec cmd rh w
          | Inr None \<Rightarrow> (Break (Inr ()), rh, w)
          | Inl (RhIo k) \<Rightarrow>
              if k = TimedOut \<or> k = WouldBlock then (Continue, rh, w) else (Break (Inl (RhIo k)), rh, w)
          | Inl e \<Rightarrow> (Break (Inl e), rh, w)))"

lemma subscribe_loop_reader: "rh_reader (fst (snd (subscribe_loop ids es rh cs))) = rh_reader rh"
  by (induction ids es rh cs rule: subscribe_loop.induct) (simp_all add: Let_def split: prod.split sum.split)

lemma unsubscribe_loop_reader: "rh_reader (fst (snd (unsubscribe_loop ids es rh cs))) = rh_reader rh"
  by (induction ids es rh cs rule: unsubscribe_loop.induct) (simp_all add: Let_def split: prod.split sum.split)

lemma execute_channel_command_reader:
  "rh_reader (fst (snd (execute_channel_command cmd rh cs boxes))) = rh_reader rh"
  using subscribe_loop_reader [of _ "[]" rh cs] unsubscribe_loop_reader [of _ "[]" rh cs]
  by (auto simp: execute_channel_command_def Let_def split: channel_command.split prod.split sum.split)
    (metis fst_conv snd_conv)+

lemma run_command_reader: "rh_reader (fst (snd (run_command exec cmd rh w))) = rh_reader rh"
  using execute_channel_command_reader [of _ rh "w_channels w" "w_boxes w"]
  by (auto simp: run_command_def split: command.split prod.split sum.split) (metis fst_conv snd_conv)+

lemma run_command_same_reader:
  "run_command exec cmd rh w = (fl, rh', w') \<Longrightarrow> rh_reader rh' = rh_reader rh"
  using run_command_reader [of exec cmd rh w] by simp

lemma repl_step_pending:
  fixes exec :: "('b, 'e) execute_op"
  assumes "repl_step exec shutdown rh w = (Continue, rh', w')"
  shows "pending (rh_reader rh') < pending (rh_reader rh)"
proof -
  obtain r :: "('b execute_error read_half_error, command option) result" and sr boxes clk where rc:
      "read_half_read_command (rh_reader rh) (rh_sender rh) (w_boxes w) (w_clock w) = (r, sr, boxes, clk)"
    using prod_cases4 by blast
  have lt: "r \<noteq> Inr None \<Longrightarrow> pending sr < pending (rh_reader rh)"
    using read_command_pending [OF rc] by blast
  have "r \<noteq> Inr None \<and> rh_reader rh' = sr"
    using assms rc
    by (auto simp: repl_step_def Let_def dest!: run_command_same_reader
        split: if_splits sum.splits option.splits read_half_error.splits)
  with lt show ?thesis by simp
qed

text \<open>The reader loop; \<open>flags\<close> are the values it finds in the shutdown flag.\<close>

function repl_loop ::
    "('b, 'e) execute_op \<Rightarrow> bool stream \<Rightarrow> read_half \<Rightarrow> 'e world \<Rightarrow>
      ('b execute_error read_half_error, unit) result \<times> read_half \<times> 'e world" where
  "repl_loop exec flags rh w =
    (case repl_step exec (shd flags) rh w of
       (Break r, rh, w) \<Rightarrow> (r, rh, w)
     | (Continue, rh, w) \<Rightarrow> repl_loop exec (stl flags) rh w)"
  by pat_completeness auto
termination repl_loop
  by (relation "measure (\<lambda>(exec, flags, rh, w). pending (rh_reader rh))")
    (auto dest: repl_step_pending [OF sym])

declare repl_loop.simps [simp del]

text \<open>\<^verbatim>\<open>Session::repl\<close> never produces the second variant.\<close>

datatype recv_error = RecvError

datatype write_half_error = Recv recv_error

datatype 'b session_error =
    ReadHalfError "'b execute_error read_half_error"
  | WriteHalfError write_half_error

text \<open>
  \<^verbatim>\<open>Session::repl\<close>: the loop, the departure from every channel, and the end of the sender once the
  read half is dropped; what is queued by then is left to the writer.
\<close>

definition session_repl ::
    "('b, 'e) execute_op \<Rightarrow> bool stream \<Rightarrow> read_half \<Rightarrow> 'e world \<Rightarrow>
      ('b session_error, unit) result \<times> 'e world" where
  "session_repl exec flags rh w =
    (case repl_loop exec flags rh w of
       (r, rh, w) \<Rightarrow>
         (map_err ReadHalfError r,
          w\<lparr>w_channels := snd (unsubscribe_from_all rh (w_channels w)),
            w_boxes := (w_boxes w)(rh_sender rh := (w_boxes w (rh_sender rh))\<lparr>mbox_open := False\<rparr>)\<rparr>))"

section \<open>Framing does not depend on the chunks\<close>

primrec event_bytes :: "read_event \<Rightarrow> bytes" where
  "event_bytes (Chunk bs) = bs"
| "event_bytes (ReadErr k) = []"

text \<open>The bytes a reader has buffered or will still receive; no chunk of them is an end of file.\<close>

definition stream_bytes :: "session_reader \<Rightarrow> bytes" where
  "stream_bytes sr = sr_buf sr @ concat (map event_bytes (sr_socket sr))"

definition proper_chunks :: "session_reader \<Rightarrow> bool" where
  "proper_chunks sr \<longleftrightarrow> Chunk [] \<notin> set (sr_socket sr)"

lemma parse_frame_buffered:
  assumes "frame_fits f" "sr_buf sr = frame_write_to f @ rest"
  shows "parse_frame sr = (Inr f, sr\<lparr>sr_buf := rest\<rparr>)"
  using assms by (simp add: parse_frame_def resp.dec_enc)

lemma read_frame_next:
  assumes "frame_fits f"
  shows "stream_bytes sr = frame_write_to f @ rest \<Longrightarrow> proper_chunks sr \<Longrightarrow>
    \<exists>(r :: ('x read_half_error, frame option) result) sr'.
      read_frame sr s boxes = (r, sr', boxes) \<and> proper_chunks sr' \<and>
      (r = Inr (Some f) \<and> stream_bytes sr' = rest \<or>
       (\<exists>k. r = Inl (RhIo k) \<and> stream_bytes sr' = stream_bytes sr \<and> ReadErr k \<in> set (sr_socket sr)))"
proof (induction "length (sr_socket sr)" arbitrary: sr)
  case 0
  then have "sr_buf sr = frame_write_to f @ rest" by (simp add: stream_bytes_def)
  from parse_frame_buffered [OF assms this] 0 show ?case
    by (intro exI [of _ "Inr (Some f)"] exI [of _ "sr\<lparr>sr_buf := rest\<rparr>"])
      (simp add: read_frame.simps [of sr] proper_chunks_def stream_bytes_def)
next
  case (Suc n)
  then obtain ev socket where socket: "sr_socket sr = ev # socket" by (cases "sr_socket sr") auto
  show ?case
  proof (cases "prefix (frame_write_to f) (sr_buf sr)")
    case True
    then obtain r where r: "sr_buf sr = frame_write_to f @ r" by (auto simp: prefix_def)
    from parse_frame_buffered [OF assms r] r Suc.prems show ?thesis
      by (intro exI [of _ "Inr (Some f)"] exI [of _ "sr\<lparr>sr_buf := r\<rparr>"])
        (simp add: read_frame.simps [of sr] proper_chunks_def stream_bytes_def)
  next
    case False
    have "prefix (sr_buf sr) (frame_write_to f @ rest)"
      using Suc.prems(1) by (metis prefixI stream_bytes_def)
    then have "prefix (sr_buf sr) (frame_write_to f)"
      using False by (auto simp: prefix_append)
    then have "strict_prefix (sr_buf sr) (frame_write_to f)"
      using False by (auto simp: strict_prefix_def)
    then have "parse_one (sr_buf sr) = Inl Incomplete" by (rule resp.torn_incomplete [OF assms])
    then have inc: "parse_frame sr = (Inl Incomplete, sr)" by (simp add: parse_frame_def)
    show ?thesis
    proof (cases ev)
      case (ReadErr k)
      with inc socket Suc.prems show ?thesis
        by (intro exI [of _ "Inl (RhIo k)"] exI [of _ "sr\<lparr>sr_socket := socket\<rparr>"])
          (simp add: read_frame.simps [of sr] reader_read_def proper_chunks_def stream_bytes_def)
    next
      case (Chunk bs)
      let ?sr = "sr\<lparr>sr_socket := socket, sr_buf := sr_buf sr @ bs\<rparr>"
      have "bs \<noteq> []" using Suc.prems(2) socket Chunk by (auto simp: proper_chunks_def)
      then have step: "read_frame sr s boxes =
          (read_frame ?sr s boxes :: ('x read_half_error, frame option) result \<times> _)"
        using inc socket Chunk by (simp add: read_frame.simps [of sr] reader_read_def)
      have same: "stream_bytes ?sr = stream_bytes sr" "proper_chunks ?sr"
        using Suc.prems(2) socket Chunk by (simp_all add: stream_bytes_def proper_chunks_def)
      have "n = length (sr_socket ?sr)" using Suc.hyps(2) socket by simp
      from Suc.hyps(1) [OF this _ same(2)] Suc.prems(1) same(1) show ?thesis
        unfolding step by (simp add: socket) blast
    qed
  qed
qed

lemma read_command_next:
  assumes "frame_fits f" "stream_bytes sr = frame_write_to f @ rest" "proper_chunks sr"
    and "\<forall>k. ReadErr k \<notin> set (sr_socket sr)" "command_try_from f clk = (Inr cmd, clk1)"
  shows "\<exists>sr'. (read_half_read_command sr s boxes clk :: ('x read_half_error, command option) result \<times> _) =
      (Inr (Some cmd), sr', boxes, clk1) \<and> stream_bytes sr' = rest"
proof -
  obtain r :: "('x read_half_error, frame option) result" and sr' where
      next_frame: "read_frame sr s boxes = (r, sr', boxes)"
    and r: "r = Inr (Some f) \<and> stream_bytes sr' = rest \<or>
      (\<exists>k. r = Inl (RhIo k) \<and> stream_bytes sr' = stream_bytes sr \<and> ReadErr k \<in> set (sr_socket sr))"
    using read_frame_next [OF assms(1-3), where ?'x = 'x] by blast
  from r assms(4) have "r = Inr (Some f)" "stream_bytes sr' = rest" by auto
  with next_frame assms(5) show ?thesis by (simp add: read_half_read_command.simps [of sr])
qed

section \<open>A session and the registry\<close>

lemma set_fold_insert: "set (fold List.insert ids subs) = set ids \<union> set subs"
  by (induction ids arbitrary: subs) auto

lemma distinct_fold_insert: "distinct subs \<Longrightarrow> distinct (fold List.insert ids subs)"
  by (induction ids arbitrary: subs) (auto simp: distinct_insert)

lemma set_fold_removeAll: "set (fold removeAll ids subs) = set subs - set ids"
  by (induction ids arbitrary: subs) auto

lemma distinct_fold_removeAll: "distinct subs \<Longrightarrow> distinct (fold removeAll ids subs)"
  by (induction ids arbitrary: subs) (auto simp: distinct_removeAll)

text \<open>The acknowledgements of a multi-channel command: one per channel, with the running count.\<close>

definition running_acks :: "(bytes list \<Rightarrow> nat) \<Rightarrow> bytes list \<Rightarrow> sub_unsub_inner_entry list" where
  "running_acks count ids =
     map (\<lambda>i. sub_unsub_entry_new (ids ! i) (count (take (Suc i) ids))) [0..<length ids]"

lemma running_acks_Cons:
  "running_acks count (ch # ids) =
     sub_unsub_entry_new ch (count [ch]) # running_acks (\<lambda>done. count (ch # done)) ids"
  by (simp add: running_acks_def upt_conv_Cons map_Suc_upt [symmetric] del: upt_Suc)

lemma running_acks_cong:
  "(\<And>i. i < length ids \<Longrightarrow> f (take (Suc i) ids) = g (take (Suc i) ids)) \<Longrightarrow>
     running_acks f ids = running_acks g ids"
  by (simp add: running_acks_def)

lemma subscribe_loop_healthy:
  "\<not> channels_poisoned cs \<Longrightarrow> subscribe_loop ids es rh cs =
    (Inr (es @ running_acks (\<lambda>joined. length (fold List.insert joined (rh_subscriptions rh))) ids),
     rh\<lparr>rh_subscriptions := fold List.insert ids (rh_subscriptions rh)\<rparr>,
     cs\<lparr>channels_map := fold (\<lambda>ch. registry_insert ch (rh_id rh) (rh_sender rh)) ids (channels_map cs)\<rparr>)"
proof (induction ids arbitrary: es rh cs)
  case Nil
  show ?case by (simp add: running_acks_def)
next
  case (Cons ch ids)
  then show ?case
    by (simp add: channels_subscribe_def subscriber_from_read_half_def subscriber_new_def
        running_acks_Cons Let_def)
qed

lemma unsubscribe_loop_healthy:
  "\<not> channels_poisoned cs \<Longrightarrow> unsubscribe_loop ids es rh cs =
    (Inr (es @ running_acks (\<lambda>left. length (fold removeAll left (rh_subscriptions rh))) ids),
     rh\<lparr>rh_subscriptions := fold removeAll ids (rh_subscriptions rh)\<rparr>,
     cs\<lparr>channels_map := fold (\<lambda>ch. registry_remove ch (rh_id rh)) ids (channels_map cs)\<rparr>)"
proof (induction ids arbitrary: es rh cs)
  case Nil
  show ?case by (simp add: running_acks_def)
next
  case (Cons ch ids)
  then show ?case by (simp add: channels_unsubscribe_def running_acks_Cons Let_def)
qed

lemma unsubscribe_each_healthy:
  "\<not> channels_poisoned cs \<Longrightarrow> unsubscribe_each ids i cs =
    (map (\<lambda>_. Inr ()) ids,
     cs\<lparr>channels_map := fold (\<lambda>ch. registry_remove ch i) ids (channels_map cs)\<rparr>)"
  by (induction ids arbitrary: cs) (simp_all add: channels_unsubscribe_def)

text \<open>
  The invariant of a session: its set has no repetition, and the registry knows it, under its own
  sender, in no channel that is not in the set.
\<close>

definition session_consistent :: "read_half \<Rightarrow> channels \<Rightarrow> bool" where
  "session_consistent rh cs \<longleftrightarrow>
     \<not> channels_poisoned cs \<and> registry_invar (channels_map cs) \<and> distinct (rh_subscriptions rh) \<and>
     (\<forall>ch s. members_of (channels_map cs) ch (rh_id rh) = Some s \<longrightarrow>
       ch \<in> set (rh_subscriptions rh) \<and> s = rh_sender rh)"

lemma registry_invar_folds:
  "registry_invar m \<Longrightarrow> registry_invar (fold (\<lambda>ch. registry_insert ch i s) ids m)"
  "registry_invar m \<Longrightarrow> registry_invar (fold (\<lambda>ch. registry_remove ch i) ids m)"
  by (induction ids arbitrary: m) (simp_all add: registry_invar_ops)

lemma retain_sent_kept: "fst (retain_sent message subs boxes n) = filter (reachable boxes) subs"
proof (induction subs arbitrary: boxes n)
  case Nil
  show ?case by simp
next
  case (Cons x subs)
  obtain i s where x: "x = (i, s)" by (cases x)
  show ?case
  proof (cases "mbox_open (boxes s)")
    case True
    let ?b = "boxes(s := (boxes s)\<lparr>mbox_queue := mbox_queue (boxes s) @ [message]\<rparr>)"
    have same: "reachable ?b = reachable boxes" using True by (auto simp: fun_eq_iff)
    have "fst (retain_sent message (x # subs) boxes n) =
        x # fst (retain_sent message subs ?b (saturating_add n 1))"
      using True x by (simp add: sender_send_def split: prod.split)
    also have "\<dots> = x # filter (reachable boxes) subs" unfolding Cons.IH same ..
    finally show ?thesis using True x by simp
  next
    case False
    with Cons.IH x show ?thesis by (simp add: sender_send_def)
  qed
qed

lemma publish_members:
  assumes "registry_invar (channels_map cs)" "\<not> channels_poisoned cs"
    and "channels_publish message ch cs boxes = (r, cs', boxes')"
  shows "registry_invar (channels_map cs')" "\<not> channels_poisoned cs'"
    and "members_of (channels_map cs') c i = Some s \<Longrightarrow> members_of (channels_map cs) c i = Some s"
proof -
  consider (none) "cs' = cs" | (some) subs where "map_of (channels_map cs) ch = Some subs"
      "cs' = cs\<lparr>channels_map := AList.update ch (filter (reachable boxes) subs) (channels_map cs)\<rparr>"
  proof (cases "map_of (channels_map cs) ch")
    case None
    with assms none show ?thesis by (auto simp: channels_publish_def)
  next
    case (Some subs)
    with assms some retain_sent_kept [of message subs boxes 0] show ?thesis
      by (auto simp: channels_publish_def split: prod.splits)
  qed
  then have "registry_invar (channels_map cs') \<and> \<not> channels_poisoned cs' \<and>
    (members_of (channels_map cs') c i = Some s \<longrightarrow> members_of (channels_map cs) c i = Some s)"
  proof cases
    case none
    with assms show ?thesis by simp
  next
    case (some subs)
    have keys: "distinct_keys subs" using registry_invar_lookup [OF assms(1) some(1)] .
    then have kept: "distinct_keys (filter (reachable boxes) subs)" by (rule distinct_map_filter)
    have "map_of (filter (reachable boxes) subs) i = Some s \<Longrightarrow> map_of subs i = Some s"
      using keys kept by (simp add: map_of_eq_Some_iff)
    with some assms(1, 2) kept show ?thesis
      by (auto simp: members_of_def alist_laws registry_invar_update)
  qed
  then show "registry_invar (channels_map cs')" "\<not> channels_poisoned cs'"
    "members_of (channels_map cs') c i = Some s \<Longrightarrow> members_of (channels_map cs) c i = Some s"
    by blast+
qed

lemma execute_channel_command_consistent:
  assumes "session_consistent rh cs" "execute_channel_command cmd rh cs boxes = (r, rh', cs', boxes')"
  shows "session_consistent rh' cs' \<and> rh_id rh' = rh_id rh \<and> rh_sender rh' = rh_sender rh"
proof -
  have cs: "\<not> channels_poisoned cs" "registry_invar (channels_map cs)" "distinct (rh_subscriptions rh)"
    using assms(1) by (simp_all add: session_consistent_def)
  show ?thesis
  proof (cases cmd)
    case (Subscribe ids)
    with assms cs show ?thesis
      by (auto simp: execute_channel_command_def subscribe_loop_healthy session_consistent_def
          registry_invar_folds distinct_fold_insert set_fold_insert registry.members_join_all
          split: if_splits)
  next
    case (Unsubscribe ids)
    with assms cs show ?thesis
      by (auto simp: execute_channel_command_def unsubscribe_loop_healthy session_consistent_def Let_def
          registry_invar_folds distinct_fold_removeAll set_fold_removeAll registry.members_leave_all
          split: if_splits)
  next
    case (Publish ch message)
    obtain r1 cs1 boxes1 where
        pub: "channels_publish (reply_to_bytes (message_push ch message)) ch cs boxes = (r1, cs1, boxes1)"
      using prod_cases3 by blast
    with assms(2) Publish have "rh' = rh" "cs' = cs1"
      by (auto simp: execute_channel_command_def split: sum.splits)
    with publish_members [OF cs(2, 1) pub] assms(1) show ?thesis
      by (simp add: session_consistent_def) blast
  qed
qed

section \<open>Invariants of the loop\<close>

lemma repl_loop_preserves:
  assumes step: "\<And>flag rh w fl rh' w'. P rh w \<Longrightarrow> repl_step exec flag rh w = (fl, rh', w') \<Longrightarrow> P rh' w'"
  shows "P rh w \<Longrightarrow> repl_loop exec flags rh w = (r, rh', w') \<Longrightarrow> P rh' w'"
proof (induction "pending (rh_reader rh)" arbitrary: flags rh w rule: less_induct)
  case less
  obtain fl rh1 w1 where one: "repl_step exec (shd flags) rh w = (fl, rh1, w1)"
    using prod_cases3 by blast
  have P: "P rh1 w1" by (rule step [OF less.prems(1) one])
  show ?case
  proof (cases fl)
    case Continue
    with one less.prems(2) have "repl_loop exec (stl flags) rh1 w1 = (r, rh', w')"
      by (simp add: repl_loop.simps [of exec flags])
    with less.hyps [OF _ P] repl_step_pending one Continue show ?thesis by blast
  next
    case (Break x)
    with one less.prems(2) P show ?thesis by (simp add: repl_loop.simps [of exec flags])
  qed
qed

lemma run_command_consistent:
  assumes "session_consistent rh (w_channels w)" "run_command exec cmd rh w = (fl, rh', w')"
  shows "session_consistent rh' (w_channels w') \<and> rh_id rh' = rh_id rh \<and> rh_sender rh' = rh_sender rh"
proof (cases cmd)
  case (Channel cc)
  obtain r rh1 cs1 boxes1 where
      x: "execute_channel_command cc rh (w_channels w) (w_boxes w) = (r, rh1, cs1, boxes1)"
    using prod_cases4 by blast
  from execute_channel_command_consistent [OF assms(1) x] assms(2) Channel x show ?thesis
    by (auto simp: run_command_def send_reply_def split: sum.splits prod.splits)
next
  case (Cache cc)
  with assms show ?thesis
    by (auto simp: run_command_def send_reply_def split: sum.splits prod.splits)
next
  case (Ping m)
  with assms show ?thesis
    by (auto simp: run_command_def send_reply_def split: sum.splits prod.splits)
qed

lemma session_consistent_reader [simp]:
  "session_consistent (rh\<lparr>rh_reader := sr\<rparr>) cs \<longleftrightarrow> session_consistent rh cs"
  by (simp add: session_consistent_def)

lemma repl_step_consistent:
  assumes "session_consistent rh (w_channels w)" "repl_step exec flag rh w = (fl, rh', w')"
  shows "session_consistent rh' (w_channels w') \<and> rh_id rh' = rh_id rh \<and> rh_sender rh' = rh_sender rh"
  using assms
  by (auto simp: repl_step_def Let_def split: if_splits prod.splits sum.splits option.splits
      read_half_error.splits dest!: run_command_consistent [rotated])

section \<open>The port to the executor\<close>

text \<open>
  What a session relies on and passes on: a property of the state behind the \<^verbatim>\<open>Execute\<close> port
  that every command keeps is kept by whole sessions.
\<close>

locale execute_port =
  fixes exec :: "('b, 'e) execute_op"
    and inv :: "'e \<Rightarrow> bool"
  assumes exec_inv: "inv x \<Longrightarrow> exec cmd x clk = (r, x', clk') \<Longrightarrow> inv x'"
begin

lemma run_command_inv:
  assumes "inv (w_exec w)" "run_command exec cmd rh w = (fl, rh', w')"
  shows "inv (w_exec w')"
  using assms exec_inv
  by (auto simp: run_command_def send_reply_def split: command.splits sum.splits prod.splits)

lemma repl_step_inv:
  assumes "inv (w_exec w)" "repl_step exec flag rh w = (fl, rh', w')"
  shows "inv (w_exec w')"
  using assms
  by (auto simp: repl_step_def Let_def split: if_splits prod.splits sum.splits option.splits
      read_half_error.splits dest!: run_command_inv [rotated])

lemma session_repl_inv:
  assumes "inv (w_exec w)" "session_repl exec flags rh w = (r, w')"
  shows "inv (w_exec w')"
proof -
  obtain r1 rh1 w1 where loop: "repl_loop exec flags rh w = (r1, rh1, w1)" using prod_cases3 by blast
  have "inv (w_exec w1)"
    by (rule repl_loop_preserves [where P = "\<lambda>rh w. inv (w_exec w)", OF repl_step_inv assms(1) loop])
  with assms(2) loop show ?thesis by (auto simp: session_repl_def)
qed

end

section \<open>Properties\<close>

text \<open>
  C18: how the bytes of a frame are cut into reads does not matter.  With a frame's bytes next in the
  stream, buffered or still to come, the reader returns that frame and leaves exactly the bytes after
  it; a read error on the way, such as a timeout, is reported without losing a byte.
\<close>

theorem framing_ignores_chunks:
  assumes "frame_fits f" "stream_bytes sr = frame_write_to f @ rest" "proper_chunks sr"
  shows "\<exists>(r :: ('x read_half_error, frame option) result) sr'.
      read_frame sr s boxes = (r, sr', boxes) \<and> proper_chunks sr' \<and>
      (r = Inr (Some f) \<and> stream_bytes sr' = rest \<or>
       (\<exists>k. r = Inl (RhIo k) \<and> stream_bytes sr' = stream_bytes sr \<and> ReadErr k \<in> set (sr_socket sr)))"
  by (rule read_frame_next [OF assms])

theorem framing_ignores_chunks_witness:
  "\<exists>(r :: (unit read_half_error, frame option) result) sr'.
      read_frame \<lparr>sr_socket = [Chunk (show_nat (length ''hi'') @ CRLF), Chunk ''hi'', Chunk (CRLF @ ''x'')],
        sr_buf = ''$''\<rparr> 0 (\<lambda>_. \<lparr>mbox_queue = [], mbox_open = True\<rparr>) =
        (r, sr', \<lambda>_. \<lparr>mbox_queue = [], mbox_open = True\<rparr>) \<and> proper_chunks sr' \<and>
      (r = Inr (Some (BulkString ''hi'')) \<and> stream_bytes sr' = ''x'' \<or>
       (\<exists>k. r = Inl (RhIo k) \<and> stream_bytes sr' = stream_bytes
         \<lparr>sr_socket = [Chunk (show_nat (length ''hi'') @ CRLF), Chunk ''hi'', Chunk (CRLF @ ''x'')], sr_buf = ''$''\<rparr> \<and>
         ReadErr k \<in> set (sr_socket \<lparr>sr_socket =
           [Chunk (show_nat (length ''hi'') @ CRLF), Chunk ''hi'', Chunk (CRLF @ ''x'')], sr_buf = ''$''\<rparr>)))"
  by (rule framing_ignores_chunks)
    (simp_all add: stream_bytes_def proper_chunks_def)

text \<open>
  C27: a \<^verbatim>\<open>SUBSCRIBE\<close> of several channels acknowledges them one by one, in the order given, each
  with the number of distinct channels joined so far, and afterwards the session is registered, under
  its own sender, in exactly the channels it was in and the ones it named.
\<close>

theorem subscribe_running_counts:
  assumes "session_consistent rh cs"
  shows "\<exists>rh' cs'. execute_channel_command (Subscribe ids) rh cs boxes =
      (Inr (SubscribeOutcome (running_acks
        (\<lambda>joined. card (set joined \<union> set (rh_subscriptions rh))) ids)), rh', cs', boxes) \<and>
    set (rh_subscriptions rh') = set ids \<union> set (rh_subscriptions rh) \<and>
    members_of (channels_map cs') = (\<lambda>ch j. if ch \<in> set ids \<and> j = rh_id rh
      then Some (rh_sender rh) else members_of (channels_map cs) ch j)"
proof -
  have "length (fold List.insert joined (rh_subscriptions rh)) =
      card (set joined \<union> set (rh_subscriptions rh))" for joined
    using assms distinct_fold_insert [of "rh_subscriptions rh" joined]
    by (simp add: session_consistent_def distinct_card [symmetric] set_fold_insert)
  then show ?thesis
    using assms
    by (simp add: execute_channel_command_def session_consistent_def subscribe_loop_healthy
        set_fold_insert registry.members_join_all fun_eq_iff)
qed

theorem subscribe_running_counts_witness:
  "\<exists>rh' cs'. execute_channel_command (Subscribe [''a'', ''b'', ''a''])
        \<lparr>rh_id = 1, rh_reader = session_reader_new [], rh_sender = 7, rh_subscriptions = []\<rparr>
        channels_new (\<lambda>_. \<lparr>mbox_queue = [], mbox_open = True\<rparr>) =
      (Inr (SubscribeOutcome (running_acks
        (\<lambda>joined. card (set joined \<union> set (rh_subscriptions
          \<lparr>rh_id = 1, rh_reader = session_reader_new [], rh_sender = 7, rh_subscriptions = []\<rparr>)))
        [''a'', ''b'', ''a''])), rh', cs', (\<lambda>_. \<lparr>mbox_queue = [], mbox_open = True\<rparr>)) \<and>
    set (rh_subscriptions rh') = set [''a'', ''b'', ''a''] \<union> set (rh_subscriptions
      \<lparr>rh_id = 1, rh_reader = session_reader_new [], rh_sender = 7, rh_subscriptions = []\<rparr>) \<and>
    members_of (channels_map cs') = (\<lambda>ch j. if ch \<in> set [''a'', ''b'', ''a''] \<and>
        j = rh_id \<lparr>rh_id = 1, rh_reader = session_reader_new [], rh_sender = 7, rh_subscriptions = []\<rparr>
      then Some (rh_sender \<lparr>rh_id = 1, rh_reader = session_reader_new [], rh_sender = 7,
        rh_subscriptions = []\<rparr>)
      else members_of (channels_map channels_new) ch j)"
  by (rule subscribe_running_counts)
    (simp add: session_consistent_def channels_new_def registry_invar_def members_of_def)

text \<open>
  C20: a session leaves no trace.  However its loop ends, by shutdown, end of file or an error, the
  registry afterwards knows it in no channel, so no dead sender lingers.
\<close>

theorem session_leaves_registry:
  assumes "session_consistent rh (w_channels w)" "session_repl exec flags rh w = (r, w')"
  shows "members_of (channels_map (w_channels w')) ch (rh_id rh) = None"
proof -
  obtain r1 rh1 w1 where loop: "repl_loop exec flags rh w = (r1, rh1, w1)" using prod_cases3 by blast
  have "session_consistent rh1 (w_channels w1) \<and> rh_id rh1 = rh_id rh"
    by (rule repl_loop_preserves [where P = "\<lambda>r w. session_consistent r (w_channels w) \<and> rh_id r = rh_id rh",
          OF _ _ loop]) (use assms(1) repl_step_consistent in fastforce)+
  then have "members_of (channels_map (snd (unsubscribe_from_all rh1 (w_channels w1)))) ch (rh_id rh) = None"
    by (auto simp: unsubscribe_from_all_def session_consistent_def unsubscribe_each_healthy
        registry.members_leave_all) (metis not_None_eq)
  with assms(2) loop show ?thesis by (auto simp: session_repl_def)
qed

theorem session_leaves_registry_witness:
  "\<exists>r w'. session_repl (execute :: (unit, unit executor) execute_op) (sconst False)
      \<lparr>rh_id = 1, rh_reader = session_reader_new [Chunk (frame_write_to
         (Array [BulkString ''SUBSCRIBE'', BulkString ''a'']))], rh_sender = 7, rh_subscriptions = []\<rparr>
      \<lparr>w_exec = executor_new (cache_new []) (), w_channels = channels_new,
       w_boxes = (\<lambda>_. \<lparr>mbox_queue = [], mbox_open = True\<rparr>), w_clock = clock_at (Milliseconds 1)\<rparr> =
     (r, w') \<and> members_of (channels_map (w_channels w')) ''a'' 1 = None"
proof -
  let ?rh = "\<lparr>rh_id = 1, rh_reader = session_reader_new [Chunk (frame_write_to
    (Array [BulkString ''SUBSCRIBE'', BulkString ''a'']))], rh_sender = 7, rh_subscriptions = []\<rparr>"
  let ?w = "\<lparr>w_exec = executor_new (cache_new []) (), w_channels = channels_new,
    w_boxes = (\<lambda>_. \<lparr>mbox_queue = [], mbox_open = True\<rparr>), w_clock = clock_at (Milliseconds 1)\<rparr>"
  have ok: "session_consistent ?rh (w_channels ?w)"
    by (simp add: session_consistent_def channels_new_def registry_invar_def members_of_def)
  obtain r w' where run: "session_repl (execute :: (unit, unit executor) execute_op) (sconst False) ?rh ?w =
      (r, w')" by (meson surj_pair)
  from session_leaves_registry [OF ok run, of "''a''"] run show ?thesis by auto
qed

end
