(* ===== verification/Persister.thy ===== *)
theory Persister
  imports Resp_Command Executor
begin

text \<open>
  \<^verbatim>\<open>outbound/persister\<close>: the log and the snapshot.  Every call into the operating system takes
  its outcome from a stream, so each of them can fail on its own; a failing write says how many
  bytes reached the file first.  The log's writer is std's \<^verbatim>\<open>BufWriter\<close> over an append-mode
  file, with its 8 KiB buffer.  The files outlive the process: \<open>crash\<close> keeps them and forgets the
  buffer.  The snapshot's serialiser (\<^verbatim>\<open>wincode\<close>) is a pair of arguments.
\<close>

section \<open>Files\<close>

datatype io_error = IoError

datatype io_outcome = IoOk | IoFail nat

type_synonym io = "io_outcome stream"

definition io_call :: "io \<Rightarrow> (io_error, unit) result \<times> io" where
  "io_call io = (case shd io of IoOk \<Rightarrow> Inr () | IoFail _ \<Rightarrow> Inl IoError, stl io)"

text \<open>Writing all of \<open>bs\<close> at the end of a file: the result and the number of bytes that made it.\<close>

definition os_write_all :: "bytes \<Rightarrow> io \<Rightarrow> (io_error, unit) result \<times> nat \<times> io" where
  "os_write_all bs io =
    (if bs = [] then (Inr (), 0, io)
     else case shd io of
       IoOk \<Rightarrow> (Inr (), length bs, stl io)
     | IoFail n \<Rightarrow> (Inl IoError, min n (length bs - 1), stl io))"

record buf_writer =
  bw_buf :: bytes
  bw_file :: bytes

definition buf_capacity :: nat where
  "buf_capacity = 8192"

definition bw_flush :: "buf_writer \<Rightarrow> io \<Rightarrow> (io_error, unit) result \<times> buf_writer \<times> io" where
  "bw_flush w io =
    (case os_write_all (bw_buf w) io of
       (r, n, io) \<Rightarrow> (r, \<lparr>bw_buf = drop n (bw_buf w), bw_file = bw_file w @ take n (bw_buf w)\<rparr>, io))"

definition bw_store :: "bytes \<Rightarrow> buf_writer \<Rightarrow> io \<Rightarrow> (io_error, unit) result \<times> buf_writer \<times> io" where
  "bw_store bs w io =
    (if length bs < buf_capacity then (Inr (), w\<lparr>bw_buf := bw_buf w @ bs\<rparr>, io)
     else case os_write_all bs io of
       (r, n, io) \<Rightarrow> (r, w\<lparr>bw_file := bw_file w @ take n bs\<rparr>, io))"

definition bw_write_all :: "bytes \<Rightarrow> buf_writer \<Rightarrow> io \<Rightarrow> (io_error, unit) result \<times> buf_writer \<times> io" where
  "bw_write_all bs w io =
    (let spare = buf_capacity - length (bw_buf w)
     in if length bs < spare then (Inr (), w\<lparr>bw_buf := bw_buf w @ bs\<rparr>, io)
        else if length bs > spare then
          (case bw_flush w io of
             (Inl e, w, io) \<Rightarrow> (Inl e, w, io)
           | (Inr _, w, io) \<Rightarrow> bw_store bs w io)
        else bw_store bs w io)"

text \<open>The \<^verbatim>\<open>write_all\<close> calls \<^verbatim>\<open>Frame::write_to\<close> makes, in order, up to the first failure.\<close>

fun frame_pieces :: "frame \<Rightarrow> bytes list" where
  "frame_pieces (Array frames) =
     [''*'', show_nat (length frames), CRLF] @ concat (map frame_pieces frames)"
| "frame_pieces (BulkString str) = [''$'', show_nat (length str), CRLF, str, CRLF]"

fun write_pieces :: "bytes list \<Rightarrow> buf_writer \<Rightarrow> io \<Rightarrow> (io_error, unit) result \<times> buf_writer \<times> io" where
  "write_pieces [] w io = (Inr (), w, io)"
| "write_pieces (bs # pieces) w io =
    (case bw_write_all bs w io of
       (Inl e, w, io) \<Rightarrow> (Inl e, w, io)
     | (Inr _, w, io) \<Rightarrow> write_pieces pieces w io)"

section \<open>The log\<close>

datatype aof_error =
    AofIo io_error
  | AofMutexPoisoned
  | AofCache cache_error
  | AofCommand command_from_frame_error
  | AofFrame frame_error

record persister_inner =
  writer :: buf_writer
  writer_poisoned :: bool

definition aof_append ::
    "write_command \<Rightarrow> persister_inner \<Rightarrow> io \<Rightarrow> (aof_error, unit) result \<times> persister_inner \<times> io" where
  "aof_append cmd p io =
    (if writer_poisoned p then (Inl AofMutexPoisoned, p, io)
     else case write_pieces (frame_pieces (frame_from_write_command cmd)) (writer p) io of
       (Inl e, w, io) \<Rightarrow> (Inl (AofIo e), p\<lparr>writer := w\<rparr>, io)
     | (Inr _, w, io) \<Rightarrow>
         (case bw_flush w io of
            (r, w, io) \<Rightarrow> (map_err AofIo r, p\<lparr>writer := w\<rparr>, io)))"

function replay_loop :: "bytes \<Rightarrow> cache \<Rightarrow> clock \<Rightarrow> (aof_error, unit) result \<times> cache \<times> clock" where
  "replay_loop bs c clk =
    (case parse_one bs of
       Inr (frame, remainder) \<Rightarrow>
         (case command_try_from frame clk of
            (Inl e, clk) \<Rightarrow> (Inl (AofCommand e), c, clk)
          | (Inr cmd, clk) \<Rightarrow>
              (case cmd of
                 Cache cc \<Rightarrow>
                   (case cache_execute cc c clk of
                      (Inl e, c, clk) \<Rightarrow> (Inl (AofCache e), c, clk)
                    | (Inr _, c, clk) \<Rightarrow> replay_loop remainder c clk)
               | Channel _ \<Rightarrow> replay_loop remainder c clk
               | Ping _ \<Rightarrow> replay_loop remainder c clk))
     | Inl e \<Rightarrow> if e = Incomplete then (Inr (), c, clk) else (Inl (AofFrame e), c, clk))"
  by pat_completeness auto
termination replay_loop
  by (relation "measure (\<lambda>(bs, c, clk). length bs)") (auto dest: parse_one_shorter)

declare replay_loop.simps [simp del]

definition aof_replay ::
    "persister_inner \<Rightarrow> cache \<Rightarrow> clock \<Rightarrow> io \<Rightarrow> (aof_error, unit) result \<times> cache \<times> clock \<times> io" where
  "aof_replay p c clk io =
    (case io_call io of
       (Inl e, io) \<Rightarrow> (Inl (AofIo e), c, clk, io)
     | (Inr _, io) \<Rightarrow>
         (case io_call io of
            (Inl e, io) \<Rightarrow> (Inl (AofIo e), c, clk, io)
          | (Inr _, io) \<Rightarrow>
              (case replay_loop (bw_file (writer p)) c clk of (r, c, clk) \<Rightarrow> (r, c, clk, io))))"

definition aof_clear :: "persister_inner \<Rightarrow> io \<Rightarrow> (aof_error, unit) result \<times> persister_inner \<times> io" where
  "aof_clear p io =
    (if writer_poisoned p then (Inl AofMutexPoisoned, p, io)
     else case bw_flush (writer p) io of
       (Inl e, w, io) \<Rightarrow> (Inl (AofIo e), p\<lparr>writer := w\<rparr>, io)
     | (Inr _, w, io) \<Rightarrow>
         (case io_call io of
            (Inl e, io) \<Rightarrow> (Inl (AofIo e), p\<lparr>writer := w\<rparr>, io)
          | (Inr _, io) \<Rightarrow> (Inr (), p\<lparr>writer := w\<lparr>bw_file := []\<rparr>\<rparr>, io)))"

section \<open>The snapshot\<close>

text \<open>
  The serialiser's two functions are arguments and its two error types are left abstract.  \<open>snap_tmp\<close> is the
  \<^verbatim>\<open>.tmp\<close> sibling, when there is one.
\<close>

type_synonym data = "(bytes \<times> entry) list"

typedecl read_error
typedecl write_error

datatype snapshot_error =
    SnapshotIo io_error
  | SnapshotRead read_error
  | SnapshotWrite write_error

record snapshot_files =
  snap_file :: bytes
  snap_tmp :: "bytes option"

definition snapshot_load ::
    "(bytes \<Rightarrow> (read_error, data) result) \<Rightarrow> snapshot_files \<Rightarrow> io \<Rightarrow>
      (snapshot_error, data) result \<times> io" where
  "snapshot_load deserialize s io =
    (case io_call io of
       (Inl e, io) \<Rightarrow> (Inl (SnapshotIo e), io)
     | (Inr _, io) \<Rightarrow>
         (case io_call io of
            (Inl e, io) \<Rightarrow> (Inl (SnapshotIo e), io)
          | (Inr _, io) \<Rightarrow>
              (if snap_file s = [] then Inr [] else map_err SnapshotRead (deserialize (snap_file s)), io)))"

definition sync_folder :: "io \<Rightarrow> (io_error, unit) result \<times> io" where
  "sync_folder io =
    (case io_call io of (Inl e, io) \<Rightarrow> (Inl e, io) | (Inr _, io) \<Rightarrow> io_call io)"

text \<open>From the written temporary file on: sync it, rename it over the snapshot, sync the folder.\<close>

definition snapshot_publish ::
    "snapshot_files \<Rightarrow> io \<Rightarrow> (snapshot_error, unit) result \<times> snapshot_files \<times> io" where
  "snapshot_publish s io =
    (case io_call io of
       (Inl e, io) \<Rightarrow> (Inl (SnapshotIo e), s, io)
     | (Inr _, io) \<Rightarrow>
         (case io_call io of
            (Inl e, io) \<Rightarrow> (Inl (SnapshotIo e), s, io)
          | (Inr _, io) \<Rightarrow>
              (let s = \<lparr>snap_file = the (snap_tmp s), snap_tmp = None\<rparr>
               in case sync_folder io of (r, io) \<Rightarrow> (map_err SnapshotIo r, s, io))))"

definition snapshot_store ::
    "(data \<Rightarrow> (write_error, bytes) result) \<Rightarrow> data \<Rightarrow> snapshot_files \<Rightarrow> io \<Rightarrow>
      (snapshot_error, unit) result \<times> snapshot_files \<times> io" where
  "snapshot_store serialize m s io =
    (case io_call io of
       (Inl e, io) \<Rightarrow> (Inl (SnapshotIo e), s, io)
     | (Inr _, io) \<Rightarrow>
         (let s = s\<lparr>snap_tmp := Some []\<rparr>
          in case serialize m of
            Inl e \<Rightarrow> (Inl (SnapshotWrite e), s, io)
          | Inr bs \<Rightarrow>
              (case os_write_all bs io of
                 (Inl e, n, io) \<Rightarrow> (Inl (SnapshotIo e), s\<lparr>snap_tmp := Some (take n bs)\<rparr>, io)
               | (Inr _, n, io) \<Rightarrow> snapshot_publish (s\<lparr>snap_tmp := Some bs\<rparr>) io)))"

section \<open>The persister\<close>

datatype persister_error = PersisterIo io_error | PersisterMutexPoisoned

datatype boxed_error =
    BoxedAof aof_error
  | BoxedSnapshot snapshot_error
  | BoxedPersister persister_error

record persister =
  aof :: persister_inner
  snapshot :: snapshot_files

definition persister_append :: "(boxed_error, persister, io) append_op" where
  "persister_append cmd p io =
    (case aof_append cmd (aof p) io of
       (r, a, io) \<Rightarrow> (map_err (RepositoryGeneric \<circ> BoxedAof) r, p\<lparr>aof := a\<rparr>, io))"

definition persister_snapshot ::
    "(data \<Rightarrow> (write_error, bytes) result) \<Rightarrow> cache \<Rightarrow> persister \<Rightarrow> io \<Rightarrow>
      (boxed_error repository_error, unit) result \<times> persister \<times> io" where
  "persister_snapshot serialize c p io =
    (if cache_poisoned c then (Inl (RepositoryGeneric (BoxedPersister PersisterMutexPoisoned)), p, io)
     else case snapshot_store serialize (cache_inner c) (snapshot p) io of
       (Inl e, s, io) \<Rightarrow> (Inl (RepositoryGeneric (BoxedSnapshot e)), p\<lparr>snapshot := s\<rparr>, io)
     | (Inr _, s, io) \<Rightarrow>
         (case aof_clear (aof p) io of
            (r, a, io) \<Rightarrow>
              (map_err (RepositoryGeneric \<circ> BoxedAof) r, p\<lparr>snapshot := s, aof := a\<rparr>, io)))"

section \<open>Starting up and going down\<close>

record disk =
  disk_aof :: "bytes option"
  disk_snapshot :: "bytes option"
  disk_tmp :: "bytes option"

text \<open>\<^verbatim>\<open>PersisterInner::try_from\<close>: the folder, then the file, created when absent.\<close>

definition persister_inner_try_from ::
    "bytes option \<Rightarrow> io \<Rightarrow> (io_error, persister_inner) result \<times> bytes option \<times> io" where
  "persister_inner_try_from file io =
    (case io_call io of
       (Inl e, io) \<Rightarrow> (Inl e, file, io)
     | (Inr _, io) \<Rightarrow>
         (case io_call io of
            (Inl e, io) \<Rightarrow> (Inl e, file, io)
          | (Inr _, io) \<Rightarrow>
              (let content = (case file of Some bs \<Rightarrow> bs | None \<Rightarrow> [])
               in (Inr \<lparr>writer = \<lparr>bw_buf = [], bw_file = content\<rparr>, writer_poisoned = False\<rparr>,
                   Some content, io))))"

definition persister_initialize ::
    "disk \<Rightarrow> io \<Rightarrow> (persister_error, persister) result \<times> disk \<times> io" where
  "persister_initialize d io =
    (case persister_inner_try_from (disk_aof d) io of
       (Inl e, f, io) \<Rightarrow> (Inl (PersisterIo e), d\<lparr>disk_aof := f\<rparr>, io)
     | (Inr a, f, io) \<Rightarrow>
         (case persister_inner_try_from (disk_snapshot d) io of
            (Inl e, g, io) \<Rightarrow> (Inl (PersisterIo e), d\<lparr>disk_aof := f, disk_snapshot := g\<rparr>, io)
          | (Inr s, g, io) \<Rightarrow>
              (Inr \<lparr>aof = a, snapshot = \<lparr>snap_file = bw_file (writer s), snap_tmp = disk_tmp d\<rparr>\<rparr>,
               d\<lparr>disk_aof := f, disk_snapshot := g\<rparr>, io)))"

text \<open>What a killed process leaves behind.\<close>

definition crash :: "persister \<Rightarrow> disk" where
  "crash p =
    \<lparr>disk_aof = Some (bw_file (writer (aof p))),
     disk_snapshot = Some (snap_file (snapshot p)),
     disk_tmp = snap_tmp (snapshot p)\<rparr>"

section \<open>What a write leaves in the log\<close>

lemma concat_frame_pieces: "concat (frame_pieces f) = frame_write_to f"
proof (induction f)
  case (Array fs)
  then have "concat (concat (map frame_pieces fs)) = concat (map frame_write_to fs)"
    by (induction fs) auto
  then show ?case by simp
qed simp

abbreviation content :: "buf_writer \<Rightarrow> bytes" where
  "content w \<equiv> bw_file w @ bw_buf w"

lemma bw_flush_content:
  assumes "bw_flush w io = (r, w', io')"
  shows "content w' = content w" "prefix (bw_file w) (bw_file w')" "r = Inr x \<Longrightarrow> bw_buf w' = []"
  using assms by (auto simp: bw_flush_def os_write_all_def split: if_splits io_outcome.splits)

lemma bw_store_content:
  assumes "bw_store bs w io = (r, w', io')" "buf_capacity \<le> length bs \<Longrightarrow> bw_buf w = []"
  shows "\<exists>p. prefix p bs \<and> content w' = content w @ p \<and> (r = Inr () \<longrightarrow> p = bs)"
    and "prefix (bw_file w) (bw_file w')"
  using assms
  by (auto simp: bw_store_def os_write_all_def take_is_prefix split: if_splits io_outcome.splits)

lemma bw_write_all_content:
  assumes "bw_write_all bs w io = (r, w', io')"
  shows "(\<exists>p. prefix p bs \<and> content w' = content w @ p \<and> (r = Inr () \<longrightarrow> p = bs)) \<and>
    prefix (bw_file w) (bw_file w')"
proof -
  let ?spare = "buf_capacity - length (bw_buf w)"
  consider (fits) "length bs < ?spare" | (flush) "?spare < length bs" | (full) "length bs = ?spare"
    by linarith
  then show ?thesis
  proof cases
    case fits
    with assms show ?thesis by (auto simp: bw_write_all_def)
  next
    case flush
    obtain r1 w1 io1 where f: "bw_flush w io = (r1, w1, io1)" by (cases "bw_flush w io")
    note flushed = bw_flush_content [OF f]
    show ?thesis
    proof (cases r1)
      case (Inl e)
      with assms flush f have "r = Inl e" "w' = w1" by (auto simp: bw_write_all_def)
      with flushed(1, 2) show ?thesis by auto
    next
      case (Inr u)
      with assms flush f have store: "bw_store bs w1 io1 = (r, w', io')"
        by (simp add: bw_write_all_def)
      from bw_store_content(1) [OF store] flushed Inr
      have "\<exists>p. prefix p bs \<and> content w' = content w @ p \<and> (r = Inr () \<longrightarrow> p = bs)" by auto
      moreover from bw_store_content(2) [OF store] flushed Inr
      have "prefix (bw_file w) (bw_file w')" by (metis prefix_order.trans)
      ultimately show ?thesis by blast
    qed
  next
    case full
    then have store: "bw_store bs w io = (r, w', io')" using assms by (simp add: bw_write_all_def)
    have "buf_capacity \<le> length bs \<Longrightarrow> bw_buf w = []"
      using full by (cases "bw_buf w") (simp_all add: buf_capacity_def)
    from bw_store_content [OF store this] show ?thesis by blast
  qed
qed

lemma write_pieces_content:
  "write_pieces ps w io = (r, w', io') \<Longrightarrow>
    (\<exists>p. prefix p (concat ps) \<and> content w' = content w @ p \<and> (r = Inr () \<longrightarrow> p = concat ps)) \<and>
    prefix (bw_file w) (bw_file w')"
proof (induction ps arbitrary: w io)
  case Nil
  then show ?case by simp
next
  case (Cons bs ps)
  obtain r1 w1 io1 where one: "bw_write_all bs w io = (r1, w1, io1)" by (cases "bw_write_all bs w io")
  from bw_write_all_content [OF one] obtain p where
      p: "prefix p bs" "content w1 = content w @ p" "r1 = Inr () \<longrightarrow> p = bs"
    and grow: "prefix (bw_file w) (bw_file w1)" by blast
  show ?case
  proof (cases r1)
    case (Inl e)
    with Cons.prems one have "r = Inl e" "w' = w1" by simp_all
    with p(1, 2) grow show ?thesis by (auto intro: prefix_order.trans)
  next
    case (Inr u)
    with Cons.prems one have rest: "write_pieces ps w1 io1 = (r, w', io')" by simp
    from Cons.IH [OF rest] obtain q where
        q: "prefix q (concat ps)" "content w' = content w1 @ q" "r = Inr () \<longrightarrow> q = concat ps"
      and grow': "prefix (bw_file w1) (bw_file w')" by blast
    have "prefix (p @ q) (concat (bs # ps))" using q(1) p(3) Inr by simp
    moreover have "content w' = content w @ (p @ q)" using q(2) p(2) by simp
    moreover have "r = Inr () \<longrightarrow> p @ q = concat (bs # ps)" using q(3) p(3) Inr by simp
    ultimately show ?thesis using grow grow' prefix_order.trans by blast
  qed
qed

abbreviation log_bytes :: "write_command \<Rightarrow> bytes" where
  "log_bytes wc \<equiv> frame_write_to (frame_from_write_command wc)"

text \<open>An append, failed or not: the log's file is extended, and file and buffer together hold what
  they held and a prefix of the new frame.\<close>

lemma aof_append_content:
  assumes "aof_append wc p io = (r, p', io')"
  shows "(\<exists>q. prefix q (log_bytes wc) \<and> content (writer p') = content (writer p) @ q) \<and>
    prefix (bw_file (writer p)) (bw_file (writer p')) \<and> writer_poisoned p' = writer_poisoned p"
    and "r = Inr x \<Longrightarrow> bw_file (writer p') = content (writer p) @ log_bytes wc \<and>
      bw_buf (writer p') = [] \<and> \<not> writer_poisoned p'"
proof -
  obtain r1 w1 io1 where pieces:
      "write_pieces (frame_pieces (frame_from_write_command wc)) (writer p) io = (r1, w1, io1)"
    using prod_cases3 by blast
  obtain r2 w2 io2 where flush: "bw_flush w1 io1 = (r2, w2, io2)" by (cases "bw_flush w1 io1")
  note written = write_pieces_content [OF pieces, unfolded concat_frame_pieces]
  note flushed = bw_flush_content [OF flush]
  show "(\<exists>q. prefix q (log_bytes wc) \<and> content (writer p') = content (writer p) @ q) \<and>
    prefix (bw_file (writer p)) (bw_file (writer p')) \<and> writer_poisoned p' = writer_poisoned p"
    using assms written flushed pieces flush
    by (cases r1) (auto simp: aof_append_def split: if_splits intro: prefix_order.trans)
  show "r = Inr x \<Longrightarrow> bw_file (writer p') = content (writer p) @ log_bytes wc \<and>
      bw_buf (writer p') = [] \<and> \<not> writer_poisoned p'"
    using assms written flushed(1, 3) pieces flush
    by (cases r1; cases r2) (auto simp: aof_append_def split: if_splits)
qed

section \<open>What replay makes of the log\<close>

abbreviation write_fits :: "write_command \<Rightarrow> bool" where
  "write_fits wc \<equiv> frame_fits (frame_from_write_command wc)"

lemma replay_loop_cons:
  assumes "write_fits wc"
  shows "replay_loop (log_bytes wc @ rest) c clk =
    (case cache_execute (Write wc) c clk of
       (Inl e, c, clk) \<Rightarrow> (Inl (AofCache e), c, clk)
     | (Inr _, c, clk) \<Rightarrow> replay_loop rest c clk)"
  by (subst replay_loop.simps)
    (simp add: resp.dec_enc [OF assms] lift_log_frame split: prod.split sum.split)

text \<open>A log of whole frames and a rest: the writes in order, then the rest.\<close>

lemma replay_loop_log:
  "list_all write_fits ws \<Longrightarrow> replay_loop (concat (map log_bytes ws) @ rest) c clk =
    (case run_cache (map Write ws) c clk of
       (Inl e, c, clk) \<Rightarrow> (Inl (AofCache e), c, clk)
     | (Inr _, c, clk) \<Rightarrow> replay_loop rest c clk)"
proof (induction ws arbitrary: c clk)
  case Nil
  show ?case by simp
next
  case (Cons wc ws)
  obtain r c1 clk1 where x: "cache_execute (Write wc) c clk = (r, c1, clk1)"
    by (cases "cache_execute (Write wc) c clk")
  from Cons show ?case
    using replay_loop_cons [of wc "concat (map log_bytes ws) @ rest" c clk] x
    by (cases r) simp_all
qed

lemma replay_loop_incomplete: "parse_one bs = Inl Incomplete \<Longrightarrow> replay_loop bs c clk = (Inr (), c, clk)"
  by (simp add: replay_loop.simps)

lemma parse_one_Nil [simp]: "parse_one [] = Inl Incomplete"
  by (simp add: parse_one.simps)

lemma replay_torn_log:
  assumes "list_all write_fits ws" "write_fits wc" "strict_prefix torn (log_bytes wc)"
  shows "replay_loop (concat (map log_bytes ws) @ torn) c clk =
    (case run_cache (map Write ws) c clk of (r, c, clk) \<Rightarrow> (map_err AofCache r, c, clk))"
  using replay_loop_log [OF assms(1)] replay_loop_incomplete [OF resp.torn_incomplete [OF assms(2, 3)]]
  by (simp add: map_err_def split: prod.split sum.split)

lemma replay_whole_log:
  assumes "list_all write_fits ws"
  shows "replay_loop (concat (map log_bytes ws)) c clk =
    (case run_cache (map Write ws) c clk of (r, c, clk) \<Rightarrow> (map_err AofCache r, c, clk))"
  using replay_loop_log [OF assms, of "[]"] replay_loop_incomplete [of "[]"]
  by (simp add: map_err_def split: prod.split sum.split)

text \<open>The commands in a log, and a log that is in order.\<close>

function log_commands :: "bytes \<Rightarrow> write_command list" where
  "log_commands bs =
    (case parse_one bs of
       Inl _ \<Rightarrow> []
     | Inr (f, rest) \<Rightarrow>
         (case fst (command_try_from f (clock_at (Milliseconds 0))) of
            Inr (Cache (Write wc)) \<Rightarrow> wc # log_commands rest
          | _ \<Rightarrow> log_commands rest))"
  by pat_completeness auto
termination log_commands
  by (relation "measure length") (auto dest: parse_one_shorter)

declare log_commands.simps [simp del]

definition log_in_order :: "persister_inner \<Rightarrow> write_command list \<Rightarrow> bool" where
  "log_in_order p ws \<longleftrightarrow> \<not> writer_poisoned p \<and> bw_buf (writer p) = [] \<and>
     list_all write_fits ws \<and> bw_file (writer p) = concat (map log_bytes ws)"

lemma log_commands_log:
  "list_all write_fits ws \<Longrightarrow> log_commands (concat (map log_bytes ws)) = ws"
proof (induction ws)
  case Nil
  show ?case by (simp add: log_commands.simps)
next
  case (Cons wc ws)
  then have "parse_one (log_bytes wc @ concat (map log_bytes ws)) =
      Inr (frame_from_write_command wc, concat (map log_bytes ws))"
    by (simp add: resp.dec_enc)
  with Cons show ?case
    by (subst log_commands.simps) (simp add: lift_log_frame)
qed

lemma aof_append_in_order:
  assumes "log_in_order p ws" "write_fits wc" "aof_append wc p io = (Inr x, p', io')"
  shows "log_in_order p' (ws @ [wc])"
  using aof_append_content(2) [OF assms(3) refl] assms(1, 2) by (auto simp: log_in_order_def)

lemma persister_append_in_order:
  assumes "log_in_order (aof p) ws" "write_fits wc" "persister_append wc p io = (Inr x, p', io')"
  shows "log_in_order (aof p') (ws @ [wc])"
proof -
  from assms(3) obtain y io' where "aof_append wc (aof p) io = (Inr y, aof p', io')"
    by (auto simp: persister_append_def split: prod.splits)
  then show ?thesis by (rule aof_append_in_order [OF assms(1, 2)])
qed

interpretation repository: cache_repository persister_append
    "\<lambda>p. log_commands (bw_file (writer (aof p)))" "\<lambda>p. \<exists>ws. log_in_order (aof p) ws" write_fits
proof (unfold_locales, goal_cases)
  case (1 r wc w x r' w')
  from 1(1) obtain ws where ws: "log_in_order (aof r) ws" by blast
  from persister_append_in_order [OF ws 1(2, 3)] have "log_in_order (aof r') (ws @ [wc])" .
  moreover from this ws have "log_commands (bw_file (writer (aof r'))) =
      log_commands (bw_file (writer (aof r))) @ [wc]"
    using log_commands_log [of ws] log_commands_log [of "ws @ [wc]"] by (simp add: log_in_order_def)
  ultimately show ?case by blast
qed

section \<open>Properties\<close>

text \<open>
  C16: an append is all or nothing for the next start.  Whatever fails while a frame is appended to
  a log in order, the log's file then replays as the commands before it, or as those and the new
  one; when the append reports success it is the latter.
\<close>

theorem append_all_or_nothing:
  assumes "log_in_order p ws" "write_fits wc" "aof_append wc p io = (r, p', io')"
  shows "\<exists>ws'. (ws' = ws @ [wc] \<or> ws' = ws \<and> r \<noteq> Inr ()) \<and>
    (\<forall>c clk. replay_loop (bw_file (writer p')) c clk =
      (case run_cache (map Write ws') c clk of (a, c, clk) \<Rightarrow> (map_err AofCache a, c, clk)))"
proof -
  have whole: "list_all write_fits (ws @ [wc])" and pre: "list_all write_fits ws"
    and old: "content (writer p) = concat (map log_bytes ws)" "bw_buf (writer p) = []"
    using assms(1, 2) by (simp_all add: log_in_order_def)
  obtain q where q: "prefix q (log_bytes wc)" "content (writer p') = content (writer p) @ q"
    and grow: "prefix (bw_file (writer p)) (bw_file (writer p'))"
    using aof_append_content(1) [OF assms(3)] by blast
  have "bw_file (writer p) = concat (map log_bytes ws)" using old by simp
  with grow obtain t where t: "bw_file (writer p') = concat (map log_bytes ws) @ t"
    by (auto simp only: prefix_def)
  with q(2) old(1) have "t @ bw_buf (writer p') = q" by simp
  with q(1) have "prefix t (log_bytes wc)" by (metis append_prefixD)
  then consider (all) "t = log_bytes wc" | (torn) "strict_prefix t (log_bytes wc)"
    by (auto simp: prefix_order.le_less)
  then show ?thesis
  proof cases
    case all
    with t replay_whole_log [OF whole] show ?thesis by (intro exI [of _ "ws @ [wc]"]) simp
  next
    case torn
    then have "r \<noteq> Inr ()" using aof_append_content(2) [OF assms(3)] t old by auto
    with t replay_torn_log [OF pre assms(2) torn] show ?thesis by (intro exI [of _ ws]) simp
  qed
qed

theorem append_all_or_nothing_witness:
  "\<exists>p p' r io'. log_in_order p [] \<and>
    aof_append (Delete ''k'') p (IoFail 5 ## sconst IoOk) = (r, p', io') \<and>
    (\<exists>ws'. (ws' = [] @ [Delete ''k''] \<or> ws' = [] \<and> r \<noteq> Inr ()) \<and>
    (\<forall>c clk. replay_loop (bw_file (writer p')) c clk =
      (case run_cache (map Write ws') c clk of (a, c, clk) \<Rightarrow> (map_err AofCache a, c, clk))))"
proof -
  let ?p = "\<lparr>writer = \<lparr>bw_buf = [], bw_file = []\<rparr>, writer_poisoned = False\<rparr>"
  have a: "log_in_order ?p []" by (simp add: log_in_order_def)
  have b: "write_fits (Delete ''k'')" by (simp add: frame_from_write_command_def)
  obtain r p' io' where c: "aof_append (Delete ''k'') ?p (IoFail 5 ## sconst IoOk) = (r, p', io')"
    using prod_cases3 by blast
  show ?thesis
    by (intro exI [of _ ?p] exI [of _ p'] exI [of _ r] exI [of _ io'] conjI)
      (rule a c append_all_or_nothing [OF a b c])+
qed

text \<open>
  C26: only a torn tail is forgiven.  A frame that can never parse, or that parses but is not a
  command, stops the replay with an error after the writes before it have been applied.
\<close>

theorem corrupt_log_is_fatal:
  assumes "list_all write_fits ws" "run_cache (map Write ws) c clk = (Inr (), c', clk')"
  shows "(parse_one bad = Inl e \<and> e \<noteq> Incomplete \<longrightarrow>
      replay_loop (concat (map log_bytes ws) @ bad) c clk = (Inl (AofFrame e), c', clk')) \<and>
    (parse_one bad = Inr (f, rest) \<and> command_try_from f clk' = (Inl ce, clk'') \<longrightarrow>
      replay_loop (concat (map log_bytes ws) @ bad) c clk = (Inl (AofCommand ce), c', clk''))"
  using replay_loop_log [OF assms(1), of bad c clk] assms(2)
  by (simp add: replay_loop.simps [of bad])

theorem corrupt_log_is_fatal_witness:
  "replay_loop (concat (map log_bytes []) @ ''$'' @ CRLF) (cache_new []) (clock_at (Milliseconds 1)) =
     (Inl (AofFrame Malformed), cache_new [], clock_at (Milliseconds 1))"
proof -
  have "parse_one (''$'' @ CRLF) = Inl Malformed"
    by (simp add: parse_one.simps split_crlf_code)
  with corrupt_log_is_fatal [of "[]" "cache_new []" "clock_at (Milliseconds 1)" "cache_new []"
      "clock_at (Milliseconds 1)" "''$'' @ CRLF" Malformed]
  show ?thesis by simp
qed

text \<open>
  taking a snapshot is atomic.  At whichever step it fails, the snapshot file holds the complete
  old bytes or the complete new ones, the log is untouched unless the new snapshot is in place, and
  success means the new snapshot and an empty log.
\<close>

theorem snapshot_then_compact:
  assumes "persister_snapshot serialize c p io = (r, p', io')"
  shows "(snap_file (snapshot p') = snap_file (snapshot p) \<and> aof p' = aof p \<and> r \<noteq> Inr () \<or>
      (\<exists>bs. serialize (cache_inner c) = Inr bs \<and> snap_file (snapshot p') = bs \<and>
        (content (writer (aof p')) = content (writer (aof p)) \<and> r \<noteq> Inr () \<or>
         content (writer (aof p')) = [] \<and> r = Inr ())))"
proof -
  obtain r1 s1 io1 where
      store: "snapshot_store serialize (cache_inner c) (snapshot p) io = (r1, s1, io1)"
    using prod_cases3 by blast
  have published: "snap_file s1 = snap_file (snapshot p) \<and> (\<exists>e. r1 = Inl e) \<or>
      (\<exists>bs. serialize (cache_inner c) = Inr bs \<and> snap_file s1 = bs)"
    using store
    by (auto simp: snapshot_store_def snapshot_publish_def Let_def map_err_def
        split: prod.splits sum.splits)
  obtain r2 a2 io2 where clear: "aof_clear (aof p) io1 = (r2, a2, io2)" using prod_cases3 by blast
  have cleared: "(r2 = Inr () \<and> content (writer a2) = []) \<or>
      ((\<exists>e. r2 = Inl e) \<and> content (writer a2) = content (writer (aof p)))"
  proof -
    obtain r3 w3 io3 where flush: "bw_flush (writer (aof p)) io1 = (r3, w3, io3)"
      using prod_cases3 by blast
    from bw_flush_content [OF flush] flush clear show ?thesis
      by (cases r3) (auto simp: aof_clear_def split: if_splits prod.splits sum.splits)
  qed
  show ?thesis
  proof (cases "cache_poisoned c")
    case True
    with assms show ?thesis by (auto simp: persister_snapshot_def)
  next
    case False
    show ?thesis
    proof (cases r1)
      case (Inl e)
      with assms False store have "p' = p\<lparr>snapshot := s1\<rparr>" "r \<noteq> Inr ()"
        by (auto simp: persister_snapshot_def)
      with published show ?thesis by auto
    next
      case (Inr u)
      with assms False store clear
      have "p' = p\<lparr>snapshot := s1, aof := a2\<rparr>" "r = map_err (RepositoryGeneric \<circ> BoxedAof) r2"
        by (auto simp: persister_snapshot_def)
      with published cleared Inr show ?thesis by auto
    qed
  qed
qed

theorem snapshot_then_compact_witness:
  "\<exists>r p' io'.
    persister_snapshot (\<lambda>m. Inr ''dump'') (cache_new [])
      \<lparr>aof = \<lparr>writer = \<lparr>bw_buf = [], bw_file = ''log''\<rparr>, writer_poisoned = False\<rparr>,
       snapshot = \<lparr>snap_file = ''old'', snap_tmp = None\<rparr>\<rparr> (sconst IoOk) = (r, p', io') \<and>
    (snap_file (snapshot p') = ''old'' \<or> snap_file (snapshot p') = ''dump'')"
proof -
  let ?p = "\<lparr>aof = \<lparr>writer = \<lparr>bw_buf = [], bw_file = ''log''\<rparr>, writer_poisoned = False\<rparr>,
    snapshot = \<lparr>snap_file = ''old'', snap_tmp = None\<rparr>\<rparr>"
  obtain r p' io' where
      x: "persister_snapshot (\<lambda>m. Inr ''dump'') (cache_new []) ?p (sconst IoOk) = (r, p', io')"
    using prod_cases3 by blast
  from snapshot_then_compact [OF x]
  have "snap_file (snapshot p') = ''old'' \<or> snap_file (snapshot p') = ''dump''" by auto
  with x show ?thesis by blast
qed

end
