(* ===== verification/Recovery.thy ===== *)
theory Recovery
  imports Persister
begin

text \<open>
  The start of \<^verbatim>\<open>Server::run\<close> (\<^verbatim>\<open>inbound/server.rs\<close>): open the files, load the
  snapshot, replay the log on top, sweep.  The lemmas follow one key through a run of logged
  commands and through the recovery after a crash, and show when the two agree.
\<close>

section \<open>Startup\<close>

datatype startup_error =
    StartupPersister persister_error
  | StartupSnapshot snapshot_error
  | StartupAof aof_error
  | StartupCache cache_error

type_synonym startup_result = "(startup_error, persister executor) result"

definition startup_replay ::
    "persister \<Rightarrow> data \<Rightarrow> clock \<Rightarrow> io \<Rightarrow> startup_result \<times> clock \<times> io" where
  "startup_replay p m clk io =
    (case aof_replay (aof p) (cache_new m) clk io of
       (Inl e, c, clk, io) \<Rightarrow> (Inl (StartupAof e), clk, io)
     | (Inr _, c, clk, io) \<Rightarrow>
         (case cache_remove_expired c clk of
            (Inl e, c, clk) \<Rightarrow> (Inl (StartupCache e), clk, io)
          | (Inr _, c, clk) \<Rightarrow> (Inr (executor_new c p), clk, io)))"

definition server_startup ::
    "(bytes \<Rightarrow> (read_error, data) result) \<Rightarrow> disk \<Rightarrow> clock \<Rightarrow> io \<Rightarrow>
      startup_result \<times> disk \<times> clock \<times> io" where
  "server_startup deserialize d clk io =
    (case persister_initialize d io of
       (Inl e, d, io) \<Rightarrow> (Inl (StartupPersister e), d, clk, io)
     | (Inr p, d, io) \<Rightarrow>
         (case snapshot_load deserialize (snapshot p) io of
            (Inl e, io) \<Rightarrow> (Inl (StartupSnapshot e), d, clk, io)
          | (Inr m, io) \<Rightarrow>
              (case startup_replay p m clk io of (r, clk, io) \<Rightarrow> (r, d, clk, io))))"

section \<open>Clocks and deadlines\<close>

text \<open>All readings of the clock succeed and are at most \<open>T\<close>.\<close>

definition clock_within :: "milliseconds \<Rightarrow> clock \<Rightarrow> bool" where
  "clock_within T clk \<longleftrightarrow> (\<forall>n. \<exists>t \<le> T. reading (sdrop n clk) = Inr t)"

lemma clock_within_sdrop: "clock_within T clk \<Longrightarrow> clock_within T (sdrop n clk)"
  by (simp add: clock_within_def sdrop_add)

lemma clock_within_reading:
  assumes "clock_within T clk"
  obtains t where "t \<le> T" "reading clk = Inr t"
  using assms unfolding clock_within_def by (metis sdrop.simps(1))

lemma clock_within_stl: "clock_within T clk \<Longrightarrow> clock_within T (stl clk)"
  using clock_within_sdrop [of T clk 1] by simp

lemma clock_within_clock_at [simp]: "clock_within T (clock_at t) \<longleftrightarrow> t \<le> T"
proof -
  have "sdrop n (clock_at t) = clock_at t" for n by (induction n) simp_all
  then show ?thesis by (simp add: clock_within_def)
qed

text \<open>No deadline of an entry, or of the writes to a key, lies at or before \<open>T\<close>.\<close>

definition entry_ahead :: "milliseconds \<Rightarrow> entry option \<Rightarrow> bool" where
  "entry_ahead T x \<longleftrightarrow> (\<forall>e d. x = Some e \<longrightarrow> entry_expires_at e = Some d \<longrightarrow> T < d)"

definition writes_ahead :: "milliseconds \<Rightarrow> bytes \<Rightarrow> write_command list \<Rightarrow> bool" where
  "writes_ahead T k ws \<longleftrightarrow>
     (\<forall>w \<in> set ws. write_key w = k \<longrightarrow> (\<forall>d. write_deadline w = Some d \<longrightarrow> T < d))"

lemma entry_ahead_not_expired: "entry_ahead T (Some e) \<Longrightarrow> t \<le> T \<Longrightarrow> \<not> expired t e"
  by (auto simp: entry_ahead_def expired_def split: option.splits)

lemma entry_ahead_apply_key:
  "entry_ahead T x \<Longrightarrow> (\<forall>d. write_deadline w = Some d \<longrightarrow> T < d) \<Longrightarrow> entry_ahead T (apply_key w x)"
  by (auto simp: entry_ahead_def apply_key_def write_deadline_def entry_new_def
      split: write_command.splits)

lemma cache_execute_total:
  assumes "\<not> cache_poisoned c" "clock_within T clk"
  shows "\<exists>x. fst (cache_execute cmd c clk) = Inr x"
proof -
  obtain t where t: "reading clk = Inr t" using clock_within_reading [OF assms(2)] by blast
  obtain t' where t': "reading (stl clk) = Inr t'"
    using clock_within_reading [OF clock_within_stl [OF assms(2)]] by blast
  show ?thesis
  proof (cases cmd)
    case (Read r)
    with assms(1) t t' show ?thesis
      by (cases r) (auto simp: cache_execute_def cache_op_defs split: option.split)
  next
    case (Write w)
    with assms(1) t show ?thesis
      by (cases w) (auto simp: cache_execute_def cache_op_defs split: option.split)
  qed
qed

lemma cache_execute_key:
  assumes "\<not> cache_poisoned c" "clock_within T clk" "entry_ahead T (lookup c k)"
    and "writes_ahead T k (writes_of [cmd])"
  shows "lookup (fst (snd (cache_execute cmd c clk))) k =
    fold apply_key (filter (\<lambda>w. write_key w = k) (writes_of [cmd])) (lookup c k)"
proof (cases "cache_command_key cmd = k")
  case False
  then show ?thesis
    using cache_execute_other_key [of k cmd c clk] by (cases cmd) auto
next
  case True
  obtain t where t: "t \<le> T" "reading clk = Inr t" using clock_within_reading [OF assms(2)] by blast
  obtain t' where t': "reading (stl clk) = Inr t'"
    using clock_within_reading [OF clock_within_stl [OF assms(2)]] by blast
  have live: "\<not> leftover t c k"
    using assms(3) t(1) entry_ahead_not_expired by (auto simp: leftover_def split: option.splits)
  show ?thesis
  proof (cases cmd)
    case (Read r)
    with True assms(1) t(2) t' live show ?thesis
      by (cases r)
        (auto simp: cache_execute_def cache_op_defs leftover_def expired_def split: option.splits)
  next
    case (Write w)
    have "t < d" if "w = ExpireAt k' d" for k' d
      using that assms(4) Write True t(1) by (auto simp: writes_ahead_def write_deadline_def)
    with cache_execute_ahead(1) [OF assms(1) t(2), of w] live Write True show ?thesis by simp
  qed
qed

section \<open>One key through a run and through a recovery\<close>

abbreviation key_writes :: "bytes \<Rightarrow> write_command list \<Rightarrow> write_command list" where
  "key_writes k ws \<equiv> filter (\<lambda>w. write_key w = k) ws"

lemma run_cache_key:
  "\<not> cache_poisoned c \<Longrightarrow> clock_within T clk \<Longrightarrow> entry_ahead T (lookup c k) \<Longrightarrow>
   writes_ahead T k (writes_of cmds) \<Longrightarrow> run_cache cmds c clk = (r, c', clk') \<Longrightarrow>
   r = Inr () \<and> \<not> cache_poisoned c' \<and> clock_within T clk' \<and> (cache_invar c \<longrightarrow> cache_invar c') \<and>
   lookup c' k = fold apply_key (key_writes k (writes_of cmds)) (lookup c k) \<and>
   entry_ahead T (lookup c' k)"
proof (induction cmds arbitrary: c clk)
  case Nil
  then show ?case by simp
next
  case (Cons cmd cmds)
  obtain x c1 clk1 where step: "cache_execute cmd c clk = (Inr x, c1, clk1)"
    using cache_execute_total [OF Cons.prems(1, 2), of cmd] by (metis prod.collapse)
  have ahead: "writes_ahead T k (writes_of [cmd])" "writes_ahead T k (writes_of cmds)"
    using Cons.prems(4) by (cases cmd; simp add: writes_ahead_def)+
  note key = cache_execute_key [OF Cons.prems(1-3) ahead(1)]
  have c1: "\<not> cache_poisoned c1" "cache_invar c \<longrightarrow> cache_invar c1"
    using cache_execute_poisoned [of cmd c clk] cache_execute_invar [of c cmd clk] Cons.prems(1) step
    by simp_all
  have clk1: "clock_within T clk1"
    using cache_execute_clock [of cmd c clk] clock_within_sdrop [OF Cons.prems(2)] step by auto
  have e1: "entry_ahead T (lookup c1 k)"
    using key step Cons.prems(3) ahead(1) entry_ahead_apply_key
    by (cases cmd) (auto simp: writes_ahead_def)
  have rest: "run_cache cmds c1 clk1 = (r, c', clk')" using Cons.prems(5) step by simp
  from Cons.IH [OF c1(1) clk1 e1 ahead(2) rest] c1(2) key step show ?case
    by (cases cmd) auto
qed

text \<open>
  What is relied on of \<^verbatim>\<open>wincode\<close>: the bytes decode to a map with the entries of \<open>m\<close>, in whatever
  order.  An empty file stands for the empty map and is not decoded.
\<close>

definition snapshot_decodes :: "(bytes \<Rightarrow> (read_error, data) result) \<Rightarrow> bytes \<Rightarrow> data \<Rightarrow> bool" where
  "snapshot_decodes deserialize bs m \<longleftrightarrow>
     (\<exists>m'. distinct_keys m' \<and> map_of m' = map_of m \<and>
        (if bs = [] then m' = [] else deserialize bs = Inr m'))"

text \<open>The log's file replays as the writes \<open>ws\<close>: a whole log, or one with a torn tail.\<close>

definition replays_as :: "bytes \<Rightarrow> write_command list \<Rightarrow> bool" where
  "replays_as bs ws \<longleftrightarrow> (\<forall>c clk. replay_loop bs c clk =
     (case run_cache (map Write ws) c clk of (r, c, clk) \<Rightarrow> (map_err AofCache r, c, clk)))"

text \<open>An operating system that never fails.\<close>

definition io_ok :: io where
  "io_ok = sconst IoOk"

lemma io_ok_heads [simp]: "shd io_ok = IoOk" "stl io_ok = io_ok"
  by (simp_all add: io_ok_def)

lemma io_call_ok [simp]: "io_call io_ok = (Inr (), io_ok)"
  by (simp add: io_call_def)

lemma startup_key:
  assumes "disk_aof d = Some file" "replays_as file ws"
    and "disk_snapshot d = Some bs" "snapshot_decodes deserialize bs m"
    and "clock_within T clk" "entry_ahead T (map_of m k)" "writes_ahead T k ws"
  shows "\<exists>ex clk'. server_startup deserialize d clk io_ok = (Inr ex, d, clk', io_ok) \<and>
    lookup (exec_cache ex) k = fold apply_key (key_writes k ws) (map_of m k) \<and>
    exec_repo ex = \<lparr>aof = \<lparr>writer = \<lparr>bw_buf = [], bw_file = file\<rparr>, writer_poisoned = False\<rparr>,
      snapshot = \<lparr>snap_file = bs, snap_tmp = disk_tmp d\<rparr>\<rparr>"
proof -
  obtain m' where m': "distinct_keys m'" "map_of m' = map_of m"
      "if bs = [] then m' = [] else deserialize bs = Inr m'"
    using assms(4) unfolding snapshot_decodes_def by blast
  obtain r c clk1 where run: "run_cache (map Write ws) (cache_new m') clk = (r, c, clk1)"
    using prod_cases3 by blast
  have c0: "\<not> cache_poisoned (cache_new m')" "entry_ahead T (lookup (cache_new m') k)"
    "writes_ahead T k (writes_of (map Write ws))" "cache_invar (cache_new m')"
    using m' assms(6, 7) by (simp_all add: cache_invar_def cache_new_def)
  from run_cache_key [OF c0(1) assms(5) c0(2, 3) run] c0(4)
  have c: "r = Inr ()" "\<not> cache_poisoned c" "clock_within T clk1" "cache_invar c"
    "lookup c k = fold apply_key (key_writes k ws) (map_of m k)" "entry_ahead T (lookup c k)"
    using m'(2) by auto
  obtain t where t: "t \<le> T" "reading clk1 = Inr t" using clock_within_reading [OF c(3)] by blast
  obtain n c' where sweep: "cache_remove_expired c clk1 = (Inr n, c', stl clk1)"
      "lookup c' = view t (lookup c)"
    using cache_remove_expired_healthy [OF c(4, 2) t(2)] by blast
  have "lookup c' k = lookup c k"
    using sweep(2) c(6) t(1) entry_ahead_not_expired by (auto simp: view_def split: option.split)
  moreover have "replay_loop file (cache_new m') clk = (Inr (), c, clk1)"
    using assms(2) run c(1) by (simp add: replays_as_def)
  moreover have "disk.disk_aof_update (\<lambda>_. Some file) (disk.disk_snapshot_update (\<lambda>_. Some bs) d) = d"
    using assms(1, 3) by (cases d) simp
  ultimately show ?thesis
    using assms(1, 3) m'(3) sweep(1) c(5)
    by (simp add: server_startup_def persister_initialize_def persister_inner_try_from_def Let_def
        snapshot_load_def startup_replay_def aof_replay_def executor_new_def
        split: if_splits)
qed

section \<open>Replaying twice\<close>

text \<open>
  The writes to one key amount to a constant, a new deadline, or nothing; replaying them on their
  own result changes nothing.
\<close>

lemma fold_apply_key_shape:
  "(\<exists>y. \<forall>x. fold apply_key ws x = y) \<or>
   (\<exists>d. \<forall>x. fold apply_key ws x = map_option (\<lambda>e. e\<lparr>entry_expires_at := d\<rparr>) x) \<or>
   (\<forall>x. fold apply_key ws x = x)"
proof (induction ws rule: rev_induct)
  case Nil
  show ?case by simp
next
  case (snoc w ws)
  have last: "fold apply_key (ws @ [w]) x = apply_key w (fold apply_key ws x)" for x by simp
  show ?case
  proof (cases w)
    case (Set k v d)
    with last have "\<forall>x. fold apply_key (ws @ [w]) x = Some (entry_new v d)"
      by (simp add: apply_key_def)
    then show ?thesis by blast
  next
    case (Delete k)
    with last have "\<forall>x. fold apply_key (ws @ [w]) x = None" by (simp add: apply_key_def)
    then show ?thesis by blast
  next
    case (ExpireAt k d)
    with last snoc.IH show ?thesis
      by (elim disjE exE) (auto simp: apply_key_def option.map_comp comp_def)
  next
    case (Persist k)
    with last snoc.IH show ?thesis
      by (elim disjE exE) (auto simp: apply_key_def option.map_comp comp_def)
  qed
qed

lemma fold_apply_key_twice: "fold apply_key ws (fold apply_key ws x) = fold apply_key ws x"
  using fold_apply_key_shape [of ws] by (elim disjE exE) (simp_all add: option.map_comp comp_def)

section \<open>What a run leaves behind\<close>

lemma log_in_order_replays: "log_in_order p ws \<Longrightarrow> replays_as (bw_file (writer p)) ws"
  unfolding log_in_order_def replays_as_def using replay_whole_log by metis

text \<open>The start after a crash, for one key.\<close>

lemma crash_startup_key:
  assumes "log_in_order (aof p) ws" "snapshot_decodes deserialize (snap_file (snapshot p)) m"
    and "clock_within T clk" "entry_ahead T (map_of m k)" "writes_ahead T k ws"
  obtains ex clk' where "server_startup deserialize (crash p) clk io_ok = (Inr ex, crash p, clk', io_ok)"
    "lookup (exec_cache ex) k = fold apply_key (key_writes k ws) (map_of m k)"
proof -
  have files: "disk_aof (crash p) = Some (bw_file (writer (aof p)))"
      "disk_snapshot (crash p) = Some (snap_file (snapshot p))" by (simp_all add: crash_def)
  from startup_key [OF files(1) log_in_order_replays [OF assms(1)] files(2) assms(2-5)] that
  show ?thesis by blast
qed

lemma run_logged_log_in_order:
  assumes "log_in_order (aof (exec_repo ex)) ws" "list_all write_fits (writes_of cmds)"
    and "run_logged persister_append cmds ex clk io = (Inr xs, ex', clk', io')"
  shows "log_in_order (aof (exec_repo ex')) (ws @ writes_of cmds)"
proof -
  have "\<exists>ws. log_in_order (aof (exec_repo ex)) ws" using assms(1) by blast
  from repository.run_logged_logs [OF this assms(2, 3)]
  obtain ws' where ws': "log_in_order (aof (exec_repo ex')) ws'"
    and logged: "log_commands (bw_file (writer (aof (exec_repo ex')))) =
      log_commands (bw_file (writer (aof (exec_repo ex)))) @ writes_of cmds" by blast
  from ws' have "log_commands (bw_file (writer (aof (exec_repo ex')))) = ws'"
    using log_commands_log by (simp add: log_in_order_def)
  moreover from assms(1) have "log_commands (bw_file (writer (aof (exec_repo ex)))) = ws"
    using log_commands_log by (simp add: log_in_order_def)
  ultimately show ?thesis using ws' logged by simp
qed

lemma persister_append_snapshot:
  "persister_append wc p io = (r, p', io') \<Longrightarrow> snapshot p' = snapshot p"
  by (auto simp: persister_append_def split: prod.splits)

lemma execute_logged_snapshot:
  "execute_logged persister_append cmd ex clk io = (r, ex', clk', io') \<Longrightarrow>
     snapshot (exec_repo ex') = snapshot (exec_repo ex)"
  by (auto simp: execute_logged_def execute_def map_err_def dest: persister_append_snapshot
      split: prod.splits sum.splits cache_command.splits)

lemma run_logged_snapshot:
  "run_logged persister_append cmds ex clk io = (r, ex', clk', io') \<Longrightarrow>
     snapshot (exec_repo ex') = snapshot (exec_repo ex)"
proof (induction cmds arbitrary: ex clk io r)
  case Nil
  then show ?case by simp
next
  case (Cons cmd cmds)
  from Cons.prems show ?case
    by (auto dest!: execute_logged_snapshot Cons.IH split: prod.splits sum.splits)
qed

text \<open>When no call into the operating system fails, every append succeeds.\<close>

lemma os_write_all_ok [simp]: "os_write_all bs io_ok = (Inr (), length bs, io_ok)"
  by (simp add: os_write_all_def)

lemma write_pieces_ok: "\<exists>w'. write_pieces ps w io_ok = (Inr (), w', io_ok)"
  by (induction ps arbitrary: w) (simp_all add: bw_write_all_def bw_store_def bw_flush_def Let_def)

lemma persister_append_ok:
  assumes "\<not> writer_poisoned (aof p)"
  shows "\<exists>p'. persister_append wc p io_ok = (Inr (), p', io_ok) \<and>
    \<not> writer_poisoned (aof p')"
proof -
  obtain w where
    "write_pieces (frame_pieces (frame_from_write_command wc)) (writer (aof p)) io_ok =
      (Inr (), w, io_ok)" using write_pieces_ok by blast
  with assms show ?thesis by (simp add: persister_append_def aof_append_def bw_flush_def)
qed

lemma run_logged_ok:
  "\<not> cache_poisoned (exec_cache ex) \<Longrightarrow> \<not> writer_poisoned (aof (exec_repo ex)) \<Longrightarrow>
   clock_within T clk \<Longrightarrow>
   \<exists>xs ex' clk'. run_logged persister_append cmds ex clk io_ok = (Inr xs, ex', clk', io_ok)"
proof (induction cmds arbitrary: ex clk)
  case Nil
  show ?case by simp
next
  case (Cons cmd cmds)
  obtain x c clk1 where step: "cache_execute cmd (exec_cache ex) clk = (Inr x, c, clk1)"
    using cache_execute_total [OF Cons.prems(1, 3), of cmd] by (metis prod.collapse)
  have c: "\<not> cache_poisoned c"
    using cache_execute_poisoned [of cmd "exec_cache ex" clk] Cons.prems(1) step by simp
  have clk1: "clock_within T clk1"
    using cache_execute_clock [of cmd "exec_cache ex" clk] clock_within_sdrop [OF Cons.prems(3)] step
    by auto
  show ?case
  proof (cases cmd)
    case (Read r)
    with Cons.IH [of "ex\<lparr>exec_cache := c\<rparr>" clk1] c clk1 Cons.prems(2) step show ?thesis
      by (auto simp: execute_logged_def execute_def)
  next
    case (Write wc)
    obtain p where "persister_append wc (exec_repo ex) io_ok = (Inr (), p, io_ok)"
        "\<not> writer_poisoned (aof p)"
      using persister_append_ok [OF Cons.prems(2)] by blast
    with Write Cons.IH [of "ex\<lparr>exec_cache := c, exec_repo := p\<rparr>" clk1] c clk1 step show ?thesis
      by (auto simp: execute_logged_def execute_def)
  qed
qed

text \<open>A fresh server: an empty store, an empty log, no snapshot.\<close>

definition fresh_executor :: "persister executor" where
  "fresh_executor = executor_new (cache_new [])
     \<lparr>aof = \<lparr>writer = \<lparr>bw_buf = [], bw_file = []\<rparr>, writer_poisoned = False\<rparr>,
      snapshot = \<lparr>snap_file = [], snap_tmp = None\<rparr>\<rparr>"

lemma fresh_executor_simps [simp]:
  "exec_cache fresh_executor = cache_new []"
  "log_in_order (aof (exec_repo fresh_executor)) []"
  "snapshot_decodes deserialize (snap_file (snapshot (exec_repo fresh_executor))) m \<longleftrightarrow> m = []"
  "\<not> writer_poisoned (aof (exec_repo fresh_executor))"
  by (auto simp: fresh_executor_def executor_new_def log_in_order_def snapshot_decodes_def)

lemma fresh_run:
  "\<exists>xs ex' clk'. run_logged persister_append cmds fresh_executor (clock_at t) io_ok =
     (Inr xs, ex', clk', io_ok)"
  by (rule run_logged_ok [where T = t]) simp_all

text \<open>A serialiser that the hypotheses on the snapshot hold for: the map as a log of its entries.\<close>

definition dump :: "data \<Rightarrow> (write_error, bytes) result" where
  "dump m = Inr (concat (map (\<lambda>(k, e). log_bytes (Set k (entry_value e) (entry_expires_at e))) m))"

definition undump :: "bytes \<Rightarrow> (read_error, data) result" where
  "undump bs = Inr (map (\<lambda>w. (write_key w, entry_new (set_value w) (set_expires_at w))) (log_commands bs))"

lemma dump_undump:
  assumes "distinct_keys m" "dump m = Inr bs"
    and "\<forall>(k, e) \<in> set m. write_fits (Set k (entry_value e) (entry_expires_at e))"
  shows "snapshot_decodes undump bs m"
proof -
  let ?ws = "map (\<lambda>(k, e). Set k (entry_value e) (entry_expires_at e)) m"
  have bs: "bs = concat (map log_bytes ?ws)"
    using assms(2) by (simp add: dump_def comp_def split_def)
  have "list_all write_fits ?ws" using assms(3) by (auto simp: list_all_iff)
  then have "log_commands bs = ?ws" unfolding bs by (rule log_commands_log)
  then have decoded: "undump bs = Inr m"
    by (auto simp: undump_def comp_def split_def entry_new_def intro!: map_idI)
  moreover have "m = []" if "bs = []"
    using \<open>log_commands bs = ?ws\<close> that by (simp add: log_commands.simps)
  ultimately show ?thesis
    using assms(1) unfolding snapshot_decodes_def by (intro exI [of _ m]) simp
qed

text \<open>Taking a snapshot, step by step: which files the next start finds.\<close>

lemma snapshot_store_files:
  assumes "snapshot_store serialize m f io = (r, f', io')"
  shows "snap_file f' = snap_file f \<and> (\<exists>e. r = Inl e) \<or> serialize m = Inr (snap_file f')"
  using assms
  by (auto simp: snapshot_store_def snapshot_publish_def Let_def map_err_def
      split: prod.splits sum.splits)

lemma aof_clear_in_order:
  assumes "log_in_order p ws" "aof_clear p io = (r, p', io')"
  shows "log_in_order p' (if r = Inr () then [] else ws)"
proof -
  have "bw_flush (writer p) io = (Inr (), writer p, io)"
    using assms(1) by (simp add: bw_flush_def os_write_all_def log_in_order_def)
  with assms show ?thesis
    by (cases "io_call io"; cases "fst (io_call io)") (auto simp: aof_clear_def log_in_order_def)
qed

lemma persister_snapshot_files:
  assumes "persister_snapshot serialize c p io = (r, p', io')" "log_in_order (aof p) ws"
  obtains (old) "snap_file (snapshot p') = snap_file (snapshot p)" "log_in_order (aof p') ws"
  | (both) bs where "serialize (cache_inner c) = Inr bs" "snap_file (snapshot p') = bs"
      "log_in_order (aof p') ws"
  | (compacted) bs where "serialize (cache_inner c) = Inr bs" "snap_file (snapshot p') = bs"
      "log_in_order (aof p') []"
proof (cases "cache_poisoned c")
  case True
  with assms old show ?thesis by (auto simp: persister_snapshot_def)
next
  case healthy: False
  obtain r1 s1 io1 where store: "snapshot_store serialize (cache_inner c) (snapshot p) io = (r1, s1, io1)"
    using prod_cases3 by blast
  note published = snapshot_store_files [OF store]
  obtain r2 a io2 where clear: "aof_clear (aof p) io1 = (r2, a, io2)" using prod_cases3 by blast
  note cleared = aof_clear_in_order [OF assms(2) clear]
  show ?thesis
  proof (cases r1)
    case (Inl e)
    with assms(1) healthy store have "p' = p\<lparr>snapshot := s1\<rparr>" by (auto simp: persister_snapshot_def)
    with published assms(2) old both show ?thesis by auto
  next
    case (Inr u)
    with assms(1) healthy store clear have "p' = p\<lparr>snapshot := s1, aof := a\<rparr>"
      by (auto simp: persister_snapshot_def)
    with published Inr cleared both compacted show ?thesis by (auto split: if_splits)
  qed
qed

section \<open>A failed append\<close>







section \<open>Properties\<close>

text \<open>
  C2: recovery restores a key.  Start from a snapshot that agrees with the cache and an empty log,
  run any commands to success, kill the process and start again: the key is as it was, value and
  deadline, provided no deadline it was ever given has passed by the last clock reading.
\<close>

theorem recovery_restores_key:
  assumes "\<not> cache_poisoned (exec_cache ex)" "log_in_order (aof (exec_repo ex)) []"
    and "snapshot_decodes deserialize (snap_file (snapshot (exec_repo ex))) m"
    and "lookup (exec_cache ex) k = map_of m k"
    and "list_all write_fits (writes_of cmds)"
    and "run_logged persister_append cmds ex clk io = (Inr xs, ex', clk', io')"
    and "clock_within T clk" "clock_within T clk2"
    and "entry_ahead T (map_of m k)" "writes_ahead T k (writes_of cmds)"
  shows "\<exists>ex2 clk3. server_startup deserialize (crash (exec_repo ex')) clk2 io_ok =
      (Inr ex2, crash (exec_repo ex'), clk3, io_ok) \<and>
    lookup (exec_cache ex2) k = lookup (exec_cache ex') k"
proof -
  have live: "lookup (exec_cache ex') k = fold apply_key (key_writes k (writes_of cmds)) (map_of m k)"
    using run_cache_key [OF assms(1, 7) _ assms(10) run_logged_cache [OF assms(6)]] assms(4, 9)
    by simp
  have log: "log_in_order (aof (exec_repo ex')) (writes_of cmds)"
    using run_logged_log_in_order [OF assms(2, 5, 6)] by simp
  have "snapshot (exec_repo ex') = snapshot (exec_repo ex)" by (rule run_logged_snapshot [OF assms(6)])
  then have decodes: "snapshot_decodes deserialize (snap_file (snapshot (exec_repo ex'))) m"
    using assms(3) by simp
  from crash_startup_key [OF log decodes assms(8, 9, 10)] live show ?thesis by metis
qed

theorem recovery_restores_key_witness:
  "\<exists>xs ex' clk' io'. run_logged persister_append [Write (Set ''k'' ''v'' None)] fresh_executor
      (clock_at (Milliseconds 1)) io_ok = (Inr xs, ex', clk', io') \<and>
    (\<exists>ex2 clk3. server_startup (\<lambda>bs. Inr []) (crash (exec_repo ex')) (clock_at (Milliseconds 9)) io_ok =
      (Inr ex2, crash (exec_repo ex'), clk3, io_ok) \<and>
    lookup (exec_cache ex2) ''k'' = lookup (exec_cache ex') ''k'')"
proof -
  obtain xs ex' clk' where run: "run_logged persister_append [Write (Set ''k'' ''v'' None)]
      fresh_executor (clock_at (Milliseconds 1)) io_ok = (Inr xs, ex', clk', io_ok)"
    using fresh_run by blast
  have "\<exists>ex2 clk3. server_startup (\<lambda>bs. Inr []) (crash (exec_repo ex')) (clock_at (Milliseconds 9)) io_ok =
      (Inr ex2, crash (exec_repo ex'), clk3, io_ok) \<and>
    lookup (exec_cache ex2) ''k'' = lookup (exec_cache ex') ''k''"
    by (rule recovery_restores_key [OF _ _ _ _ _ run, where m = "[]" and T = "Milliseconds 9"])
      (simp_all add: frame_from_write_command_def entry_ahead_def writes_ahead_def
        write_deadline_def millis_le_nat)
  with run show ?thesis by blast
qed

text \<open>
  C11: a snapshot never costs a key.  Whatever step of a snapshot fails, and also when the process
  dies between the rename and the truncation of the log, the next start finds the key as it was:
  replaying a log whose effects the snapshot already holds is harmless.
\<close>

theorem snapshot_outcome_recovers_key:
  assumes "\<not> cache_poisoned (exec_cache ex)" "log_in_order (aof (exec_repo ex)) []"
    and "snapshot_decodes deserialize (snap_file (snapshot (exec_repo ex))) m"
    and "lookup (exec_cache ex) k = map_of m k"
    and "list_all write_fits (writes_of cmds)"
    and "run_logged persister_append cmds ex clk io = (Inr xs, ex', clk', io')"
    and "persister_snapshot serialize (exec_cache ex') (exec_repo ex') io1 = (r, p', io2)"
    and "\<And>bs. serialize (cache_inner (exec_cache ex')) = Inr bs \<Longrightarrow>
      snapshot_decodes deserialize bs (cache_inner (exec_cache ex'))"
    and "clock_within T clk" "clock_within T clk2"
    and "entry_ahead T (map_of m k)" "writes_ahead T k (writes_of cmds)"
  shows "\<exists>ex2 clk3. server_startup deserialize (crash p') clk2 io_ok =
      (Inr ex2, crash p', clk3, io_ok) \<and>
    lookup (exec_cache ex2) k = lookup (exec_cache ex') k"
proof -
  let ?ws = "writes_of cmds" and ?m = "cache_inner (exec_cache ex')"
  have live: "lookup (exec_cache ex') k = fold apply_key (key_writes k ?ws) (map_of m k)"
    and ahead: "entry_ahead T (map_of ?m k)"
    using run_cache_key [OF assms(1, 9) _ assms(12) run_logged_cache [OF assms(6)]] assms(4, 11)
    by auto
  have log: "log_in_order (aof (exec_repo ex')) ?ws"
    using run_logged_log_in_order [OF assms(2, 5, 6)] by simp
  have nil: "writes_ahead T k []" by (simp add: writes_ahead_def)
  from assms(7) log show ?thesis
  proof (cases rule: persister_snapshot_files)
    case old
    have "snapshot_decodes deserialize (snap_file (snapshot p')) m"
      using assms(3) old(1) run_logged_snapshot [OF assms(6)] by simp
    from crash_startup_key [OF old(2) this assms(10-12)] live show ?thesis by metis
  next
    case (both bs)
    have "snapshot_decodes deserialize (snap_file (snapshot p')) ?m"
      using assms(8) both(1, 2) by simp
    from crash_startup_key [OF both(3) this assms(10) ahead assms(12)]
      fold_apply_key_twice [of "key_writes k ?ws" "map_of m k"] live
    show ?thesis by metis
  next
    case (compacted bs)
    have "snapshot_decodes deserialize (snap_file (snapshot p')) ?m"
      using assms(8) compacted(1, 2) by simp
    from crash_startup_key [OF compacted(3) this assms(10) ahead nil] show ?thesis
      by (metis filter.simps(1) fold_simps(1))
  qed
qed

theorem snapshot_outcome_recovers_key_witness:
  "\<exists>xs ex' clk' r p' io2. run_logged persister_append [Write (Set ''k'' ''v'' None)] fresh_executor
      (clock_at (Milliseconds 1)) io_ok = (Inr xs, ex', clk', io_ok) \<and>
    persister_snapshot dump (exec_cache ex') (exec_repo ex') io_ok = (r, p', io2) \<and>
    (\<exists>ex2 clk3. server_startup undump (crash p') (clock_at (Milliseconds 9)) io_ok =
      (Inr ex2, crash p', clk3, io_ok) \<and>
    lookup (exec_cache ex2) ''k'' = lookup (exec_cache ex') ''k'')"
proof -
  obtain xs ex' clk' where run: "run_logged persister_append [Write (Set ''k'' ''v'' None)]
      fresh_executor (clock_at (Milliseconds 1)) io_ok = (Inr xs, ex', clk', io_ok)"
    using fresh_run by blast
  obtain r p' io2 where snap: "persister_snapshot dump (exec_cache ex') (exec_repo ex') io_ok = (r, p', io2)"
    using prod_cases3 by blast
  have "exec_cache ex' = cache_new [(''k'', entry_new ''v'' None)]"
    using run_logged_cache [OF run]
    by (simp add: cache_execute_def cache_insert_def put_key_def cache_new_def)
  then have m: "cache_inner (exec_cache ex') = [(''k'', entry_new ''v'' None)]"
    by (simp add: cache_new_def)
  have codec: "snapshot_decodes undump bs (cache_inner (exec_cache ex'))"
    if "dump (cache_inner (exec_cache ex')) = Inr bs" for bs
    by (rule dump_undump [OF _ that]) (simp_all add: m entry_new_def frame_from_write_command_def)
  have "\<exists>ex2 clk3. server_startup undump (crash p') (clock_at (Milliseconds 9)) io_ok =
      (Inr ex2, crash p', clk3, io_ok) \<and>
    lookup (exec_cache ex2) ''k'' = lookup (exec_cache ex') ''k''"
    by (rule snapshot_outcome_recovers_key
        [OF _ _ _ _ _ run snap codec, where m = "[]" and T = "Milliseconds 9"])
      (simp_all add: frame_from_write_command_def entry_ahead_def writes_ahead_def
        write_deadline_def millis_le_nat)
  with run snap show ?thesis by blast
qed



text \<open>
  C39: replay brings a dropped key back.  A read drops a key past its deadline without a record in
  the log; a later expire command finds nothing and answers 0 but is logged, and replaying the log at
  the very same time gives the old entry the new deadline.
\<close>

theorem dropped_key_returns_on_replay:
  assumes "d \<le> t" "t < d2" "write_fits (Set k v (Some d))" "write_fits (ExpireAt k d2)"
  shows "\<exists>c c'. run_cache [Write (Set k v (Some d)), Read (Get k), Write (ExpireAt k d2)]
      (cache_new []) (clock_at t) = (Inr (), c, clock_at t) \<and> lookup c k = None \<and>
    replay_loop (concat (map log_bytes (writes_of
        [Write (Set k v (Some d)), Read (Get k), Write (ExpireAt k d2)])))
      (cache_new []) (clock_at t) = (Inr (), c', clock_at t) \<and>
    view t (lookup c') k = Some (entry_new v (Some d2))"
  using assms replay_whole_log [of "[Set k v (Some d), ExpireAt k d2]" "cache_new []" "clock_at t"]
  by (auto simp: cache_execute_def cache_op_defs map_laws entry_new_def view_def expired_def)

theorem dropped_key_returns_on_replay_witness:
  "\<exists>c c'. run_cache [Write (Set ''k'' ''v'' (Some (Milliseconds 5))), Read (Get ''k''),
        Write (ExpireAt ''k'' (Milliseconds 20))] (cache_new []) (clock_at (Milliseconds 9)) =
      (Inr (), c, clock_at (Milliseconds 9)) \<and> lookup c ''k'' = None \<and>
    replay_loop (concat (map log_bytes (writes_of [Write (Set ''k'' ''v'' (Some (Milliseconds 5))),
        Read (Get ''k''), Write (ExpireAt ''k'' (Milliseconds 20))])))
      (cache_new []) (clock_at (Milliseconds 9)) = (Inr (), c', clock_at (Milliseconds 9)) \<and>
    view (Milliseconds 9) (lookup c') ''k'' = Some (entry_new ''v'' (Some (Milliseconds 20)))"
  by (rule dropped_key_returns_on_replay)
    (simp_all add: millis_le_nat millis_less_nat frame_from_write_command_def show_nat.simps)



end
