(* ===== verification/Server.thy ===== *)
theory Server
  imports Session Recovery
begin

text \<open>
  \<^verbatim>\<open>inbound/server.rs\<close> and the writer thread of \<^verbatim>\<open>inbound/session.rs\<close>: the threads of the
  running server as steps on the state they share.  A step is what one thread does between two
  points where it can be overtaken: the accept loop takes a connection, a session goes once round its
  loop, a writer delivers one message, a background thread wakes up, something raises the shutdown
  flag.  The flag is read and written as one shared value.  \<open>sv_accepted\<close> counts the connections
  ever taken; the code only has its residue, the \<^verbatim>\<open>u32\<close> id.
\<close>

section \<open>The writer thread\<close>

text \<open>
  One turn of the writer loop on its queue: leave on shutdown, park on an empty queue, or write and
  flush one message; a failed write is logged and the loop goes on.
\<close>

datatype writer_flow = WriterExit | WriterParked | WriterWrote

definition writer_turn ::
    "bool \<Rightarrow> bytes list \<Rightarrow> buf_writer \<Rightarrow> io \<Rightarrow> writer_flow \<times> bytes list \<times> buf_writer \<times> io" where
  "writer_turn shutdown queue wr io =
    (if shutdown then (WriterExit, queue, wr, io)
     else case queue of
       [] \<Rightarrow> (WriterParked, [], wr, io)
     | msg # queue \<Rightarrow>
         (case bw_write_all msg wr io of
            (Inl _, wr, io) \<Rightarrow> (WriterWrote, queue, wr, io)
          | (Inr _, wr, io) \<Rightarrow>
              (case bw_flush wr io of (_, wr, io) \<Rightarrow> (WriterWrote, queue, wr, io))))"

text \<open>The loop over a list of readings of the flag, one turn for each, up to the first raised one.\<close>

fun writer_loop :: "bool list \<Rightarrow> bytes list \<Rightarrow> buf_writer \<Rightarrow> io \<Rightarrow> bytes list \<times> buf_writer \<times> io" where
  "writer_loop [] queue wr io = (queue, wr, io)"
| "writer_loop (flag # flags) queue wr io =
    (case writer_turn flag queue wr io of
       (fl, queue, wr, io) \<Rightarrow>
         if fl = WriterExit then (queue, wr, io) else writer_loop flags queue wr io)"

text \<open>The buffered writer as a sink for replies.\<close>

definition buffered_write_all ::
    "bytes \<Rightarrow> buf_writer \<times> io \<Rightarrow> (io_error, unit) result \<times> buf_writer \<times> io" where
  "buffered_write_all bs x = (case x of (w, io) \<Rightarrow> bw_write_all bs w io)"

interpretation buffered: byte_sink buffered_write_all "\<lambda>x. content (fst x)"
proof (unfold_locales, goal_cases)
  case (1 bs w r w')
  then show ?case
    using bw_write_all_content [of bs "fst w" "snd w" r "fst w'" "snd w'"]
    by (auto simp: buffered_write_all_def split: prod.splits)
qed

section \<open>Background threads\<close>

text \<open>
  The persistence and the sweeper thread sleep 100 ms at a time and act after 100 sleeps, or once
  more and for the last time when they find the flag up.  One wake-up: the number of sleeps since the
  last action, whether to act now, and whether to stop.
\<close>

definition background_wake :: "nat \<Rightarrow> bool \<Rightarrow> nat \<times> bool \<times> bool" where
  "background_wake n flag =
    (if flag then (n, True, True)
     else if Suc n = 100 then (0, True, False)
     else (Suc n, False, False))"

text \<open>The number of actions over a list of wake-ups, stopping at the first raised flag.\<close>

fun background_actions :: "nat \<Rightarrow> bool list \<Rightarrow> nat" where
  "background_actions n [] = 0"
| "background_actions n (flag # flags) =
    (case background_wake n flag of
       (n, act, stop) \<Rightarrow> (if act then 1 else 0) + (if stop then 0 else background_actions n flags))"

section \<open>The server\<close>

definition server_exec :: "(boxed_error, persister executor \<times> io) execute_op" where
  "server_exec cmd x clk =
    (case execute_logged persister_append cmd (fst x) clk (snd x) of
       (r, ex, clk, io) \<Rightarrow> (r, (ex, io), clk))"

record server =
  sv_shutdown :: bool
  sv_id :: "32 word"
  sv_accepted :: nat
  sv_sessions :: "read_half list"
  sv_world :: "(persister executor \<times> io) world"
  sv_wires :: "sender \<Rightarrow> buf_writer"

definition server_run_start :: "persister executor \<Rightarrow> clock \<Rightarrow> io \<Rightarrow> server" where
  "server_run_start ex clk io =
    \<lparr>sv_shutdown = False, sv_id = 0, sv_accepted = 0, sv_sessions = [],
     sv_world = \<lparr>w_exec = (ex, io), w_channels = channels_new,
       w_boxes = (\<lambda>_. \<lparr>mbox_queue = [], mbox_open = False\<rparr>), w_clock = clk\<rparr>,
     sv_wires = (\<lambda>_. \<lparr>bw_buf = [], bw_file = []\<rparr>)\<rparr>"

definition trigger_shutdown :: "server \<Rightarrow> server" where
  "trigger_shutdown s = s\<lparr>sv_shutdown := True\<rparr>"

text \<open>An accepted connection: the next id, and a session on a fresh mpsc.\<close>

definition accept_connection :: "read_event list \<Rightarrow> server \<Rightarrow> server" where
  "accept_connection socket s =
    (let i = sv_id s + 1;
         a = sv_accepted s;
         (rh, boxes) = session_split i socket a (w_boxes (sv_world s))
     in s\<lparr>sv_id := i, sv_accepted := Suc a, sv_sessions := sv_sessions s @ [rh],
          sv_world := (sv_world s)\<lparr>w_boxes := boxes\<rparr>\<rparr>)"

text \<open>A connection whose stream cannot be cloned: the id is used up, and the thread ends at once.\<close>

definition accept_unclonable :: "server \<Rightarrow> server" where
  "accept_unclonable s = s\<lparr>sv_id := sv_id s + 1, sv_accepted := Suc (sv_accepted s)\<rparr>"

text \<open>
  Once round the loop of session \<open>n\<close>, with the flag as it read it at the top; it may have been raised
  since.  When the loop breaks the session leaves its channels and nothing more is sent to its mailbox.
  What is queued there stays for the writer.
\<close>

definition session_turn :: "bool \<Rightarrow> nat \<Rightarrow> server \<Rightarrow> server" where
  "session_turn flag n s =
    (case repl_step server_exec flag (sv_sessions s ! n) (sv_world s) of
       (Continue, rh, w) \<Rightarrow> s\<lparr>sv_sessions := (sv_sessions s)[n := rh], sv_world := w\<rparr>
     | (Break r, rh, w) \<Rightarrow>
         s\<lparr>sv_sessions := take n (sv_sessions s) @ drop (Suc n) (sv_sessions s),
           sv_world := w\<lparr>w_channels := snd (unsubscribe_from_all rh (w_channels w)),
             w_boxes := (w_boxes w)(rh_sender rh := (w_boxes w (rh_sender rh))\<lparr>mbox_open := False\<rparr>)\<rparr>\<rparr>)"

text \<open>
  A turn of the writer at \<open>a\<close>, with the flag as it read it at the top.  It also drains a mailbox whose senders
  are gone; a writer that leaves takes the receiving end, and what is queued there, with it.
\<close>

definition deliver_turn :: "bool \<Rightarrow> sender \<Rightarrow> io \<Rightarrow> server \<Rightarrow> server" where
  "deliver_turn flag a io s =
    (let box = w_boxes (sv_world s) a
     in case writer_turn flag (mbox_queue box) (sv_wires s a) io of
          (fl, queue, wr, io) \<Rightarrow>
            s\<lparr>sv_wires := (sv_wires s)(a := wr),
              sv_world := (sv_world s)\<lparr>w_boxes := (w_boxes (sv_world s))
                (a := if fl = WriterExit then \<lparr>mbox_queue = [], mbox_open = False\<rparr>
                      else box\<lparr>mbox_queue := queue\<rparr>)\<rparr>\<rparr>)"

definition persist_tick :: "(data \<Rightarrow> (write_error, bytes) result) \<Rightarrow> server \<Rightarrow> server" where
  "persist_tick serialize s =
    (case w_exec (sv_world s) of
       (ex, io) \<Rightarrow>
         (case persister_snapshot serialize (exec_cache ex) (exec_repo ex) io of
            (r, p, io) \<Rightarrow>
              s\<lparr>sv_world := (sv_world s)\<lparr>w_exec := (ex\<lparr>exec_repo := p\<rparr>, io)\<rparr>\<rparr>))"

definition sweep_tick :: "server \<Rightarrow> server" where
  "sweep_tick s =
    (case w_exec (sv_world s) of
       (ex, io) \<Rightarrow>
         (case cache_remove_expired (exec_cache ex) (w_clock (sv_world s)) of
            (r, c, clk) \<Rightarrow>
              s\<lparr>sv_world := (sv_world s)\<lparr>w_exec := (ex\<lparr>exec_cache := c\<rparr>, io), w_clock := clk\<rparr>\<rparr>))"

inductive server_step :: "(data \<Rightarrow> (write_error, bytes) result) \<Rightarrow> server \<Rightarrow> server \<Rightarrow> bool"
  for serialize where
  accept: "\<not> sv_shutdown s \<Longrightarrow> server_step serialize s (accept_connection socket s)"
| unclonable: "\<not> sv_shutdown s \<Longrightarrow> server_step serialize s (accept_unclonable s)"
| turn: "n < length (sv_sessions s) \<Longrightarrow> (flag \<Longrightarrow> sv_shutdown s) \<Longrightarrow>
    server_step serialize s (session_turn flag n s)"
| delivery: "(flag \<Longrightarrow> sv_shutdown s) \<Longrightarrow> server_step serialize s (deliver_turn flag a io s)"
| persist: "server_step serialize s (persist_tick serialize s)"
| sweep: "server_step serialize s (sweep_tick s)"
| shutdown: "server_step serialize s (trigger_shutdown s)"

inductive server_reaches :: "(data \<Rightarrow> (write_error, bytes) result) \<Rightarrow> server \<Rightarrow> server \<Rightarrow> bool"
  for serialize where
  here: "server_reaches serialize s s"
| step: "server_reaches serialize s s' \<Longrightarrow> server_step serialize s' s'' \<Longrightarrow> server_reaches serialize s s''"

inductive_cases server_stepE: "server_step serialize s s'"

section \<open>The executor behind the sessions\<close>

definition cache_healthy :: "persister executor \<times> io \<Rightarrow> bool" where
  "cache_healthy x \<longleftrightarrow> \<not> cache_poisoned (exec_cache (fst x)) \<and> cache_invar (exec_cache (fst x))"

lemma execute_logged_cache_part:
  assumes "execute_logged app cmd ex clk io = (r, ex', clk', io')"
  shows "exec_cache ex' = fst (snd (cache_execute cmd (exec_cache ex) clk))"
  using assms
  by (auto simp: execute_logged_def execute_def map_err_def
      split: prod.splits sum.splits cache_command.splits)

interpretation port: execute_port server_exec cache_healthy
proof (unfold_locales, goal_cases)
  case (1 x cmd clk r x' clk')
  obtain r1 ex1 clk1 io1 where
      e: "execute_logged persister_append cmd (fst x) clk (snd x) = (r1, ex1, clk1, io1)"
    using prod_cases4 by blast
  with 1(2) have "x' = (ex1, io1)" by (simp add: server_exec_def)
  with 1(1) execute_logged_cache_part [OF e] show ?case
    by (simp add: cache_healthy_def cache_execute_invar)
qed

section \<open>Who is in the registry\<close>

lemma execute_channel_command_others:
  assumes "session_consistent rh cs" "execute_channel_command cmd rh cs boxes = (r, rh', cs', boxes')"
    and "j \<noteq> rh_id rh" "members_of (channels_map cs') ch j = Some a"
  shows "members_of (channels_map cs) ch j = Some a"
proof -
  have cs: "\<not> channels_poisoned cs" "registry_invar (channels_map cs)"
    using assms(1) by (simp_all add: session_consistent_def)
  show ?thesis
  proof (cases cmd)
    case (Subscribe ids)
    with assms(2-4) cs show ?thesis
      by (auto simp: execute_channel_command_def subscribe_loop_healthy registry.members_join_all)
  next
    case (Unsubscribe ids)
    with assms(2-4) cs show ?thesis
      by (auto simp: execute_channel_command_def unsubscribe_loop_healthy registry.members_leave_all
          Let_def split: if_splits)
  next
    case (Publish c message)
    obtain r1 cs1 boxes1 where
        pub: "channels_publish (reply_to_bytes (message_push c message)) c cs boxes = (r1, cs1, boxes1)"
      using prod_cases3 by blast
    with assms(2) Publish have "cs' = cs1"
      by (auto simp: execute_channel_command_def split: sum.splits)
    with publish_members(3) [OF cs(2, 1) pub] assms(4) show ?thesis by blast
  qed
qed

lemma run_command_others:
  assumes "session_consistent rh (w_channels w)" "run_command exec cmd rh w = (fl, rh', w')"
    and "j \<noteq> rh_id rh" "members_of (channels_map (w_channels w')) ch j = Some a"
  shows "members_of (channels_map (w_channels w)) ch j = Some a"
proof (cases cmd)
  case (Channel cc)
  obtain r rh1 cs1 boxes1 where
      x: "execute_channel_command cc rh (w_channels w) (w_boxes w) = (r, rh1, cs1, boxes1)"
    using prod_cases4 by blast
  with assms(2) Channel have "w_channels w' = cs1"
    by (auto simp: run_command_def send_reply_def split: sum.splits prod.splits)
  with execute_channel_command_others [OF assms(1) x assms(3)] assms(4) show ?thesis by simp
qed (use assms in \<open>auto simp: run_command_def send_reply_def split: sum.splits prod.splits\<close>)

lemma repl_step_others:
  assumes "session_consistent rh (w_channels w)" "repl_step exec flag rh w = (fl, rh', w')"
    and "j \<noteq> rh_id rh" "members_of (channels_map (w_channels w')) ch j = Some a"
  shows "members_of (channels_map (w_channels w)) ch j = Some a"
  using assms
  by (auto simp: repl_step_def Let_def split: if_splits prod.splits sum.splits option.splits
      read_half_error.splits dest!: run_command_others [rotated 1])

text \<open>
  The invariant of the running server.  Sessions are told apart by their mpsc; their ids are the
  residues of the count of connections, so they are distinct as long as that count fits 32 bits.
\<close>

definition sessions_distinct :: "server \<Rightarrow> bool" where
  "sessions_distinct s \<longleftrightarrow> distinct (map rh_sender (sv_sessions s)) \<and>
     sv_id s = word_of_nat (sv_accepted s) \<and>
     (\<forall>rh \<in> set (sv_sessions s). rh_sender rh < sv_accepted s \<and>
        rh_id rh = word_of_nat (Suc (rh_sender rh)) \<and> distinct (rh_subscriptions rh))"

definition registry_matches :: "server \<Rightarrow> bool" where
  "registry_matches s \<longleftrightarrow>
     \<not> channels_poisoned (w_channels (sv_world s)) \<and>
     registry_invar (channels_map (w_channels (sv_world s))) \<and>
     (\<forall>ch i a. members_of (channels_map (w_channels (sv_world s))) ch i = Some a \<longrightarrow>
        (\<exists>rh \<in> set (sv_sessions s). rh_id rh = i \<and> rh_sender rh = a \<and> ch \<in> set (rh_subscriptions rh)))"

definition server_invar :: "server \<Rightarrow> bool" where
  "server_invar s \<longleftrightarrow>
     cache_healthy (w_exec (sv_world s)) \<and> sessions_distinct s \<and> registry_matches s"

lemma word32_of_nat_inj:
  "Suc m < 2 ^ 32 \<Longrightarrow> Suc n < 2 ^ 32 \<Longrightarrow> (word_of_nat (Suc m) :: 32 word) = word_of_nat (Suc n) \<Longrightarrow> m = n"
  unfolding word_of_nat_eq_iff by (simp add: take_bit_nat_eq_self del: of_nat_Suc)

lemma same_id_same_session:
  assumes "sessions_distinct s" "sv_accepted s < 2 ^ 32"
    and "rh \<in> set (sv_sessions s)" "rh' \<in> set (sv_sessions s)" "rh_id rh = rh_id rh'"
  shows "rh = rh'"
proof -
  have "Suc (rh_sender rh) < 2 ^ 32" "Suc (rh_sender rh') < 2 ^ 32"
    using assms by (auto simp: sessions_distinct_def)
  moreover have "(word_of_nat (Suc (rh_sender rh)) :: 32 word) = word_of_nat (Suc (rh_sender rh'))"
    using assms by (metis sessions_distinct_def)
  ultimately have "rh_sender rh = rh_sender rh'" using word32_of_nat_inj by blast
  with assms(1, 3, 4) show ?thesis
    by (auto simp: sessions_distinct_def distinct_map dest: inj_onD)
qed

lemma registry_matchesD:
  assumes "registry_matches s" "members_of (channels_map (w_channels (sv_world s))) ch i = Some a"
  obtains rh where "rh \<in> set (sv_sessions s)" "rh_id rh = i" "rh_sender rh = a" "ch \<in> set (rh_subscriptions rh)"
  using assms unfolding registry_matches_def by blast

lemma session_is_consistent:
  assumes "server_invar s" "sv_accepted s < 2 ^ 32" "rh \<in> set (sv_sessions s)"
  shows "session_consistent rh (w_channels (sv_world s))"
proof -
  have parts: "sessions_distinct s" "registry_matches s" using assms(1) by (simp_all add: server_invar_def)
  have "ch \<in> set (rh_subscriptions rh) \<and> a = rh_sender rh"
    if m: "members_of (channels_map (w_channels (sv_world s))) ch (rh_id rh) = Some a" for ch a
  proof -
    obtain rh' where rh': "rh' \<in> set (sv_sessions s)" "rh_id rh' = rh_id rh" "rh_sender rh' = a"
        "ch \<in> set (rh_subscriptions rh')"
      using registry_matchesD [OF parts(2) m] .
    have "rh = rh'" by (rule same_id_same_session [OF parts(1) assms(2, 3) rh'(1) rh'(2) [symmetric]])
    with rh' show ?thesis by simp
  qed
  then show ?thesis
    using parts assms(3) by (simp add: session_consistent_def registry_matches_def sessions_distinct_def)
qed

lemma unsubscribe_from_all_members:
  assumes "session_consistent rh cs"
  shows "\<not> channels_poisoned (snd (unsubscribe_from_all rh cs))"
    and "registry_invar (channels_map (snd (unsubscribe_from_all rh cs)))"
    and "members_of (channels_map (snd (unsubscribe_from_all rh cs))) ch i = Some a \<Longrightarrow>
      i \<noteq> rh_id rh \<and> members_of (channels_map cs) ch i = Some a"
  using assms
  by (auto simp: unsubscribe_from_all_def session_consistent_def unsubscribe_each_healthy
      registry_invar_folds registry.members_leave_all split: if_splits)

lemma without_nth:
  assumes "distinct xs" "n < length xs"
  shows "set (take n xs @ drop (Suc n) xs) = set xs - {xs ! n}"
proof -
  have split: "xs = take n xs @ xs ! n # drop (Suc n) xs" using assms(2) by (rule id_take_nth_drop)
  have "set xs = set (take n xs @ xs ! n # drop (Suc n) xs)" using split by simp
  moreover have "distinct (take n xs @ xs ! n # drop (Suc n) xs)" using split assms(1) by simp
  ultimately show ?thesis by auto
qed

lemma distinct_without_nth: "distinct xs \<Longrightarrow> distinct (take n xs @ drop (Suc n) xs)"
  using set_take_disj_set_drop_if_distinct [of xs n "Suc n"] by simp

lemma sessions_distinct_list: "sessions_distinct s \<Longrightarrow> distinct (sv_sessions s)"
  by (simp add: sessions_distinct_def distinct_map)

lemma session_turn_continue_invar:
  assumes "server_invar s" "sv_accepted s < 2 ^ 32" "n < length (sv_sessions s)"
    and step: "repl_step server_exec flag (sv_sessions s ! n) (sv_world s) = (Continue, rh, w)"
  shows "server_invar (session_turn flag n s)"
proof -
  let ?rh = "sv_sessions s ! n"
  have mem: "?rh \<in> set (sv_sessions s)" using assms(3) by simp
  note ok = session_is_consistent [OF assms(1, 2) mem]
  note after = repl_step_consistent [OF ok step]
  have parts: "sessions_distinct s" "registry_matches s" using assms(1) by (simp_all add: server_invar_def)
  have turned: "session_turn flag n s = s\<lparr>sv_sessions := (sv_sessions s)[n := rh], sv_world := w\<rparr>"
    using step by (simp add: session_turn_def)
  have sets: "set ((sv_sessions s)[n := rh]) = insert rh (set (sv_sessions s) - {?rh})"
    by (rule set_update_distinct [OF sessions_distinct_list [OF parts(1)] assms(3)])
  have "map rh_sender ((sv_sessions s)[n := rh]) = map rh_sender (sv_sessions s)"
    using after assms(3) by (simp add: map_update list_update_same_conv)
  then have "sessions_distinct (session_turn flag n s)"
    using parts(1) after mem unfolding turned
    by (auto simp: sessions_distinct_def sets session_consistent_def)
  moreover have "registry_matches (session_turn flag n s)"
  proof -
    have "\<exists>r \<in> insert rh (set (sv_sessions s) - {?rh}). rh_id r = i \<and> rh_sender r = a \<and> ch \<in> set (rh_subscriptions r)"
      if m: "members_of (channels_map (w_channels w)) ch i = Some a" for ch i a
    proof (cases "i = rh_id ?rh")
      case True
      with m after show ?thesis by (auto simp: session_consistent_def)
    next
      case False
      from registry_matchesD [OF parts(2) repl_step_others [OF ok step False m]] False
      show ?thesis by (metis Diff_iff insertCI singletonD)
    qed
    with after show ?thesis unfolding turned by (simp add: registry_matches_def sets session_consistent_def)
  qed
  moreover have "cache_healthy (w_exec w)"
    using port.repl_step_inv [OF _ step] assms(1) by (simp add: server_invar_def)
  ultimately show ?thesis by (simp add: server_invar_def turned)
qed

lemma session_turn_break_invar:
  assumes "server_invar s" "sv_accepted s < 2 ^ 32" "n < length (sv_sessions s)"
    and step: "repl_step server_exec flag (sv_sessions s ! n) (sv_world s) = (Break r, rh, w)"
  shows "server_invar (session_turn flag n s)"
proof -
  let ?rh = "sv_sessions s ! n" and ?rest = "take n (sv_sessions s) @ drop (Suc n) (sv_sessions s)"
  have mem: "?rh \<in> set (sv_sessions s)" using assms(3) by simp
  note ok = session_is_consistent [OF assms(1, 2) mem]
  note after = repl_step_consistent [OF ok step]
  have parts: "sessions_distinct s" "registry_matches s" using assms(1) by (simp_all add: server_invar_def)
  have sets: "set ?rest = set (sv_sessions s) - {?rh}"
    by (rule without_nth [OF sessions_distinct_list [OF parts(1)] assms(3)])
  note left = unsubscribe_from_all_members [of rh "w_channels w"]
  have "distinct (map rh_sender ?rest)"
    using distinct_without_nth [of "map rh_sender (sv_sessions s)" n] parts(1)
    by (simp add: sessions_distinct_def take_map drop_map)
  then have "sessions_distinct (session_turn flag n s)"
    using parts(1) sets step unfolding session_turn_def by (simp add: sessions_distinct_def)
  moreover have "registry_matches (session_turn flag n s)"
  proof -
    have "\<exists>r \<in> set ?rest. rh_id r = i \<and> rh_sender r = a \<and> ch \<in> set (rh_subscriptions r)"
      if m: "members_of (channels_map (snd (unsubscribe_from_all rh (w_channels w)))) ch i = Some a" for ch i a
    proof -
      have "i \<noteq> rh_id ?rh" "members_of (channels_map (w_channels w)) ch i = Some a"
        using left(3) [OF _ m] after by simp_all
      from registry_matchesD [OF parts(2) repl_step_others [OF ok step this]] this(1)
      show ?thesis unfolding sets by (metis Diff_iff singletonD)
    qed
    with after left(1, 2) step show ?thesis
      unfolding session_turn_def by (simp add: registry_matches_def)
  qed
  moreover have "cache_healthy (w_exec w)"
    using port.repl_step_inv [OF _ step] assms(1) by (simp add: server_invar_def)
  ultimately show ?thesis using step by (simp add: server_invar_def session_turn_def)
qed

lemma session_turn_invar:
  assumes "server_invar s" "sv_accepted s < 2 ^ 32" "n < length (sv_sessions s)"
  shows "server_invar (session_turn flag n s)"
proof -
  obtain fl rh w where
      step: "repl_step server_exec flag (sv_sessions s ! n) (sv_world s) = (fl, rh, w)"
    using prod_cases3 by blast
  show ?thesis
  proof (cases fl)
    case Continue
    with session_turn_continue_invar [OF assms] step show ?thesis by simp
  next
    case (Break r)
    with session_turn_break_invar [OF assms] step show ?thesis by simp
  qed
qed

lemma accept_connection_invar:
  assumes "server_invar s"
  shows "server_invar (accept_connection socket s)"
proof -
  let ?rh = "\<lparr>rh_id = sv_id s + 1, rh_reader = session_reader_new socket, rh_sender = sv_accepted s,
    rh_subscriptions = []\<rparr>"
  have parts: "sessions_distinct s" "registry_matches s" using assms by (simp_all add: server_invar_def)
  have "sessions_distinct (accept_connection socket s)"
    using parts(1)
    by (auto simp: sessions_distinct_def accept_connection_def session_split_def Let_def)
  moreover have "registry_matches (accept_connection socket s)"
    using parts(2) unfolding registry_matches_def accept_connection_def session_split_def Let_def
    by auto
  ultimately show ?thesis
    using assms by (simp add: server_invar_def accept_connection_def session_split_def Let_def)
qed

lemma sweep_tick_healthy:
  "cache_healthy (w_exec (sv_world s)) \<Longrightarrow> cache_healthy (w_exec (sv_world (sweep_tick s)))"
  using cache_remove_expired_invar [of "exec_cache (fst (w_exec (sv_world s)))" "w_clock (sv_world s)"]
  by (auto simp: sweep_tick_def cache_healthy_def cache_remove_expired_def Let_def now_eq
      split: prod.splits sum.splits)

lemma server_step_invar:
  assumes "server_step serialize s s'" "server_invar s" "sv_accepted s' < 2 ^ 32"
  shows "server_invar s'" and "sv_accepted s \<le> sv_accepted s'"
proof -
  have "(sv_accepted s < 2 ^ 32 \<longrightarrow> server_invar s') \<and> sv_accepted s \<le> sv_accepted s'"
    using assms(1, 2)
  proof cases
    case (accept socket)
    with accept_connection_invar [OF assms(2)] show ?thesis
      by (simp add: accept_connection_def session_split_def Let_def)
  next
    case unclonable
    with assms(2) show ?thesis
      by (auto simp: accept_unclonable_def server_invar_def sessions_distinct_def registry_matches_def
          of_nat_Suc)
  next
    case (turn n flag)
    with session_turn_invar [OF assms(2)] show ?thesis
      by (auto simp: session_turn_def split: prod.splits flow.splits)
  next
    case (delivery flag a io)
    with assms(2) show ?thesis
      by (auto simp: deliver_turn_def server_invar_def sessions_distinct_def registry_matches_def Let_def
          split: prod.splits)
  next
    case persist
    with assms(2) show ?thesis
      by (auto simp: persist_tick_def server_invar_def sessions_distinct_def registry_matches_def
          cache_healthy_def split: prod.splits)
  next
    case sweep
    with assms(2) sweep_tick_healthy [of s] show ?thesis
      by (auto simp: sweep_tick_def server_invar_def sessions_distinct_def registry_matches_def
          split: prod.splits)
  next
    case shutdown
    with assms(2) show ?thesis
      by (auto simp: trigger_shutdown_def server_invar_def sessions_distinct_def registry_matches_def)
  qed
  with assms(3) show "server_invar s'" and "sv_accepted s \<le> sv_accepted s'" by auto
qed

lemma server_step_accepted: "server_step serialize s s' \<Longrightarrow> sv_accepted s \<le> sv_accepted s'"
  by (erule server_stepE)
    (auto simp: accept_connection_def accept_unclonable_def session_split_def session_turn_def
      deliver_turn_def persist_tick_def sweep_tick_def trigger_shutdown_def Let_def split: prod.splits flow.splits)

lemma server_reaches_invar:
  "server_reaches serialize s s' \<Longrightarrow> server_invar s \<Longrightarrow> sv_accepted s' < 2 ^ 32 \<Longrightarrow> server_invar s'"
proof (induction rule: server_reaches.induct)
  case (here s)
  then show ?case by simp
next
  case (step s s' s'')
  with server_step_accepted [OF step.hyps(2)] server_step_invar(1) [OF step.hyps(2)] show ?case by simp
qed

lemma server_start_invar: "cache_healthy (ex, io) \<Longrightarrow> server_invar (server_run_start ex clk io)"
  by (simp add: server_invar_def server_run_start_def sessions_distinct_def registry_matches_def
      channels_new_def registry_invar_def members_of_def)

section \<open>Shutting down\<close>

lemma session_turn_frame:
  "sv_shutdown (session_turn flag n s) = sv_shutdown s" "sv_accepted (session_turn flag n s) = sv_accepted s"
  "length (sv_sessions (session_turn flag n s)) \<le> length (sv_sessions s)"
  by (auto simp: session_turn_def min_def split: prod.split flow.split)

lemma session_turn_shutdown:
  assumes "sv_shutdown s" "sv_sessions s = rh # rest"
  shows "sv_sessions (session_turn True 0 s) = rest" "sv_shutdown (session_turn True 0 s)"
    "sv_accepted (session_turn True 0 s) = sv_accepted s"
  using assms by (simp_all add: session_turn_def repl_step_def)

lemma server_reaches_more:
  "server_reaches serialize s' s'' \<Longrightarrow> server_step serialize s s' \<Longrightarrow> server_reaches serialize s s''"
  by (induction rule: server_reaches.induct) (auto intro: server_reaches.intros)

lemma shutdown_ends_sessions:
  "sv_shutdown s \<Longrightarrow> \<exists>s'. server_reaches serialize s s' \<and> sv_sessions s' = [] \<and> sv_accepted s' = sv_accepted s"
proof (induction "sv_sessions s" arbitrary: s)
  case Nil
  then show ?case by (metis server_reaches.here)
next
  case (Cons rh rest)
  note turn = session_turn_shutdown [OF Cons.prems Cons.hyps(2) [symmetric]]
  from Cons.hyps(1) [OF turn(1) [symmetric] turn(2)] obtain s' where
      s': "server_reaches serialize (session_turn True 0 s) s'" "sv_sessions s' = []"
        "sv_accepted s' = sv_accepted s" using turn(3) by auto
  have "server_step serialize s (session_turn True 0 s)"
    using Cons.hyps(2) Cons.prems by (intro server_step.turn) (metis length_greater_0_conv list.distinct(1))
  with server_reaches_more [OF s'(1)] s'(2, 3) show ?case by blast
qed

lemma shutdown_run:
  assumes "server_reaches serialize s s'" "sv_shutdown s"
  shows "sv_shutdown s' \<and> sv_accepted s' = sv_accepted s \<and>
    length (sv_sessions s') \<le> length (sv_sessions s) \<and>
    (\<forall>n < length (sv_sessions s'). length (sv_sessions (session_turn True n s')) < length (sv_sessions s'))"
proof -
  have "sv_shutdown s' \<and> sv_accepted s' = sv_accepted s \<and> length (sv_sessions s') \<le> length (sv_sessions s)"
    using assms
  proof induction
    case (step s s' s'')
    from step.hyps(2) step.IH step.prems show ?case
      by cases (auto simp: session_turn_frame deliver_turn_def persist_tick_def sweep_tick_def
          trigger_shutdown_def Let_def split: prod.splits intro: le_trans [OF session_turn_frame(3)])
  qed simp
  then show ?thesis by (auto simp: session_turn_def repl_step_def)
qed

section \<open>Delivery\<close>

lemma writer_turn_ok:
  "\<exists>wr'. writer_turn False (msg # queue) wr io_ok = (WriterWrote, queue, wr', io_ok) \<and>
     bw_file wr' = bw_file wr @ bw_buf wr @ msg \<and> bw_buf wr' = []"
proof -
  have "\<exists>w1. bw_write_all msg wr io_ok = (Inr (), w1, io_ok)"
    by (simp add: bw_write_all_def bw_store_def bw_flush_def Let_def)
  then obtain w1 where w: "bw_write_all msg wr io_ok = (Inr (), w1, io_ok)" by blast
  from bw_write_all_content [OF w] have "content w1 = content wr @ msg" by auto
  with w show ?thesis by (simp add: writer_turn_def bw_flush_def)
qed

lemma writer_loop_idle: "writer_loop (replicate k False) [] wr io = ([], wr, io)"
  by (induction k) (simp_all add: writer_turn_def)

section \<open>Properties\<close>

text \<open>
  C13: in every state the running server reaches, with whatever interleaving of its threads and fewer
  than \<open>2 ^ 32\<close> connections so far, the registry and the sessions agree: each registration belongs
  to one connected session, under its id and its own sender, and the session knows of it; the cache's
  invariant holds and no lock is poisoned.
\<close>

theorem registry_agrees_with_sessions:
  assumes "cache_healthy (ex, io)" "server_reaches serialize (server_run_start ex clk io) s"
    and "sv_accepted s < 2 ^ 32"
  shows "cache_healthy (w_exec (sv_world s)) \<and>
    \<not> channels_poisoned (w_channels (sv_world s)) \<and>
    (\<forall>ch i a. members_of (channels_map (w_channels (sv_world s))) ch i = Some a \<longrightarrow>
      (\<exists>!rh. rh \<in> set (sv_sessions s) \<and> rh_id rh = i \<and> rh_sender rh = a) \<and>
      (\<exists>rh \<in> set (sv_sessions s). rh_id rh = i \<and> ch \<in> set (rh_subscriptions rh)))"
proof -
  have invar: "server_invar s"
    by (rule server_reaches_invar [OF assms(2) server_start_invar [OF assms(1)] assms(3)])
  then have parts: "sessions_distinct s" "registry_matches s" by (simp_all add: server_invar_def)
  have "(\<exists>!rh. rh \<in> set (sv_sessions s) \<and> rh_id rh = i \<and> rh_sender rh = a) \<and>
      (\<exists>rh \<in> set (sv_sessions s). rh_id rh = i \<and> ch \<in> set (rh_subscriptions rh))"
    if m: "members_of (channels_map (w_channels (sv_world s))) ch i = Some a" for ch i a
    using registry_matchesD [OF parts(2) m] same_id_same_session [OF parts(1) assms(3)] by metis
  with invar parts(2) show ?thesis by (simp add: server_invar_def registry_matches_def)
qed

theorem registry_agrees_with_sessions_witness:
  "cache_healthy (fresh_executor, io_ok) \<and>
   server_reaches dump (server_run_start fresh_executor (clock_at (Milliseconds 1)) io_ok)
     (accept_connection [] (server_run_start fresh_executor (clock_at (Milliseconds 1)) io_ok)) \<and>
   \<not> channels_poisoned (w_channels (sv_world
     (accept_connection [] (server_run_start fresh_executor (clock_at (Milliseconds 1)) io_ok))))"
proof -
  have h: "cache_healthy (fresh_executor, io_ok)"
    by (simp add: cache_healthy_def cache_invar_def) (simp add: cache_new_def)
  have r: "server_reaches dump (server_run_start fresh_executor (clock_at (Milliseconds 1)) io_ok)
      (accept_connection [] (server_run_start fresh_executor (clock_at (Milliseconds 1)) io_ok))"
    by (rule server_reaches.step [OF server_reaches.here server_step.accept])
      (simp add: server_run_start_def)
  have "sv_accepted (accept_connection []
      (server_run_start fresh_executor (clock_at (Milliseconds 1)) io_ok)) < 2 ^ 32"
    by (simp add: accept_connection_def server_run_start_def session_split_def)
  from registry_agrees_with_sessions [OF h r this] h r show ?thesis by blast
qed

text \<open>
  shutdown ends.  Once the flag is up, on every way the threads can interleave, no session is
  added and each session leaves at its next turn; so the server reaches a state with no sessions, and
  then the registry is empty too.
\<close>

theorem shutdown_drains:
  assumes "server_invar s" "sv_accepted s < 2 ^ 32"
  shows "(\<forall>s'. server_reaches serialize (trigger_shutdown s) s' \<longrightarrow>
      sv_accepted s' = sv_accepted s \<and> length (sv_sessions s') \<le> length (sv_sessions s) \<and>
      (\<forall>n < length (sv_sessions s').
        length (sv_sessions (session_turn True n s')) < length (sv_sessions s'))) \<and>
    (\<exists>s'. server_reaches serialize (trigger_shutdown s) s' \<and> sv_sessions s' = [] \<and>
      (\<forall>ch i. members_of (channels_map (w_channels (sv_world s'))) ch i = None))"
proof -
  have start: "server_invar (trigger_shutdown s)" "sv_accepted (trigger_shutdown s) = sv_accepted s"
    "sv_shutdown (trigger_shutdown s)"
    using assms by (auto simp: trigger_shutdown_def server_invar_def sessions_distinct_def registry_matches_def)
  obtain s' where s': "server_reaches serialize (trigger_shutdown s) s'" "sv_sessions s' = []"
      "sv_accepted s' = sv_accepted s"
    using shutdown_ends_sessions [OF start(3)] start(2) by metis
  have "server_invar s'"
    using server_reaches_invar [OF s'(1) start(1)] s'(3) assms(2) by simp
  then have "\<forall>ch i. members_of (channels_map (w_channels (sv_world s'))) ch i = None"
    using s'(2) by (auto simp: server_invar_def registry_matches_def)
  with s'(1, 2) shutdown_run [OF _ start(3)] start(2) show ?thesis
    by (auto simp: trigger_shutdown_def)
qed

theorem shutdown_drains_witness:
  "\<exists>s'. server_reaches dump (trigger_shutdown
      (server_run_start fresh_executor (clock_at (Milliseconds 1)) io_ok)) s' \<and> sv_sessions s' = [] \<and>
    (\<forall>ch i. members_of (channels_map (w_channels (sv_world s'))) ch i = None)"
proof -
  have "server_invar (server_run_start fresh_executor (clock_at (Milliseconds 1)) io_ok)"
    by (rule server_start_invar) (simp add: cache_healthy_def cache_invar_def, simp add: cache_new_def)
  from shutdown_drains [OF this, of dump] show ?thesis by (simp add: server_run_start_def)
qed

text \<open>
  a writer that meets no write error puts every queued message on the wire, whole and in the
  order they were queued, one per turn, leaving nothing in its queue or its buffer.
\<close>

theorem writer_delivers_in_order:
  "\<exists>wr'. writer_loop (replicate (Suc (length queue) + k) False) (msg # queue) wr io_ok = ([], wr', io_ok) \<and>
     bw_file wr' = bw_file wr @ bw_buf wr @ msg @ concat queue \<and> bw_buf wr' = []"
proof (induction queue arbitrary: msg wr)
  case Nil
  obtain wr' where w: "writer_turn False [msg] wr io_ok = (WriterWrote, [], wr', io_ok)"
      "bw_file wr' = bw_file wr @ bw_buf wr @ msg" "bw_buf wr' = []"
    using writer_turn_ok by blast
  then show ?case by (simp add: writer_loop_idle)
next
  case (Cons m queue)
  obtain wr1 where w: "writer_turn False (msg # m # queue) wr io_ok = (WriterWrote, m # queue, wr1, io_ok)"
      "bw_file wr1 = bw_file wr @ bw_buf wr @ msg" "bw_buf wr1 = []"
    using writer_turn_ok by blast
  from Cons.IH [of m wr1] w show ?case by simp
qed

text \<open>
  \<^verbatim>\<open>Replies::write_to\<close> is \<^verbatim>\<open>to_bytes\<close> on a writer.  Into a vector it puts exactly those bytes;
  into a buffered socket, whose writes may fail at any point, all of them when it reports success, and
  otherwise a part from the front, so a client never sees the bytes of a later reply without all of
  those before it.
\<close>

theorem replies_written_in_order:
  "replies_write_to vec_write_all rs bs = (Inr (), bs @ replies_to_bytes rs) \<and>
   (\<exists>r w' io'. replies_write_to buffered_write_all rs (w, io) = (r, w', io') \<and>
      (r = Inr () \<and> content w' = content w @ replies_to_bytes rs \<or>
       (\<exists>e p. r = Inl e \<and> prefix p (replies_to_bytes rs) \<and> content w' = content w @ p)))"
proof -
  obtain r w' io' where run: "replies_write_to buffered_write_all rs (w, io) = (r, w', io')"
    using prod_cases3 by blast
  from buffered.replies_write_to_held [OF run]
  have "r = Inr () \<and> content w' = content w @ replies_to_bytes rs \<or>
      (\<exists>e p. r = Inl e \<and> prefix p (replies_to_bytes rs) \<and> content w' = content w @ p)"
    by (cases r) auto
  moreover have "replies_write_to vec_write_all rs bs = (Inr (), bs @ replies_to_bytes rs)"
    by (simp add: replies_write_to_def replies_to_bytes_def replies_write_loop_vec)
  ultimately show ?thesis using run by blast
qed

text \<open>
  a background thread acts once in a hundred wake-ups while the server runs, and exactly once
  more when it first finds the flag up, after which it stops.
\<close>

theorem background_schedule:
  "background_actions 0 (replicate k False) = k div 100 \<and>
   background_actions 0 (replicate k False @ True # rest) = k div 100 + 1"
proof -
  have run: "n < 100 \<Longrightarrow> background_actions n (replicate k False) = (n + k) div 100"
    "n < 100 \<Longrightarrow> background_actions n (replicate k False @ True # rest) = (n + k) div 100 + 1" for n
  proof (induction k arbitrary: n)
    case 0
    { case 1 then show ?case by simp }
    { case 2 then show ?case by (simp add: background_wake_def) }
  next
    case (Suc k)
    { case 1 with Suc(1) [of "Suc n"] Suc(1) [of 0] show ?case
        by (cases "Suc n = 100") (simp_all add: background_wake_def) }
    { case 2 with Suc(2) [of "Suc n"] Suc(2) [of 0] show ?case
        by (cases "Suc n = 100") (simp_all add: background_wake_def) }
  qed
  from run(1) [of 0] run(2) [of 0] show ?thesis by simp
qed

end
