(* ===== verification/Lifecycle.thy ===== *)
theory Lifecycle
  imports Server
begin

text \<open>
  The rest of \<^verbatim>\<open>Server::run\<close> (\<^verbatim>\<open>inbound/server.rs\<close>) and \<^verbatim>\<open>main.rs\<close>: the accept loop with its two
  looks at the shutdown flag, the stdin and the signal thread that raise it, the order in which startup
  can fail, and the exit code.  The loop and the threads act on the state of \<open>Server\<close>, so what
  holds of its steps holds of them.
\<close>

section \<open>Stdin\<close>

text \<open>
  A line is a list of Unicode scalar values.  \<^verbatim>\<open>str::trim\<close> strips the characters with the property
  \<open>White_Space\<close>.  The letters of the two words come out of \<^verbatim>\<open>str::to_lowercase\<close> only for themselves
  and their capitals, so folding these is enough to compare with them.
\<close>

definition is_whitespace :: "nat \<Rightarrow> bool" where
  "is_whitespace c \<longleftrightarrow>
     9 \<le> c \<and> c \<le> 13 \<or> 8192 \<le> c \<and> c \<le> 8202 \<or>
     c \<in> set [32, 133, 160, 5760, 8232, 8233, 8239, 8287, 12288]"

definition trim :: "nat list \<Rightarrow> nat list" where
  "trim s = rev (dropWhile is_whitespace (rev (dropWhile is_whitespace s)))"

definition fold_case :: "nat \<Rightarrow> nat" where
  "fold_case c = (if 65 \<le> c \<and> c \<le> 90 then c + 32 else c)"

definition quit_word :: "nat list" where
  "quit_word = [113, 117, 105, 116]"

definition exit_word :: "nat list" where
  "exit_word = [101, 120, 105, 116]"

datatype stdin_read = StdinEof | StdinLine "nat list" | StdinError

definition asks_to_stop :: "stdin_read \<Rightarrow> bool" where
  "asks_to_stop r =
    (case r of
       StdinEof \<Rightarrow> True
     | StdinLine s \<Rightarrow> map fold_case (trim s) = quit_word \<or> map fold_case (trim s) = exit_word
     | StdinError \<Rightarrow> False)"

text \<open>The thread over what \<^verbatim>\<open>read_line\<close> returns, call by call, when a terminal is attached.\<close>

fun stdin_loop :: "stdin_read list \<Rightarrow> server \<Rightarrow> server" where
  "stdin_loop [] s = s"
| "stdin_loop (r # rs) s = (if asks_to_stop r then trigger_shutdown s else stdin_loop rs s)"

definition stdin_thread :: "bool \<Rightarrow> stdin_read list \<Rightarrow> server \<Rightarrow> server" where
  "stdin_thread is_terminal rs s = (if is_terminal then stdin_loop rs s else s)"

text \<open>The signal thread: a signal, or the closed handle that ends the iterator.\<close>

definition signal_thread :: "bool \<Rightarrow> server \<Rightarrow> server" where
  "signal_thread signalled s = (if signalled then trigger_shutdown s else s)"

section \<open>The accept loop\<close>

text \<open>
  One time round: the flag at the top, what \<^verbatim>\<open>accept\<close> returned, and the flag as read after it.  The
  loop over a list of rounds says whether it has stopped; otherwise it is waiting for the next one.
\<close>

datatype accepted = Accepted "read_event list" | AcceptedUnclonable | AcceptFailed

record accept_round =
  flag_before :: bool
  round_result :: accepted
  flag_after :: bool

fun accept_loop :: "accept_round list \<Rightarrow> server \<Rightarrow> bool \<times> server" where
  "accept_loop [] s = (False, s)"
| "accept_loop (r # rs) s =
    (if flag_before r then (True, s)
     else case round_result r of
       AcceptFailed \<Rightarrow> accept_loop rs s
     | Accepted socket \<Rightarrow>
         if flag_after r then (True, s) else accept_loop rs (accept_connection socket s)
     | AcceptedUnclonable \<Rightarrow>
         if flag_after r then (True, s) else accept_loop rs (accept_unclonable s))"

section \<open>The whole run\<close>





section \<open>The loop as steps of the server\<close>

text \<open>The rounds before the flag is seen, and the number of connections among them.\<close>

fun sees_flag :: "accept_round \<Rightarrow> bool" where
  "sees_flag r \<longleftrightarrow> flag_before r \<or> flag_after r \<and> round_result r \<noteq> AcceptFailed"

definition rounds_served :: "accept_round list \<Rightarrow> accept_round list" where
  "rounds_served rs = filter (\<lambda>r. round_result r \<noteq> AcceptFailed) (takeWhile (\<lambda>r. \<not> sees_flag r) rs)"

lemma accept_loop_stops: "fst (accept_loop rs s) \<longleftrightarrow> list_ex sees_flag rs"
  by (induction rs arbitrary: s) (auto split: accepted.split)

lemma accept_loop_counts:
  "sv_accepted (snd (accept_loop rs s)) = sv_accepted s + length (rounds_served rs) \<and>
   sv_id (snd (accept_loop rs s)) = sv_id s + word_of_nat (length (rounds_served rs))"
  by (induction rs arbitrary: s)
    (auto simp: rounds_served_def accept_connection_def accept_unclonable_def session_split_def Let_def
      split: accepted.split)

lemma accept_loop_reaches:
  "\<not> sv_shutdown s \<Longrightarrow> server_reaches serialize s0 s \<Longrightarrow>
   server_reaches serialize s0 (snd (accept_loop rs s)) \<and> \<not> sv_shutdown (snd (accept_loop rs s))"
proof (induction rs arbitrary: s)
  case Nil
  then show ?case by simp
next
  case (Cons r rs)
  have flags: "\<not> sv_shutdown (accept_connection socket s)" "\<not> sv_shutdown (accept_unclonable s)" for socket
    using Cons.prems(1)
    by (simp_all add: accept_connection_def accept_unclonable_def session_split_def Let_def)
  have steps: "server_reaches serialize s0 (accept_connection socket s)"
      "server_reaches serialize s0 (accept_unclonable s)" for socket
    using Cons.prems by (auto intro: server_reaches.step server_step.accept server_step.unclonable)
  show ?case
    using Cons.prems Cons.IH [OF flags(1) steps(1)] Cons.IH [OF flags(2) steps(2)] Cons.IH [OF Cons.prems]
    by (auto split: accepted.split)
qed

text \<open>The sessions the loop leaves behind: one for each stream that could be cloned, in order.\<close>

definition sockets_served :: "accept_round list \<Rightarrow> read_event list list" where
  "sockets_served rs =
     concat (map (\<lambda>r. case round_result r of Accepted socket \<Rightarrow> [socket] | _ \<Rightarrow> []) (rounds_served rs))"

lemma accept_loop_sockets:
  "map (sr_socket \<circ> rh_reader) (sv_sessions (snd (accept_loop rs s))) =
     map (sr_socket \<circ> rh_reader) (sv_sessions s) @ sockets_served rs"
  by (induction rs arbitrary: s)
    (auto simp: sockets_served_def rounds_served_def accept_connection_def accept_unclonable_def
      session_split_def session_reader_new_def Let_def split: accepted.split)

section \<open>Lines that stop the server\<close>

lemma dropWhile_split: "\<exists>pre. xs = pre @ dropWhile P xs \<and> list_all P pre"
  by (rule exI [of _ "takeWhile P xs"]) (auto simp: list_all_iff dest: set_takeWhileD)

lemma trim_split: "\<exists>pre post. s = pre @ trim s @ post \<and> list_all is_whitespace pre \<and> list_all is_whitespace post"
proof -
  obtain pre where pre: "s = pre @ dropWhile is_whitespace s" "list_all is_whitespace pre"
    using dropWhile_split [of s is_whitespace] by blast
  obtain post where "rev (dropWhile is_whitespace s) =
      post @ dropWhile is_whitespace (rev (dropWhile is_whitespace s))" "list_all is_whitespace post"
    using dropWhile_split [of "rev (dropWhile is_whitespace s)" is_whitespace] by blast
  then have "dropWhile is_whitespace s = trim s @ rev post" "list_all is_whitespace (rev post)"
    unfolding trim_def by (metis rev_append rev_rev_ident, simp)
  with pre show ?thesis by metis
qed

lemma trim_around:
  assumes "list_all is_whitespace pre" "list_all is_whitespace post" "w \<noteq> []"
    and "\<not> is_whitespace (hd w)" "\<not> is_whitespace (last w)"
  shows "trim (pre @ w @ post) = w"
proof -
  have skip: "dropWhile is_whitespace (xs @ ys) = ys"
    if "list_all is_whitespace xs" "ys \<noteq> []" "\<not> is_whitespace (hd ys)" for xs ys
    using that by (simp add: list_all_iff dropWhile_append2 dropWhile_eq_self_iff)
  have "dropWhile is_whitespace (pre @ w @ post) = w @ post"
    using assms by (intro skip) (simp_all add: hd_append)
  moreover have "dropWhile is_whitespace (rev post @ rev w) = rev w"
    using assms by (intro skip) (simp_all add: hd_rev list_all_iff)
  ultimately show ?thesis by (simp add: trim_def)
qed

lemma folded_letter: "fold_case c \<in> {97..122} \<Longrightarrow> \<not> is_whitespace c"
  by (auto simp: fold_case_def is_whitespace_def split: if_splits)

lemma stop_word_bare:
  assumes "map fold_case w \<in> {quit_word, exit_word}"
  shows "w \<noteq> []" "\<not> is_whitespace (hd w)" "\<not> is_whitespace (last w)"
proof -
  from assms have four: "length w = 4"
    by (auto simp: quit_word_def exit_word_def dest: arg_cong [of _ _ length])
  then obtain a b c d where w: "w = [a, b, c, d]"
    by (auto simp: length_Suc_conv numeral_eq_Suc)
  with assms have "fold_case a \<in> {97..122}" "fold_case d \<in> {97..122}"
    by (auto simp: quit_word_def exit_word_def)
  with folded_letter w show "w \<noteq> []" "\<not> is_whitespace (hd w)" "\<not> is_whitespace (last w)" by auto
qed

section \<open>Properties\<close>

text \<open>
  the accept loop stops at the first round that finds the flag up, before or after \<^verbatim>\<open>accept\<close>, and
  only there; every connection before that round gets a session on its own socket, unless its stream
  cannot be cloned, and none after it does, the knock of the shutdown included; each of them has used
  up one id, wrapping at 32 bits.
\<close>

theorem accept_loop_until_flag:
  "(fst (accept_loop rs s) \<longleftrightarrow> list_ex sees_flag rs) \<and>
   map (sr_socket \<circ> rh_reader) (sv_sessions (snd (accept_loop rs s))) =
     map (sr_socket \<circ> rh_reader) (sv_sessions s) @ sockets_served rs \<and>
   sv_id (snd (accept_loop rs s)) = sv_id s + word_of_nat (length (rounds_served rs))"
  using accept_loop_stops accept_loop_sockets accept_loop_counts by blast



text \<open>
  with a terminal attached, the server stops at the end of its input or at a line that is \<^verbatim>\<open>quit\<close> or
  \<^verbatim>\<open>exit\<close>, in whatever capitals and with whatever white space around it, and at no other line; an
  error on stdin does not stop it, and without a terminal nothing on stdin does.
\<close>

theorem stdin_stops_server:
  "stdin_thread is_terminal rs s =
     (if is_terminal \<and>
        (\<exists>r \<in> set rs. r = StdinEof \<or>
          (\<exists>pre w post. r = StdinLine (pre @ w @ post) \<and> map fold_case w \<in> {quit_word, exit_word} \<and>
             list_all is_whitespace pre \<and> list_all is_whitespace post))
      then trigger_shutdown s else s)"
proof -
  have line: "asks_to_stop (StdinLine l) \<longleftrightarrow>
      (\<exists>pre w post. l = pre @ w @ post \<and> map fold_case w \<in> {quit_word, exit_word} \<and>
         list_all is_whitespace pre \<and> list_all is_whitespace post)" for l
  proof
    assume "asks_to_stop (StdinLine l)"
    then have "map fold_case (trim l) \<in> {quit_word, exit_word}" by (simp add: asks_to_stop_def)
    with trim_split [of l] show "\<exists>pre w post. l = pre @ w @ post \<and>
        map fold_case w \<in> {quit_word, exit_word} \<and> list_all is_whitespace pre \<and> list_all is_whitespace post"
      by metis
  next
    assume "\<exists>pre w post. l = pre @ w @ post \<and> map fold_case w \<in> {quit_word, exit_word} \<and>
        list_all is_whitespace pre \<and> list_all is_whitespace post"
    with stop_word_bare trim_around show "asks_to_stop (StdinLine l)" by (fastforce simp: asks_to_stop_def)
  qed
  have stop: "asks_to_stop r \<longleftrightarrow> r = StdinEof \<or>
      (\<exists>pre w post. r = StdinLine (pre @ w @ post) \<and> map fold_case w \<in> {quit_word, exit_word} \<and>
         list_all is_whitespace pre \<and> list_all is_whitespace post)" for r
    using line by (cases r) (auto simp: asks_to_stop_def)
  have "stdin_loop rs s = (if \<exists>r \<in> set rs. asks_to_stop r then trigger_shutdown s else s)"
    by (induction rs) auto
  then show ?thesis unfolding stdin_thread_def stop by (cases is_terminal) (simp_all only: simp_thms if_True if_False)
qed

end
