(* ===== verification/Interleaving.thy ===== *)
theory Interleaving
  imports Recovery
begin

text \<open>
  \<^verbatim>\<open>domain/executor.rs\<close> and \<^verbatim>\<open>outbound/persister/mod.rs\<close> called by several threads at once.  The
  calls are cut where the code lets go of a lock: \<^verbatim>\<open>execute_logged\<close> between the effect on the cache
  and the append, \<^verbatim>\<open>expires_at\<close> at \<^verbatim>\<open>drop(guard)\<close>.  \<^verbatim>\<open>Persister::snapshot\<close> keeps the cache's lock
  from the store to the end of the compaction, while appends, which take the log's lock only, may come
  in between.  A schedule picks the thread whose next segment runs.
\<close>

section \<open>Calls and their segments\<close>

datatype call =
    ExecuteLogged cache_command
  | SnapshotCall
  | SweepCall

text \<open>What a call that has come to its end answered.\<close>

datatype answer =
    Replied "(boxed_error execute_error, command_outcome) result"
  | Snapped "(boxed_error repository_error, unit) result"
  | Swept "(cache_error, nat) result"

text \<open>
  Where a thread is: at the start of its call; in \<^verbatim>\<open>expires_at\<close> with the deadline it read and the lock
  let go; there, past the deadline, about to take the lock again; between the effect on the cache and
  the append; between the stored snapshot and the compaction; at the end.
\<close>

datatype phase =
    Start call
  | TtlHeld bytes "milliseconds option"
  | TtlExpired bytes
  | Logging write_command command_outcome
  | Compacting
  | Finished answer

record threads =
  th_exec :: "persister executor"
  th_clock :: clock
  th_io :: io
  th_guard :: "nat option"
  th_phases :: "phase list"

definition threads_start :: "persister executor \<Rightarrow> clock \<Rightarrow> io \<Rightarrow> call list \<Rightarrow> threads" where
  "threads_start ex clk io calls =
    \<lparr>th_exec = ex, th_clock = clk, th_io = io, th_guard = None, th_phases = map Start calls\<rparr>"

lemma threads_start_simps [simp]:
  "th_exec (threads_start ex clk io calls) = ex" "th_clock (threads_start ex clk io calls) = clk"
  "th_io (threads_start ex clk io calls) = io" "th_guard (threads_start ex clk io calls) = None"
  "th_phases (threads_start ex clk io calls) = map Start calls"
  by (simp_all add: threads_start_def)

definition set_phase :: "nat \<Rightarrow> phase \<Rightarrow> threads \<Rightarrow> threads" where
  "set_phase i p s = s\<lparr>th_phases := (th_phases s)[i := p]\<rparr>"

abbreviation reply_with :: "(boxed_error execute_error, command_outcome) result \<Rightarrow> phase" where
  "reply_with r \<equiv> Finished (Replied r)"

text \<open>\<^verbatim>\<open>execute_logged\<close> up to the end of \<^verbatim>\<open>self.execute(&command)?\<close>, for all commands but \<^verbatim>\<open>TTL\<close>.\<close>

definition command_segment :: "nat \<Rightarrow> cache_command \<Rightarrow> threads \<Rightarrow> threads" where
  "command_segment i cmd s =
    (case execute cmd (th_exec s) (th_clock s) of
       (r, ex, clk) \<Rightarrow>
         set_phase i
           (case r of
              Inl e \<Rightarrow> reply_with (Inl e)
            | Inr out \<Rightarrow> (case cmd of Read _ \<Rightarrow> reply_with (Inr out) | Write wc \<Rightarrow> Logging wc out))
           (s\<lparr>th_exec := ex, th_clock := clk\<rparr>))"

text \<open>\<^verbatim>\<open>TTL\<close>: the deadline under the lock, the clock without it, and the removal under it again.\<close>

definition ttl_read_segment :: "nat \<Rightarrow> bytes \<Rightarrow> threads \<Rightarrow> threads" where
  "ttl_read_segment i key s =
    set_phase i
      (case expires_at_read key (exec_cache (th_exec s)) of
         Inl e \<Rightarrow> reply_with (Inl (ExecuteCache e))
       | Inr None \<Rightarrow> reply_with (Inr (TtlOutcome (ttl_outcome_of None)))
       | Inr (Some deadline) \<Rightarrow> TtlHeld key deadline) s"

definition ttl_clock_segment :: "nat \<Rightarrow> bytes \<Rightarrow> milliseconds option \<Rightarrow> threads \<Rightarrow> threads" where
  "ttl_clock_segment i key deadline s =
    (case now (th_clock s) of
       (Inl e, clk) \<Rightarrow>
         set_phase i (reply_with (Inl (ExecuteCache (CacheSystemTime e)))) (s\<lparr>th_clock := clk\<rparr>)
     | (Inr t, clk) \<Rightarrow>
         (case deadline of
            None \<Rightarrow>
              set_phase i (reply_with (Inr (TtlOutcome (ttl_outcome_of (Some None))))) (s\<lparr>th_clock := clk\<rparr>)
          | Some d \<Rightarrow>
              if d \<le> t then set_phase i (TtlExpired key) (s\<lparr>th_clock := clk\<rparr>)
              else case now clk of
                (Inl e, clk) \<Rightarrow>
                  set_phase i (reply_with (Inl (ExecuteCache (CacheSystemTime e)))) (s\<lparr>th_clock := clk\<rparr>)
              | (Inr t, clk) \<Rightarrow>
                  set_phase i
                    (reply_with (Inr (TtlOutcome (ttl_outcome_of (Some (Some (ms_saturating_sub d t)))))))
                    (s\<lparr>th_clock := clk\<rparr>)))"

definition ttl_drop_segment :: "nat \<Rightarrow> bytes \<Rightarrow> threads \<Rightarrow> threads" where
  "ttl_drop_segment i key s =
    (case cache_remove key (exec_cache (th_exec s)) of
       (r, c) \<Rightarrow>
         set_phase i
           (reply_with (case r of
              Inl e \<Rightarrow> Inl (ExecuteCache e)
            | Inr _ \<Rightarrow> Inr (TtlOutcome (ttl_outcome_of None))))
           (s\<lparr>th_exec := (th_exec s)\<lparr>exec_cache := c\<rparr>\<rparr>))"

text \<open>The rest of \<^verbatim>\<open>execute_logged\<close> for a write.\<close>

definition append_segment :: "nat \<Rightarrow> write_command \<Rightarrow> command_outcome \<Rightarrow> threads \<Rightarrow> threads" where
  "append_segment i wc out s =
    (case persister_append wc (exec_repo (th_exec s)) (th_io s) of
       (r, p, io) \<Rightarrow>
         set_phase i
           (reply_with (case r of Inl e \<Rightarrow> Inl (ExecuteRepository e) | Inr _ \<Rightarrow> Inr out))
           (s\<lparr>th_exec := (th_exec s)\<lparr>exec_repo := p\<rparr>, th_io := io\<rparr>))"

text \<open>\<^verbatim>\<open>Persister::snapshot\<close>: the store, after which the lock is still held, and the compaction.\<close>

definition store_segment ::
    "(data \<Rightarrow> (write_error, bytes) result) \<Rightarrow> nat \<Rightarrow> threads \<Rightarrow> threads" where
  "store_segment serialize i s =
    (let c = exec_cache (th_exec s); p = exec_repo (th_exec s)
     in if cache_poisoned c then
          set_phase i
            (Finished (Snapped (Inl (RepositoryGeneric (BoxedPersister PersisterMutexPoisoned))))) s
        else case snapshot_store serialize (cache_inner c) (snapshot p) (th_io s) of
          (r, f, io) \<Rightarrow>
            (let s = s\<lparr>th_exec := (th_exec s)\<lparr>exec_repo := p\<lparr>snapshot := f\<rparr>\<rparr>, th_io := io\<rparr>
             in case r of
               Inl e \<Rightarrow> set_phase i (Finished (Snapped (Inl (RepositoryGeneric (BoxedSnapshot e))))) s
             | Inr _ \<Rightarrow> set_phase i Compacting (s\<lparr>th_guard := Some i\<rparr>)))"

definition compact_segment :: "nat \<Rightarrow> threads \<Rightarrow> threads" where
  "compact_segment i s =
    (case aof_clear (aof (exec_repo (th_exec s))) (th_io s) of
       (r, a, io) \<Rightarrow>
         set_phase i (Finished (Snapped (map_err (RepositoryGeneric \<circ> BoxedAof) r)))
           (s\<lparr>th_exec := (th_exec s)\<lparr>exec_repo := (exec_repo (th_exec s))\<lparr>aof := a\<rparr>\<rparr>, th_io := io,
              th_guard := None\<rparr>))"

definition sweep_segment :: "nat \<Rightarrow> threads \<Rightarrow> threads" where
  "sweep_segment i s =
    (case cache_remove_expired (exec_cache (th_exec s)) (th_clock s) of
       (r, c, clk) \<Rightarrow>
         set_phase i (Finished (Swept r))
           (s\<lparr>th_exec := (th_exec s)\<lparr>exec_cache := c\<rparr>, th_clock := clk\<rparr>))"

fun call_segment :: "(data \<Rightarrow> (write_error, bytes) result) \<Rightarrow> nat \<Rightarrow> call \<Rightarrow> threads \<Rightarrow> threads" where
  "call_segment serialize i (ExecuteLogged (Read (Ttl key))) s = ttl_read_segment i key s"
| "call_segment serialize i (ExecuteLogged cmd) s = command_segment i cmd s"
| "call_segment serialize i SnapshotCall s = store_segment serialize i s"
| "call_segment serialize i SweepCall s = sweep_segment i s"

definition thread_turn :: "(data \<Rightarrow> (write_error, bytes) result) \<Rightarrow> nat \<Rightarrow> threads \<Rightarrow> threads" where
  "thread_turn serialize i s =
    (case th_phases s ! i of
       Start c \<Rightarrow> call_segment serialize i c s
     | TtlHeld key deadline \<Rightarrow> ttl_clock_segment i key deadline s
     | TtlExpired key \<Rightarrow> ttl_drop_segment i key s
     | Logging wc out \<Rightarrow> append_segment i wc out s
     | Compacting \<Rightarrow> compact_segment i s
     | Finished _ \<Rightarrow> s)"

text \<open>A thread can go on unless it is done, or its next segment takes a lock another thread holds.\<close>

fun takes_guard :: "phase \<Rightarrow> bool" where
  "takes_guard (Start _) = True"
| "takes_guard (TtlExpired _) = True"
| "takes_guard _ = False"

fun is_finished :: "phase \<Rightarrow> bool" where
  "is_finished (Finished _) = True"
| "is_finished _ = False"

definition enabled :: "nat \<Rightarrow> threads \<Rightarrow> bool" where
  "enabled i s \<longleftrightarrow> i < length (th_phases s) \<and> \<not> is_finished (th_phases s ! i) \<and>
     (takes_guard (th_phases s ! i) \<longrightarrow> th_guard s = None)"

text \<open>Runs all of whose states satisfy \<open>P\<close>, with the number of segments run.\<close>

inductive thread_run ::
    "(data \<Rightarrow> (write_error, bytes) result) \<Rightarrow> (threads \<Rightarrow> bool) \<Rightarrow> threads \<Rightarrow> nat \<Rightarrow> threads \<Rightarrow> bool"
  for serialize P s where
  begin_run: "P s \<Longrightarrow> thread_run serialize P s 0 s"
| next_turn: "thread_run serialize P s n s' \<Longrightarrow> enabled i s' \<Longrightarrow> P (thread_turn serialize i s') \<Longrightarrow>
    thread_run serialize P s (Suc n) (thread_turn serialize i s')"

inductive_cases thread_runE: "thread_run serialize P s n s'"

lemmas segment_defs = command_segment_def ttl_read_segment_def ttl_clock_segment_def
  ttl_drop_segment_def append_segment_def store_segment_def compact_segment_def sweep_segment_def

lemma set_phase_simps [simp]:
  "th_phases (set_phase i p s) = (th_phases s)[i := p]"
  "th_exec (set_phase i p s) = th_exec s" "th_clock (set_phase i p s) = th_clock s"
  "th_io (set_phase i p s) = th_io s" "th_guard (set_phase i p s) = th_guard s"
  by (simp_all add: set_phase_def)

section \<open>A call that is not interrupted\<close>

lemma set_phase_twice [simp]:
  "set_phase i p (set_phase i q s) = set_phase i p s"
  "set_phase i p ((set_phase i q s)\<lparr>th_exec := ex\<rparr>) = set_phase i p (s\<lparr>th_exec := ex\<rparr>)"
  "set_phase i p ((set_phase i q s)\<lparr>th_clock := clk\<rparr>) = set_phase i p (s\<lparr>th_clock := clk\<rparr>)"
  "set_phase i p ((set_phase i q s)\<lparr>th_exec := ex, th_io := io\<rparr>) =
     set_phase i p (s\<lparr>th_exec := ex, th_io := io\<rparr>)"
  by (simp_all add: set_phase_def)

lemma turn_of_phase:
  assumes "i < length (th_phases s)"
  shows "thread_turn serialize i (set_phase i (TtlHeld key d) s) =
      ttl_clock_segment i key d (set_phase i (TtlHeld key d) s)"
    "thread_turn serialize i (set_phase i (TtlExpired key) s) =
      ttl_drop_segment i key (set_phase i (TtlExpired key) s)"
    "thread_turn serialize i (set_phase i (Logging wc out) s) =
      append_segment i wc out (set_phase i (Logging wc out) s)"
    "thread_turn serialize i (set_phase i (Finished a) s) = set_phase i (Finished a) s"
  using assms by (simp_all add: thread_turn_def)

lemma ttl_segments:
  assumes "i < length (th_phases s)" "th_phases s ! i = Start (ExecuteLogged (Read (Ttl key)))"
    and "execute_logged persister_append (Read (Ttl key)) (th_exec s) (th_clock s) (th_io s) =
      (r, ex, clk, io)"
  shows "(thread_turn serialize i ^^ 3) s =
    set_phase i (reply_with r) (s\<lparr>th_exec := ex, th_clock := clk, th_io := io\<rparr>)"
proof -
  let ?c = "exec_cache (th_exec s)" and ?clk = "th_clock s"
  have first: "thread_turn serialize i s = ttl_read_segment i key s"
    using assms(2) by (simp add: thread_turn_def)
  note turns = numeral_3_eq_3 first turn_of_phase assms(1)
  note defs = execute_logged_def execute_def cache_execute_def cache_time_to_live_def
    cache_expires_at_def expires_at_finish_def expires_at_read_def cache_remove_def answer_map_def
    now_eq ttl_read_segment_def ttl_clock_segment_def ttl_drop_segment_def
  consider (poisoned) "cache_poisoned ?c"
    | (absent) "\<not> cache_poisoned ?c" "lookup ?c key = None"
    | (present) e where "\<not> cache_poisoned ?c" "lookup ?c key = Some e" by (cases "lookup ?c key") auto
  then show ?thesis
  proof cases
    case (present e)
    show ?thesis
    proof (cases "reading ?clk")
      case (Inl err)
      with present assms show ?thesis by (auto simp: turns defs)
    next
      case (Inr t)
      show ?thesis
      proof (cases "entry_expires_at e")
        case None
        with present Inr assms show ?thesis by (auto simp: turns defs)
      next
        case (Some d)
        with present Inr assms show ?thesis
          by (cases "d \<le> t"; cases "reading (stl ?clk)") (auto simp: turns defs)
      qed
    qed
  qed (use assms in \<open>auto simp: turns defs\<close>)
qed

lemma command_segments:
  assumes "i < length (th_phases s)" "th_phases s ! i = Start (ExecuteLogged cmd)"
    and "\<forall>key. cmd \<noteq> Read (Ttl key)"
    and "execute_logged persister_append cmd (th_exec s) (th_clock s) (th_io s) = (r, ex, clk, io)"
  shows "(thread_turn serialize i ^^ 3) s =
    set_phase i (reply_with r) (s\<lparr>th_exec := ex, th_clock := clk, th_io := io\<rparr>)"
proof -
  have "thread_turn serialize i s = call_segment serialize i (ExecuteLogged cmd) s"
    using assms(2) by (simp add: thread_turn_def)
  moreover have "call_segment serialize i (ExecuteLogged cmd) s = command_segment i cmd s"
  proof (cases cmd)
    case (Read rc)
    with assms(3) show ?thesis by (cases rc) simp_all
  qed simp
  ultimately have first: "thread_turn serialize i s = command_segment i cmd s" by simp
  obtain x ex1 clk1 where x: "(execute cmd (th_exec s) (th_clock s) ::
      (boxed_error execute_error, command_outcome) result \<times> _) = (x, ex1, clk1)"
    using prod_cases3 by blast
  note turns = numeral_3_eq_3 first turn_of_phase assms(1) command_segment_def append_segment_def x
  show ?thesis
  proof (cases x)
    case (Inl e)
    with assms(4) x show ?thesis by (auto simp: turns execute_logged_def)
  next
    case (Inr out)
    show ?thesis
    proof (cases cmd)
      case (Read rc)
      with Inr assms(4) x show ?thesis by (auto simp: turns execute_logged_def)
    next
      case (Write wc)
      with Inr assms(4) x show ?thesis
        by (auto simp: turns execute_logged_def split: prod.splits sum.splits)
    qed
  qed
qed

lemma snapshot_segments:
  assumes "i < length (th_phases s)" "th_phases s ! i = Start SnapshotCall" "th_guard s = None"
    and "persister_snapshot serialize (exec_cache (th_exec s)) (exec_repo (th_exec s)) (th_io s) = (r, p, io)"
  shows "(thread_turn serialize i ^^ 2) s =
    set_phase i (Finished (Snapped r)) (s\<lparr>th_exec := (th_exec s)\<lparr>exec_repo := p\<rparr>, th_io := io\<rparr>)"
proof -
  have first: "thread_turn serialize i s = store_segment serialize i s"
    using assms(2) by (simp add: thread_turn_def)
  have next_turn: "thread_turn serialize i (set_phase i Compacting s') =
      compact_segment i (set_phase i Compacting s')" if "i < length (th_phases s')" for s'
    using that by (simp add: thread_turn_def)
  obtain r1 f io1 where st: "snapshot_store serialize (cache_inner (exec_cache (th_exec s)))
      (snapshot (exec_repo (th_exec s))) (th_io s) = (r1, f, io1)" using prod_cases3 by blast
  note turns = numeral_2_eq_2 first next_turn turn_of_phase assms(1) store_segment_def compact_segment_def
  show ?thesis
  proof (cases "cache_poisoned (exec_cache (th_exec s))")
    case True
    with assms(4) show ?thesis by (auto simp: turns persister_snapshot_def Let_def)
  next
    case False
    show ?thesis
    proof (cases r1)
      case (Inl e)
      with False assms(4) st show ?thesis by (auto simp: turns persister_snapshot_def Let_def)
    next
      case (Inr u)
      obtain r2 a io2 where clear: "aof_clear (aof (exec_repo (th_exec s))) io1 = (r2, a, io2)"
        using prod_cases3 by blast
      from Inr False assms(3, 4) st clear show ?thesis
        by (auto simp: turns persister_snapshot_def Let_def)
    qed
  qed
qed

section \<open>Every schedule ends\<close>

fun weight :: "phase \<Rightarrow> nat" where
  "weight (Start _) = 3"
| "weight (TtlHeld _ _) = 2"
| "weight (TtlExpired _) = 1"
| "weight (Logging _ _) = 1"
| "weight Compacting = 1"
| "weight (Finished _) = 0"

lemma weight_0_iff [simp]: "weight p = 0 \<longleftrightarrow> is_finished p"
  by (cases p) simp_all

text \<open>What a turn does to the places: only the own one changes, and it moves on.\<close>

definition moved :: "nat \<Rightarrow> threads \<Rightarrow> threads \<Rightarrow> bool" where
  "moved i s s' \<longleftrightarrow>
     (let p = th_phases s ! i; q = th_phases s' ! i
      in th_phases s' = (th_phases s)[i := q] \<and> weight q < weight p \<and> (q = Compacting \<longrightarrow> takes_guard p) \<and>
         th_guard s' = (if q = Compacting then Some i else if p = Compacting then None else th_guard s))"

lemma moved_set_phase:
  assumes "i < length (th_phases s)" "th_phases s' = th_phases s" "weight q < weight (th_phases s ! i)"
    and "q = Compacting \<Longrightarrow> takes_guard (th_phases s ! i)"
    and "th_guard s' = (if q = Compacting then Some i
      else if th_phases s ! i = Compacting then None else th_guard s)"
  shows "moved i s (set_phase i q s')"
  using assms by (simp add: moved_def Let_def)

lemma call_segment_moves:
  assumes "i < length (th_phases s)" "th_phases s ! i = Start c"
  shows "moved i s (call_segment serialize i c s)"
  using assms
  by (cases "(serialize, i, c, s)" rule: call_segment.cases)
    (auto simp: segment_defs Let_def split: prod.splits sum.splits option.splits cache_command.splits
      intro!: moved_set_phase)

lemma thread_turn_moves:
  assumes "enabled i s"
  shows "moved i s (thread_turn serialize i s)"
proof -
  have i: "i < length (th_phases s)" "\<not> is_finished (th_phases s ! i)"
    using assms by (simp_all add: enabled_def)
  show ?thesis
  proof (cases "th_phases s ! i")
    case (Start c)
    with call_segment_moves [OF i(1) this] show ?thesis by (simp add: thread_turn_def)
  next
    case (TtlHeld key d)
    then show ?thesis
      using i(1) by (auto simp: thread_turn_def ttl_clock_segment_def now_eq split: sum.split option.split
          intro!: moved_set_phase)
  next
    case (TtlExpired key)
    then show ?thesis
      using i(1) by (auto simp: thread_turn_def ttl_drop_segment_def split: prod.split intro!: moved_set_phase)
  next
    case (Logging wc out)
    then show ?thesis
      using i(1) by (auto simp: thread_turn_def append_segment_def split: prod.split intro!: moved_set_phase)
  next
    case Compacting
    then show ?thesis
      using i(1) by (auto simp: thread_turn_def compact_segment_def split: prod.split intro!: moved_set_phase)
  qed (use i in simp)
qed

text \<open>The cache's lock is held between segments exactly by the thread that is compacting.\<close>

definition guard_ok :: "threads \<Rightarrow> bool" where
  "guard_ok s \<longleftrightarrow>
     (\<forall>i < length (th_phases s). th_phases s ! i = Compacting \<longleftrightarrow> th_guard s = Some i) \<and>
     (\<forall>i. th_guard s = Some i \<longrightarrow> i < length (th_phases s))"

definition total_weight :: "threads \<Rightarrow> nat" where
  "total_weight s = sum_list (map weight (th_phases s))"

lemma thread_turn_guard_ok:
  assumes "guard_ok s" "enabled i s"
  shows "guard_ok (thread_turn serialize i s)"
proof -
  let ?s' = "thread_turn serialize i s"
  have i: "i < length (th_phases s)" "takes_guard (th_phases s ! i) \<Longrightarrow> th_guard s = None"
    using assms(2) by (simp_all add: enabled_def)
  obtain q where q: "th_phases ?s' = (th_phases s)[i := q]"
      "th_guard ?s' = (if q = Compacting then Some i
        else if th_phases s ! i = Compacting then None else th_guard s)"
      "q = Compacting \<longrightarrow> takes_guard (th_phases s ! i)"
    using thread_turn_moves [OF assms(2), of serialize] by (auto simp: moved_def Let_def)
  with i(2) have "th_guard s = None" if "q = Compacting" using that by simp
  with q(1, 2) assms(1) i(1) show ?thesis
    unfolding guard_ok_def by (auto simp: nth_list_update split: if_splits)
qed

lemma thread_turn_weight:
  assumes "enabled i s"
  shows "total_weight (thread_turn serialize i s) < total_weight s"
proof -
  have i: "i < length (th_phases s)" using assms by (simp add: enabled_def)
  obtain q where q: "th_phases (thread_turn serialize i s) = (th_phases s)[i := q]"
      "weight q < weight (th_phases s ! i)"
    using thread_turn_moves [OF assms, of serialize] by (auto simp: moved_def Let_def)
  have "sum_list (map weight ((th_phases s)[i := q])) + weight (th_phases s ! i) =
      sum_list (map weight (th_phases s)) + weight q"
    using i sum_list_update [of i "map weight (th_phases s)" "weight q"] elem_le_sum_list [of i "map weight (th_phases s)"]
    by (simp add: map_update)
  with q show ?thesis by (simp add: total_weight_def)
qed

lemma thread_run_facts:
  assumes "thread_run serialize P s n s'" "guard_ok s"
  shows "guard_ok s'" "n + total_weight s' \<le> total_weight s" "length (th_phases s') = length (th_phases s)"
    "P s'"
proof -
  have "guard_ok s' \<and> n + total_weight s' \<le> total_weight s \<and>
      length (th_phases s') = length (th_phases s) \<and> P s'"
    using assms
  proof (induction rule: thread_run.induct)
    case (next_turn n s' i)
    obtain q where "th_phases (thread_turn serialize i s') = (th_phases s')[i := q]"
      using thread_turn_moves [OF next_turn.hyps(2), of serialize] by (auto simp: moved_def Let_def)
    with next_turn thread_turn_weight [OF next_turn.hyps(2), of serialize] thread_turn_guard_ok
    show ?case by force
  qed simp
  then show "guard_ok s'" "n + total_weight s' \<le> total_weight s"
    "length (th_phases s') = length (th_phases s)" "P s'" by simp_all
qed

lemma guard_ok_progress:
  assumes "guard_ok s" "\<not> list_all is_finished (th_phases s)"
  shows "\<exists>i. enabled i s"
proof (cases "th_guard s")
  case None
  with assms(2) show ?thesis by (auto simp: enabled_def list_all_length)
next
  case (Some j)
  with assms(1) have "j < length (th_phases s)" "th_phases s ! j = Compacting" by (auto simp: guard_ok_def)
  then have "enabled j s" by (simp add: enabled_def)
  then show ?thesis ..
qed

lemma guard_ok_start [simp]: "guard_ok (threads_start ex clk io calls)"
  by (auto simp: guard_ok_def)

lemma total_weight_start [simp]: "total_weight (threads_start ex clk io calls) = 3 * length calls"
  by (induction calls) (simp_all add: total_weight_def)

lemma thread_run_extend:
  "guard_ok s' \<Longrightarrow> thread_run serialize (\<lambda>_. True) s n s' \<Longrightarrow>
   \<exists>m s''. thread_run serialize (\<lambda>_. True) s m s'' \<and> list_all is_finished (th_phases s'')"
proof (induction "total_weight s'" arbitrary: s' n rule: less_induct)
  case less
  show ?case
  proof (cases "list_all is_finished (th_phases s')")
    case False
    then obtain i where i: "enabled i s'" using guard_ok_progress [OF less.prems(1)] by blast
    show ?thesis
      by (rule less.hyps [OF thread_turn_weight [OF i] thread_turn_guard_ok [OF less.prems(1) i]])
        (rule next_turn [OF less.prems(2) i TrueI])
  qed (use less.prems in blast)
qed

section \<open>Recovery while threads are at work\<close>

text \<open>The writes that are in the cache and not yet in the log, and the threads that hold them.\<close>

fun unlogged :: "phase \<Rightarrow> write_command list" where
  "unlogged (Logging wc _) = [wc]"
| "unlogged _ = []"

definition pending_writes :: "threads \<Rightarrow> write_command list" where
  "pending_writes s = concat (map unlogged (th_phases s))"

fun append_failed :: "phase \<Rightarrow> bool" where
  "append_failed (Finished (Replied (Inl (ExecuteRepository _)))) = True"
| "append_failed _ = False"

text \<open>No two threads are writing the key at the same time, and no append has failed.\<close>

definition one_writer :: "bytes \<Rightarrow> threads \<Rightarrow> bool" where
  "one_writer k s \<longleftrightarrow> length (key_writes k (pending_writes s)) \<le> 1 \<and>
     \<not> list_ex append_failed (th_phases s)"

fun phase_ok :: "milliseconds \<Rightarrow> bytes \<Rightarrow> phase \<Rightarrow> bool" where
  "phase_ok T k (Start (ExecuteLogged cmd)) =
     (list_all write_fits (writes_of [cmd]) \<and> writes_ahead T k (writes_of [cmd]))"
| "phase_ok T k (TtlHeld key deadline) = (key = k \<longrightarrow> (\<forall>d. deadline = Some d \<longrightarrow> T < d))"
| "phase_ok T k (TtlExpired key) = (key \<noteq> k)"
| "phase_ok T k (Logging wc out) = (write_fits wc \<and> writes_ahead T k [wc])"
| "phase_ok T k p = True"

text \<open>
  The invariant for one key: snapshot, log and pending writes together give the key's entry; and while
  a snapshot is being compacted the snapshot alone does.
\<close>

definition key_accounted ::
    "(bytes \<Rightarrow> (read_error, data) result) \<Rightarrow> milliseconds \<Rightarrow> bytes \<Rightarrow> threads \<Rightarrow>
      data \<Rightarrow> write_command list \<Rightarrow> bool" where
  "key_accounted deserialize T k s m ws \<longleftrightarrow>
     snapshot_decodes deserialize (snap_file (snapshot (exec_repo (th_exec s)))) m \<and>
     log_in_order (aof (exec_repo (th_exec s))) ws \<and>
     entry_ahead T (map_of m k) \<and> writes_ahead T k ws \<and>
     lookup (exec_cache (th_exec s)) k =
       fold apply_key (key_writes k (ws @ pending_writes s)) (map_of m k) \<and>
     (th_guard s \<noteq> None \<longrightarrow> lookup (exec_cache (th_exec s)) k = map_of m k)"

definition threads_ok :: "milliseconds \<Rightarrow> bytes \<Rightarrow> threads \<Rightarrow> bool" where
  "threads_ok T k s \<longleftrightarrow>
     \<not> cache_poisoned (exec_cache (th_exec s)) \<and> cache_invar (exec_cache (th_exec s)) \<and>
     clock_within T (th_clock s) \<and> list_all (phase_ok T k) (th_phases s)"

lemma pending_writes_start [simp]: "pending_writes (threads_start ex clk io calls) = []"
  by (induction calls) (simp_all add: pending_writes_def)

lemma concat_map_update:
  "i < length ps \<Longrightarrow>
     concat (map f (ps[i := q])) = concat (map f (take i ps)) @ f q @ concat (map f (drop (Suc i) ps))"
  by (simp add: upd_conv_take_nth_drop)

text \<open>The pending writes of a key before and after thread \<open>i\<close> moves.\<close>

lemma pending_move:
  assumes "i < length (th_phases s)"
  obtains before after where
    "key_writes k (pending_writes s) = before @ key_writes k (unlogged (th_phases s ! i)) @ after"
    "\<And>q s'. th_phases s' = th_phases s \<Longrightarrow>
       key_writes k (pending_writes (set_phase i q s')) = before @ key_writes k (unlogged q) @ after"
proof
  let ?take = "key_writes k (concat (map unlogged (take i (th_phases s))))"
  let ?drop = "key_writes k (concat (map unlogged (drop (Suc i) (th_phases s))))"
  have "(th_phases s)[i := th_phases s ! i] = th_phases s" by simp
  with concat_map_update [OF assms, of unlogged "th_phases s ! i"]
  show "key_writes k (pending_writes s) = ?take @ key_writes k (unlogged (th_phases s ! i)) @ ?drop"
    by (simp add: pending_writes_def)
  show "key_writes k (pending_writes (set_phase i q s')) = ?take @ key_writes k (unlogged q) @ ?drop"
    if "th_phases s' = th_phases s" for q s'
    using that concat_map_update [OF assms, of unlogged q] by (simp add: pending_writes_def)
qed

lemma entry_ahead_fold:
  "entry_ahead T x \<Longrightarrow> writes_ahead T k ws \<Longrightarrow> entry_ahead T (fold apply_key (key_writes k ws) x)"
  by (induction ws arbitrary: x) (auto simp: writes_ahead_def intro: entry_ahead_apply_key)

lemma pending_ahead: "list_all (phase_ok T k) (th_phases s) \<Longrightarrow> writes_ahead T k (pending_writes s)"
proof -
  have "phase_ok T k p \<Longrightarrow> writes_ahead T k (unlogged p)" for p
    by (cases "(T, k, p)" rule: phase_ok.cases) (simp_all add: writes_ahead_def)
  moreover assume "list_all (phase_ok T k) (th_phases s)"
  ultimately show ?thesis
    by (fastforce simp: pending_writes_def writes_ahead_def list_all_iff)
qed

lemma key_accounted_ahead:
  assumes "threads_ok T k s" "key_accounted deserialize T k s m ws"
  shows "entry_ahead T (lookup (exec_cache (th_exec s)) k)"
proof -
  have "writes_ahead T k (ws @ pending_writes s)"
    using assms pending_ahead [of T k s] by (auto simp: threads_ok_def key_accounted_def writes_ahead_def)
  with assms(2) entry_ahead_fold show ?thesis by (metis key_accounted_def)
qed

subsection \<open>Segment by segment\<close>

abbreviation with_cache :: "cache \<Rightarrow> clock \<Rightarrow> threads \<Rightarrow> threads" where
  "with_cache c clk s \<equiv> s\<lparr>th_exec := (th_exec s)\<lparr>exec_cache := c\<rparr>, th_clock := clk\<rparr>"

lemma threads_ok_phase:
  assumes "threads_ok T k s" "phase_ok T k q" "\<not> cache_poisoned c" "cache_invar c" "clock_within T clk"
    and "th_phases s' = th_phases s" "exec_cache (th_exec s') = c" "th_clock s' = clk"
  shows "threads_ok T k (set_phase i q s')"
  using assms set_update_subset_insert [of "th_phases s" i q] by (auto simp: threads_ok_def list_all_iff)

lemma cache_segment_accounted:
  assumes "key_accounted deserialize T k s m ws" "i < length (th_phases s)"
    and "unlogged (th_phases s ! i) = []" "th_guard s = None \<or> c = exec_cache (th_exec s) \<and> unlogged q = []"
    and "lookup c k = fold apply_key (key_writes k (unlogged q)) (lookup (exec_cache (th_exec s)) k)"
    and "one_writer k (set_phase i q (with_cache c clk s))"
  shows "key_accounted deserialize T k (set_phase i q (with_cache c clk s)) m ws"
proof -
  obtain before after where
      old: "key_writes k (pending_writes s) = before @ key_writes k (unlogged (th_phases s ! i)) @ after"
    and new: "key_writes k (pending_writes (set_phase i q (with_cache c clk s))) =
        before @ key_writes k (unlogged q) @ after"
    using pending_move [OF assms(2), of k] by (metis (no_types, lifting) threads.select_convs(5) threads.surjective
        threads.update_convs(1) threads.update_convs(2))
  have "length (before @ key_writes k (unlogged q) @ after) \<le> 1"
    using assms(6) new by (simp add: one_writer_def)
  then have "before @ key_writes k (unlogged q) @ after = (before @ after) @ key_writes k (unlogged q)"
    by (cases before; cases after; cases "key_writes k (unlogged q)") simp_all
  with assms(1, 3, 4, 5) old new show ?thesis by (auto simp: key_accounted_def)
qed

abbreviation accounted ::
    "(bytes \<Rightarrow> (read_error, data) result) \<Rightarrow> milliseconds \<Rightarrow> bytes \<Rightarrow> threads \<Rightarrow> bool" where
  "accounted deserialize T k s \<equiv> threads_ok T k s \<and> (\<exists>m ws. key_accounted deserialize T k s m ws)"

lemma cache_segment_ok:
  assumes "accounted deserialize T k s" "i < length (th_phases s)" "unlogged (th_phases s ! i) = []"
    and "th_guard s = None \<or> c = exec_cache (th_exec s) \<and> unlogged q = []"
    and "lookup c k = fold apply_key (key_writes k (unlogged q)) (lookup (exec_cache (th_exec s)) k)"
    and "\<not> cache_poisoned c" "cache_invar c" "clock_within T clk" "phase_ok T k q"
    and "one_writer k (set_phase i q (with_cache c clk s))"
  shows "accounted deserialize T k (set_phase i q (with_cache c clk s))"
proof -
  from assms(1) obtain m ws where ok: "threads_ok T k s" "key_accounted deserialize T k s m ws" by blast
  have "threads_ok T k (set_phase i q (with_cache c clk s))"
    by (rule threads_ok_phase [OF ok(1) assms(9) assms(6-8)]) simp_all
  with cache_segment_accounted [OF ok(2) assms(2-5, 10)] show ?thesis by blast
qed

lemma start_phase_ok:
  assumes "threads_ok T k s" "i < length (th_phases s)"
  shows "phase_ok T k (th_phases s ! i)"
  using assms by (simp add: threads_ok_def list_all_length)

lemma command_segment_ok:
  assumes "accounted deserialize T k s" "i < length (th_phases s)"
    and "th_phases s ! i = Start (ExecuteLogged cmd)" "th_guard s = None"
    and "one_writer k (command_segment i cmd s)"
  shows "accounted deserialize T k (command_segment i cmd s)"
proof -
  let ?c = "exec_cache (th_exec s)" and ?clk = "th_clock s"
  from assms(1) obtain m ws where ok: "threads_ok T k s" "key_accounted deserialize T k s m ws" by blast
  then have c: "\<not> cache_poisoned ?c" "cache_invar ?c" "clock_within T ?clk" by (simp_all add: threads_ok_def)
  have cmd: "list_all write_fits (writes_of [cmd])" "writes_ahead T k (writes_of [cmd])"
    using start_phase_ok [OF ok(1) assms(2)] assms(3) by simp_all
  obtain out c' clk' where x: "cache_execute cmd ?c ?clk = (Inr out, c', clk')"
    using cache_execute_total [OF c(1, 3), of cmd] by (metis prod.collapse)
  have c': "\<not> cache_poisoned c'" "cache_invar c'"
    using cache_execute_poisoned [of cmd ?c ?clk] cache_execute_invar [of ?c cmd ?clk] c x by simp_all
  have clk': "clock_within T clk'"
    using cache_execute_clock [of cmd ?c ?clk] clock_within_sdrop [OF c(3)] x by auto
  have key: "lookup c' k = fold apply_key (key_writes k (writes_of [cmd])) (lookup ?c k)"
    using cache_execute_key [OF c(1, 3) key_accounted_ahead [OF ok] cmd(2)] x by simp
  define q where "q = (case cmd of Read _ \<Rightarrow> reply_with (Inr out) | Write wc \<Rightarrow> Logging wc out)"
  have q: "unlogged q = writes_of [cmd]" "phase_ok T k q"
    using cmd by (cases cmd; simp add: q_def)+
  have seg: "command_segment i cmd s = set_phase i q (with_cache c' clk' s)"
    by (simp add: command_segment_def execute_def x q_def)
  show ?thesis
    using cache_segment_ok [OF assms(1, 2) _ _ _ c' clk' q(2)] assms(3-5) key q(1) by (simp add: seg)
qed

lemma ttl_read_segment_ok:
  assumes "accounted deserialize T k s" "i < length (th_phases s)"
    and "th_phases s ! i = Start c" "one_writer k (ttl_read_segment i key s)"
  shows "accounted deserialize T k (ttl_read_segment i key s)"
proof -
  let ?c = "exec_cache (th_exec s)"
  from assms(1) obtain m ws where ok: "threads_ok T k s" "key_accounted deserialize T k s m ws" by blast
  then have c: "\<not> cache_poisoned ?c" "cache_invar ?c" "clock_within T (th_clock s)"
    by (simp_all add: threads_ok_def)
  define q where "q = (case lookup ?c key of
      None \<Rightarrow> reply_with (Inr (TtlOutcome (ttl_outcome_of None)))
    | Some e \<Rightarrow> TtlHeld key (entry_expires_at e))"
  have q: "unlogged q = []" "phase_ok T k q"
    using key_accounted_ahead [OF ok] by (auto simp: q_def entry_ahead_def split: option.split)
  have seg: "ttl_read_segment i key s = set_phase i q (with_cache ?c (th_clock s) s)"
    using c(1) by (simp add: ttl_read_segment_def expires_at_read_def q_def split: option.split)
  show ?thesis
    using cache_segment_ok [OF assms(1, 2) _ _ _ c q(2)] assms(3, 4) q(1) by (simp add: seg)
qed

lemma ttl_clock_segment_ok:
  assumes "accounted deserialize T k s" "i < length (th_phases s)"
    and "th_phases s ! i = TtlHeld key d" "one_writer k (ttl_clock_segment i key d s)"
  shows "accounted deserialize T k (ttl_clock_segment i key d s)"
proof -
  let ?c = "exec_cache (th_exec s)" and ?clk = "th_clock s"
  from assms(1) have ok: "threads_ok T k s" by blast
  then have c: "\<not> cache_poisoned ?c" "cache_invar ?c" "clock_within T ?clk" by (simp_all add: threads_ok_def)
  note clks = clock_within_stl [OF c(3)] clock_within_stl [OF clock_within_stl [OF c(3)]]
  have held: "phase_ok T k (TtlHeld key d)" using start_phase_ok [OF ok assms(2)] assms(3) by simp
  obtain t where t: "t \<le> T" "reading ?clk = Inr t" using clock_within_reading [OF c(3)] by blast
  obtain t' where t': "reading (stl ?clk) = Inr t'" using clock_within_reading [OF clks(1)] by blast
  note seg = cache_segment_ok [OF assms(1, 2) _ _ _ c(1, 2), of _ _]
  show ?thesis
  proof (cases d)
    case None
    with seg [OF _ _ _ clks(1)] assms(3, 4) t show ?thesis
      by (simp add: ttl_clock_segment_def now_eq)
  next
    case (Some dl)
    have "key \<noteq> k" if "dl \<le> t" using held Some that t(1) by auto
    then show ?thesis
      using Some seg [OF _ _ _ clks(1)] seg [OF _ _ _ clks(2)] assms(3, 4) t t'
      by (simp add: ttl_clock_segment_def now_eq split: if_splits)
  qed
qed

lemma ttl_drop_segment_ok:
  assumes "accounted deserialize T k s" "i < length (th_phases s)" "th_phases s ! i = TtlExpired key"
    and "th_guard s = None" "one_writer k (ttl_drop_segment i key s)"
  shows "accounted deserialize T k (ttl_drop_segment i key s)"
proof -
  let ?c = "exec_cache (th_exec s)"
  from assms(1) have ok: "threads_ok T k s" by blast
  then have c: "\<not> cache_poisoned ?c" "cache_invar ?c" "clock_within T (th_clock s)"
    by (simp_all add: threads_ok_def)
  have other: "key \<noteq> k" using start_phase_ok [OF ok assms(2)] assms(3) by simp
  have seg: "ttl_drop_segment i key s = set_phase i (reply_with (Inr (TtlOutcome (ttl_outcome_of None))))
      (with_cache (drop_key key ?c) (th_clock s) s)"
    using c(1) by (simp add: ttl_drop_segment_def cache_remove_def)
  have "cache_invar (drop_key key ?c)" "\<not> cache_poisoned (drop_key key ?c)"
    using c by (simp_all add: cache_invar_keys)
  from cache_segment_ok [OF assms(1, 2) _ _ _ this(2, 1) c(3)] assms(3-5) other show ?thesis
    by (simp add: seg map_laws)
qed

lemma sweep_segment_ok:
  assumes "accounted deserialize T k s" "i < length (th_phases s)" "th_phases s ! i = Start c"
    and "th_guard s = None" "one_writer k (sweep_segment i s)"
  shows "accounted deserialize T k (sweep_segment i s)"
proof -
  let ?c = "exec_cache (th_exec s)" and ?clk = "th_clock s"
  from assms(1) obtain m ws where ok: "threads_ok T k s" "key_accounted deserialize T k s m ws" by blast
  then have c: "\<not> cache_poisoned ?c" "cache_invar ?c" "clock_within T ?clk" by (simp_all add: threads_ok_def)
  obtain t where t: "t \<le> T" "reading ?clk = Inr t" using clock_within_reading [OF c(3)] by blast
  obtain n c' where sweep: "cache_remove_expired ?c ?clk = (Inr n, c', stl ?clk)"
      "lookup c' = view t (lookup ?c)" "cache_invar c'" "\<not> cache_poisoned c'"
    using cache_remove_expired_healthy [OF c(2, 1) t(2)] by blast
  have "lookup c' k = lookup ?c k"
    using sweep(2) key_accounted_ahead [OF ok] t(1) entry_ahead_not_expired
    by (auto simp: view_def split: option.split)
  with cache_segment_ok [OF assms(1, 2) _ _ _ sweep(4, 3) clock_within_stl [OF c(3)]] assms(3-5) sweep(1)
  show ?thesis by (simp add: sweep_segment_def)
qed

lemma append_segment_ok:
  assumes "accounted deserialize T k s" "i < length (th_phases s)" "th_phases s ! i = Logging wc out"
    and "one_writer k s" "one_writer k (append_segment i wc out s)"
  shows "accounted deserialize T k (append_segment i wc out s)"
proof -
  let ?p = "exec_repo (th_exec s)"
  from assms(1) obtain m ws where ok: "threads_ok T k s" "key_accounted deserialize T k s m ws" by blast
  have wc: "write_fits wc" "writes_ahead T k [wc]" using start_phase_ok [OF ok(1) assms(2)] assms(3) by simp_all
  obtain r p io where app: "persister_append wc ?p (th_io s) = (r, p, io)" using prod_cases3 by blast
  define s' where "s' = s\<lparr>th_exec := (th_exec s)\<lparr>exec_repo := p\<rparr>, th_io := io\<rparr>"
  have seg: "append_segment i wc out s = set_phase i
      (reply_with (case r of Inl e \<Rightarrow> Inl (ExecuteRepository e) | Inr _ \<Rightarrow> Inr out)) s'"
    by (simp add: append_segment_def app s'_def)
  have r: "r = Inr ()"
  proof (rule ccontr)
    assume "r \<noteq> Inr ()"
    then obtain e where "r = Inl e" by (cases r) auto
    then have "append_failed (th_phases (append_segment i wc out s) ! i)" using assms(2) by (simp add: seg s'_def)
    with assms(2, 5) show False by (auto simp: one_writer_def list_ex_length seg s'_def)
  qed
  have files: "log_in_order (aof p) (ws @ [wc])" "snapshot p = snapshot ?p"
    using persister_append_in_order [OF _ wc(1)] persister_append_snapshot [OF app] app r ok(2)
    by (auto simp: key_accounted_def)
  obtain before after where
      old: "key_writes k (pending_writes s) = before @ key_writes k (unlogged (th_phases s ! i)) @ after"
    and new: "\<And>q s'. th_phases s' = th_phases s \<Longrightarrow>
        key_writes k (pending_writes (set_phase i q s')) = before @ key_writes k (unlogged q) @ after"
    using pending_move [OF assms(2), of k] by blast
  have "length (before @ key_writes k [wc] @ after) \<le> 1"
    using assms(3, 4) old by (simp add: one_writer_def)
  then have "before @ key_writes k [wc] @ after = key_writes k [wc] @ before @ after"
    by (cases before; cases after; cases "key_writes k [wc]") simp_all
  then have same: "key_writes k ((ws @ [wc]) @ pending_writes (append_segment i wc out s)) =
      key_writes k (ws @ pending_writes s)"
    using old new [of s'] assms(3) r unfolding seg by (cases "write_key wc = k") (auto simp: s'_def)
  have "writes_ahead T k (ws @ [wc])" using ok(2) wc(2) by (auto simp: key_accounted_def writes_ahead_def)
  moreover have "th_exec (append_segment i wc out s) = (th_exec s)\<lparr>exec_repo := p\<rparr>"
      "th_guard (append_segment i wc out s) = th_guard s" by (simp_all add: seg s'_def)
  ultimately have "key_accounted deserialize T k (append_segment i wc out s) m (ws @ [wc])"
    using ok(2) files unfolding key_accounted_def same by auto
  moreover have "threads_ok T k (append_segment i wc out s)"
    unfolding seg by (rule threads_ok_phase [OF ok(1)]) (use ok(1) in \<open>auto simp: threads_ok_def s'_def\<close>)
  ultimately show ?thesis by blast
qed

text \<open>What is relied on of the serialiser: whatever it encodes it decodes again.\<close>

definition faithful_codec ::
    "(data \<Rightarrow> (write_error, bytes) result) \<Rightarrow> (bytes \<Rightarrow> (read_error, data) result) \<Rightarrow> bool" where
  "faithful_codec serialize deserialize \<longleftrightarrow>
     (\<forall>m bs. distinct_keys m \<longrightarrow> serialize m = Inr bs \<longrightarrow> snapshot_decodes deserialize bs m)"

lemma store_segment_ok:
  assumes "accounted deserialize T k s" "faithful_codec serialize deserialize" "i < length (th_phases s)"
    and "th_phases s ! i = Start c" "th_guard s = None"
  shows "accounted deserialize T k (store_segment serialize i s)"
proof -
  let ?c = "exec_cache (th_exec s)" and ?p = "exec_repo (th_exec s)"
  from assms(1) obtain m ws where ok: "threads_ok T k s" "key_accounted deserialize T k s m ws" by blast
  then have c: "\<not> cache_poisoned ?c" "cache_invar ?c" by (simp_all add: threads_ok_def)
  obtain r f io where store: "snapshot_store serialize (cache_inner ?c) (snapshot ?p) (th_io s) = (r, f, io)"
    using prod_cases3 by blast
  define s' where "s' = s\<lparr>th_exec := (th_exec s)\<lparr>exec_repo := ?p\<lparr>snapshot := f\<rparr>\<rparr>, th_io := io\<rparr>"
  define q where "q = (case r of
      Inl e \<Rightarrow> Finished (Snapped (Inl (RepositoryGeneric (BoxedSnapshot e)))) | Inr _ \<Rightarrow> Compacting)"
  have seg: "store_segment serialize i s = set_phase i q (case r of Inl _ \<Rightarrow> s' | Inr _ \<Rightarrow> s'\<lparr>th_guard := Some i\<rparr>)"
    using c(1) store by (simp add: store_segment_def Let_def s'_def q_def split: sum.split)
  have q: "unlogged q = []" "phase_ok T k q" by (simp_all add: q_def split: sum.split)
  have phases: "th_phases (case r of Inl _ \<Rightarrow> s' | Inr _ \<Rightarrow> s'\<lparr>th_guard := Some i\<rparr>) = th_phases s"
    by (simp add: s'_def split: sum.split)
  obtain before after where
      old: "key_writes k (pending_writes s) = before @ key_writes k (unlogged (th_phases s ! i)) @ after"
    and new: "\<And>q s'. th_phases s' = th_phases s \<Longrightarrow>
        key_writes k (pending_writes (set_phase i q s')) = before @ key_writes k (unlogged q) @ after"
    using pending_move [OF assms(3), of k] by blast
  have same: "key_writes k (ws @ pending_writes (store_segment serialize i s)) =
      key_writes k (ws @ pending_writes s)"
    using old new [OF phases] assms(4) q(1) unfolding seg by simp
  have exec: "th_exec (store_segment serialize i s) = (th_exec s)\<lparr>exec_repo := ?p\<lparr>snapshot := f\<rparr>\<rparr>"
    by (simp add: seg s'_def split: sum.split)
  have tok: "threads_ok T k (store_segment serialize i s)"
    unfolding seg by (rule threads_ok_phase [OF ok(1) q(2) c _ phases])
      (use ok(1) in \<open>auto simp: threads_ok_def s'_def split: sum.split\<close>)
  from snapshot_store_files [OF store]
  have "\<exists>m'. key_accounted deserialize T k (store_segment serialize i s) m' ws"
  proof
    assume "snap_file f = snap_file (snapshot ?p) \<and> (\<exists>e. r = Inl e)"
    then have "key_accounted deserialize T k (store_segment serialize i s) m ws"
      using ok(2) assms(5) unfolding key_accounted_def same exec by (auto simp: seg s'_def)
    then show ?thesis ..
  next
    assume "serialize (cache_inner ?c) = Inr (snap_file f)"
    then have "snapshot_decodes deserialize (snap_file f) (cache_inner ?c)"
      using assms(2) c(2) by (simp add: faithful_codec_def cache_invar_def)
    moreover have "fold apply_key (key_writes k (ws @ pending_writes s)) (lookup ?c k) = lookup ?c k"
      using ok(2) fold_apply_key_twice unfolding key_accounted_def by metis
    ultimately have "key_accounted deserialize T k (store_segment serialize i s) (cache_inner ?c) ws"
      using ok(2) key_accounted_ahead [OF ok] unfolding key_accounted_def same exec by simp
    then show ?thesis ..
  qed
  with tok show ?thesis by blast
qed

lemma compact_segment_ok:
  assumes "accounted deserialize T k s" "i < length (th_phases s)"
    and "th_phases s ! i = Compacting" "th_guard s = Some i"
  shows "accounted deserialize T k (compact_segment i s)"
proof -
  let ?c = "exec_cache (th_exec s)" and ?p = "exec_repo (th_exec s)"
  from assms(1) obtain m ws where ok: "threads_ok T k s" "key_accounted deserialize T k s m ws" by blast
  obtain r a io where clear: "aof_clear (aof ?p) (th_io s) = (r, a, io)" using prod_cases3 by blast
  define s' where "s' = s\<lparr>th_exec := (th_exec s)\<lparr>exec_repo := ?p\<lparr>aof := a\<rparr>\<rparr>, th_io := io, th_guard := None\<rparr>"
  have seg: "compact_segment i s =
      set_phase i (Finished (Snapped (map_err (RepositoryGeneric \<circ> BoxedAof) r))) s'"
    by (simp add: compact_segment_def clear s'_def)
  obtain before after where
      old: "key_writes k (pending_writes s) = before @ key_writes k (unlogged (th_phases s ! i)) @ after"
    and new: "\<And>q s'. th_phases s' = th_phases s \<Longrightarrow>
        key_writes k (pending_writes (set_phase i q s')) = before @ key_writes k (unlogged q) @ after"
    using pending_move [OF assms(2), of k] by blast
  have same: "key_writes k (pending_writes (compact_segment i s)) = key_writes k (pending_writes s)"
    using old new [of s'] assms(3) unfolding seg by (simp add: s'_def)
  have base: "lookup ?c k = map_of m k" using ok(2) assms(4) unfolding key_accounted_def by blast
  have sum: "lookup ?c k = fold apply_key (key_writes k (pending_writes s))
      (fold apply_key (key_writes k ws) (map_of m k))"
    and log: "log_in_order (aof ?p) ws"
    using ok(2) by (simp_all add: key_accounted_def)
  have again: "lookup ?c k = fold apply_key (key_writes k (pending_writes s)) (map_of m k)"
    using sum fold_apply_key_twice unfolding base by metis
  define ws' where "ws' = (if r = Inr () then [] else ws)"
  have "log_in_order a ws'" unfolding ws'_def by (rule aof_clear_in_order [OF log clear])
  then have "key_accounted deserialize T k (compact_segment i s) m ws'"
    using ok(2) again base sum same
    by (auto simp: key_accounted_def seg s'_def ws'_def writes_ahead_def)
  moreover have "threads_ok T k (compact_segment i s)"
    unfolding seg by (rule threads_ok_phase [OF ok(1)]) (use ok(1) in \<open>auto simp: threads_ok_def s'_def\<close>)
  ultimately show ?thesis by blast
qed

lemma thread_turn_accounted:
  assumes "accounted deserialize T k s" "faithful_codec serialize deserialize" "guard_ok s" "enabled i s"
    and "one_writer k s" "one_writer k (thread_turn serialize i s)"
  shows "accounted deserialize T k (thread_turn serialize i s)"
proof -
  have i: "i < length (th_phases s)" "takes_guard (th_phases s ! i) \<Longrightarrow> th_guard s = None"
    using assms(4) by (simp_all add: enabled_def)
  show ?thesis
  proof (cases "th_phases s ! i")
    case (Start c)
    with i(2) have free: "th_guard s = None" by simp
    have turn: "thread_turn serialize i s = call_segment serialize i c s"
      using Start by (simp add: thread_turn_def)
    note ok = command_segment_ok [OF assms(1) i(1) _ free] ttl_read_segment_ok [OF assms(1) i(1) Start]
      store_segment_ok [OF assms(1, 2) i(1) Start free] sweep_segment_ok [OF assms(1) i(1) Start free]
    from ok Start assms(6) show ?thesis
      unfolding turn by (cases "(serialize, i, c, s)" rule: call_segment.cases) simp_all
  next
    case (TtlHeld key d)
    with ttl_clock_segment_ok [OF assms(1) i(1)] assms(6) show ?thesis by (simp add: thread_turn_def)
  next
    case (TtlExpired key)
    with ttl_drop_segment_ok [OF assms(1) i(1)] i(2) assms(6) show ?thesis by (simp add: thread_turn_def)
  next
    case (Logging wc out)
    with append_segment_ok [OF assms(1) i(1)] assms(5, 6) show ?thesis by (simp add: thread_turn_def)
  next
    case Compacting
    with assms(3) i(1) have "th_guard s = Some i" by (simp add: guard_ok_def)
    with compact_segment_ok [OF assms(1) i(1)] Compacting show ?thesis by (simp add: thread_turn_def)
  next
    case (Finished a)
    with assms(1) show ?thesis by (simp add: thread_turn_def)
  qed
qed

lemma thread_run_accounted:
  assumes "thread_run serialize (one_writer k) s n s'" "accounted deserialize T k s"
    and "faithful_codec serialize deserialize" "guard_ok s"
  shows "accounted deserialize T k s' \<and> one_writer k s'"
  using assms
proof (induction rule: thread_run.induct)
  case (next_turn n s' i)
  have guard: "guard_ok s'" using thread_run_facts(1) [OF next_turn.hyps(1)] next_turn.prems by blast
  have s': "accounted deserialize T k s'" "one_writer k s'"
    using next_turn.IH [OF next_turn.prems] by blast+
  from thread_turn_accounted [OF s'(1) next_turn.prems(2) guard next_turn.hyps(2) s'(2) next_turn.hyps(3)]
    next_turn.hyps(3) show ?case by blast
qed blast

section \<open>Two writers of one key\<close>

text \<open>Turns in a given order, and the state two writers of one key start from.\<close>

fun run_schedule ::
    "(data \<Rightarrow> (write_error, bytes) result) \<Rightarrow> nat list \<Rightarrow> threads \<Rightarrow> threads" where
  "run_schedule serialize [] s = s"
| "run_schedule serialize (i # is) s = run_schedule serialize is (thread_turn serialize i s)"

definition two_writers :: "bytes \<Rightarrow> bytes \<Rightarrow> bytes \<Rightarrow> threads" where
  "two_writers k v1 v2 = threads_start fresh_executor (clock_at (Milliseconds 1)) io_ok
     [ExecuteLogged (Write (Set k v1 None)), ExecuteLogged (Write (Set k v2 None))]"

text \<open>The serialiser of the examples, refusing what does not fit a log.\<close>

definition dump_checked :: "data \<Rightarrow> (write_error, bytes) result" where
  "dump_checked m =
    (if list_all (\<lambda>(k, e). write_fits (Set k (entry_value e) (entry_expires_at e))) m
     then dump m else Inl undefined)"

lemma dump_checked_faithful: "faithful_codec dump_checked undump"
proof -
  have "snapshot_decodes undump bs m" if "distinct_keys m" "dump_checked m = Inr bs" for m bs
    using that dump_undump [of m bs] by (auto simp: dump_checked_def list_all_iff split: if_splits)
  then show ?thesis by (simp add: faithful_codec_def)
qed

text \<open>Both writers reach the cache before either reaches the log, and they reach it the other way round.\<close>

lemma two_writers_in_cache:
  "run_schedule serialize [0, 1] (two_writers k v1 v2) =
     (two_writers k v1 v2)\<lparr>th_exec := fresh_executor\<lparr>exec_cache :=
        put_key k (entry_new v2 None) (put_key k (entry_new v1 None) (cache_new []))\<rparr>,
      th_phases := [Logging (Set k v1 None) OutcomeOk, Logging (Set k v2 None) OutcomeOk]\<rparr>"
  by (simp add: two_writers_def threads_start_def thread_turn_def command_segment_def execute_def
      cache_execute_def cache_insert_def set_phase_def)

lemma swapped_appends:
  assumes "write_fits w1" "write_fits w2" "th_phases s = [Logging w1 out1, Logging w2 out2]"
    and "th_io s = io_ok" "log_in_order (aof (exec_repo (th_exec s))) ws"
  obtains p where "run_schedule serialize [1, 0] s =
      s\<lparr>th_exec := (th_exec s)\<lparr>exec_repo := p\<rparr>,
        th_phases := [reply_with (Inr out1), reply_with (Inr out2)]\<rparr>"
    "log_in_order (aof p) (ws @ [w2, w1])" "snapshot p = snapshot (exec_repo (th_exec s))"
proof -
  let ?p = "exec_repo (th_exec s)"
  have healthy: "\<not> writer_poisoned (aof ?p)" using assms(5) by (simp add: log_in_order_def)
  obtain p1 where p1: "persister_append w2 ?p io_ok = (Inr (), p1, io_ok)" "\<not> writer_poisoned (aof p1)"
    using persister_append_ok [OF healthy] by blast
  obtain p2 where p2: "persister_append w1 p1 io_ok = (Inr (), p2, io_ok)"
    using persister_append_ok [OF p1(2)] by blast
  have "log_in_order (aof p2) (ws @ [w2, w1])"
    using persister_append_in_order [OF persister_append_in_order [OF assms(5, 2) p1(1)] assms(1) p2] by simp
  moreover have "snapshot p2 = snapshot ?p"
    using persister_append_snapshot [OF p1(1)] persister_append_snapshot [OF p2] by simp
  moreover have "run_schedule serialize [1, 0] s =
      s\<lparr>th_exec := (th_exec s)\<lparr>exec_repo := p2\<rparr>,
        th_phases := [reply_with (Inr out1), reply_with (Inr out2)]\<rparr>"
    using assms(3, 4) p1(1) p2 by (cases s) (simp add: thread_turn_def append_segment_def set_phase_def)
  ultimately show ?thesis using that by blast
qed

lemma run_schedule_append:
  "run_schedule serialize (is @ js) s = run_schedule serialize js (run_schedule serialize is s)"
  by (induction "is" arbitrary: s) simp_all

section \<open>Properties\<close>

text \<open>
  C4: recovery under interleaving.  Let any number of threads run commands, snapshots and sweeps, cut
  wherever a lock is free, as long as no two of them write the key at the same time and no append
  fails.  Kill the process at any point between segments and start again: the key comes back as the
  cache had it, except for the one write, if there is one, that is in the cache and not yet in the log,
  so not yet acknowledged.
\<close>

theorem interleaved_recovery:
  assumes "faithful_codec serialize deserialize"
    and "\<not> cache_poisoned (exec_cache ex)" "cache_invar (exec_cache ex)"
    and "log_in_order (aof (exec_repo ex)) []"
    and "snapshot_decodes deserialize (snap_file (snapshot (exec_repo ex))) m"
    and "lookup (exec_cache ex) k = map_of m k" "entry_ahead T (map_of m k)"
    and "list_all (\<lambda>c. phase_ok T k (Start c)) calls"
    and "thread_run serialize (one_writer k) (threads_start ex clk io calls) n s"
    and "clock_within T clk" "clock_within T clk2"
  shows "\<exists>ex2 clk3. server_startup deserialize (crash (exec_repo (th_exec s))) clk2 io_ok =
      (Inr ex2, crash (exec_repo (th_exec s)), clk3, io_ok) \<and>
    length (key_writes k (pending_writes s)) \<le> 1 \<and>
    lookup (exec_cache (th_exec s)) k =
      fold apply_key (key_writes k (pending_writes s)) (lookup (exec_cache ex2) k)"
proof -
  let ?start = "threads_start ex clk io calls"
  have "key_accounted deserialize T k ?start m []"
    using assms(4-7) by (simp add: key_accounted_def writes_ahead_def)
  moreover have "threads_ok T k ?start"
    using assms(2, 3, 8, 10) by (simp add: threads_ok_def list.pred_map comp_def)
  ultimately have "accounted deserialize T k ?start" by blast
  from thread_run_accounted [OF assms(9) this assms(1)]
  obtain m' ws where ok: "threads_ok T k s" "key_accounted deserialize T k s m' ws" and one: "one_writer k s"
    by auto
  let ?p = "exec_repo (th_exec s)"
  from ok(2) have files: "log_in_order (aof ?p) ws" "snapshot_decodes deserialize (snap_file (snapshot ?p)) m'"
      "entry_ahead T (map_of m' k)" "writes_ahead T k ws" by (simp_all add: key_accounted_def)
  obtain ex2 clk3 where "server_startup deserialize (crash ?p) clk2 io_ok = (Inr ex2, crash ?p, clk3, io_ok)"
      "lookup (exec_cache ex2) k = fold apply_key (key_writes k ws) (map_of m' k)"
    by (rule crash_startup_key [OF files(1, 2) assms(11) files(3, 4)])
  moreover have "lookup (exec_cache (th_exec s)) k =
      fold apply_key (key_writes k (pending_writes s)) (fold apply_key (key_writes k ws) (map_of m' k))"
    using ok(2) by (simp add: key_accounted_def)
  ultimately show ?thesis using one by (simp add: one_writer_def)
qed

theorem interleaved_recovery_witness:
  "\<exists>ex2 clk3. server_startup undump (crash (exec_repo (th_exec
      (thread_turn dump_checked 0 (two_writers ''k'' ''a'' ''b''))))) (clock_at (Milliseconds 2)) io_ok =
      (Inr ex2, crash (exec_repo (th_exec (thread_turn dump_checked 0 (two_writers ''k'' ''a'' ''b'')))),
       clk3, io_ok) \<and>
    lookup (exec_cache (th_exec (thread_turn dump_checked 0 (two_writers ''k'' ''a'' ''b'')))) ''k'' =
      apply_key (Set ''k'' ''a'' None) (lookup (exec_cache ex2) ''k'')"
proof -
  let ?s = "two_writers ''k'' ''a'' ''b''"
  have turn: "thread_turn dump_checked 0 ?s = set_phase 0 (Logging (Set ''k'' ''a'' None) OutcomeOk)
      (with_cache (put_key ''k'' (entry_new ''a'' None) (cache_new [])) (clock_at (Milliseconds 1)) ?s)"
    by (simp add: two_writers_def thread_turn_def command_segment_def execute_def cache_execute_def
        cache_insert_def)
  then have pending: "pending_writes (thread_turn dump_checked 0 ?s) = [Set ''k'' ''a'' None]"
    by (simp add: pending_writes_def two_writers_def)
  have run: "thread_run dump_checked (one_writer ''k'') ?s (Suc 0) (thread_turn dump_checked 0 ?s)"
  proof (rule next_turn [OF begin_run])
    show "one_writer ''k'' ?s" by (simp add: one_writer_def two_writers_def)
    show "enabled 0 ?s" by (simp add: enabled_def two_writers_def)
    show "one_writer ''k'' (thread_turn dump_checked 0 ?s)"
      using pending turn by (simp add: one_writer_def two_writers_def)
  qed
  from interleaved_recovery [OF dump_checked_faithful _ _ _ _ _ _ _ run [unfolded two_writers_def],
      where m = "[]" and T = "Milliseconds 9" and ?clk2.0 = "clock_at (Milliseconds 2)"]
  show ?thesis
    using pending
    by (simp add: two_writers_def cache_invar_def entry_ahead_def writes_ahead_def write_deadline_def
        frame_from_write_command_def millis_le_nat) (simp add: cache_new_def)
qed

text \<open>
  C24: the cut calls are the calls of the sequential model.  A thread that is not interrupted between
  its segments does to cache, log, files, clock and its own answer exactly what
  \<^verbatim>\<open>execute_logged\<close> and \<^verbatim>\<open>Persister::snapshot\<close> do in one piece.
\<close>

theorem uninterrupted_call:
  assumes "i < length (th_phases s)" "th_guard s = None"
  shows "(\<forall>cmd r ex clk io. th_phases s ! i = Start (ExecuteLogged cmd) \<longrightarrow>
      execute_logged persister_append cmd (th_exec s) (th_clock s) (th_io s) = (r, ex, clk, io) \<longrightarrow>
      (thread_turn serialize i ^^ 3) s =
        set_phase i (reply_with r) (s\<lparr>th_exec := ex, th_clock := clk, th_io := io\<rparr>)) \<and>
    (\<forall>r p io. th_phases s ! i = Start SnapshotCall \<longrightarrow>
      persister_snapshot serialize (exec_cache (th_exec s)) (exec_repo (th_exec s)) (th_io s) = (r, p, io) \<longrightarrow>
      (thread_turn serialize i ^^ 2) s =
        set_phase i (Finished (Snapped r)) (s\<lparr>th_exec := (th_exec s)\<lparr>exec_repo := p\<rparr>, th_io := io\<rparr>))"
  using ttl_segments [OF assms(1)] command_segments [OF assms(1)] snapshot_segments [OF assms(1) _ assms(2)]
  by metis

theorem uninterrupted_call_witness:
  "\<exists>p io. (thread_turn dump_checked 0 ^^ 2)
      (threads_start fresh_executor (clock_at (Milliseconds 1)) io_ok [SnapshotCall]) =
    set_phase 0 (Finished (Snapped (Inr ())))
      ((threads_start fresh_executor (clock_at (Milliseconds 1)) io_ok [SnapshotCall])
        \<lparr>th_exec := fresh_executor\<lparr>exec_repo := p\<rparr>, th_io := io\<rparr>)"
proof -
  let ?s = "threads_start fresh_executor (clock_at (Milliseconds 1)) io_ok [SnapshotCall]"
  obtain p io where "persister_snapshot dump_checked (exec_cache (th_exec ?s)) (exec_repo (th_exec ?s))
      (th_io ?s) = (Inr (), p, io)"
    by (simp add: persister_snapshot_def snapshot_store_def snapshot_publish_def sync_folder_def
        dump_checked_def dump_def aof_clear_def bw_flush_def os_write_all_def Let_def
        fresh_executor_def executor_new_def cache_new_def)
  with uninterrupted_call [of 0 ?s dump_checked] show ?thesis by auto
qed

text \<open>
  C25: no schedule blocks and none goes on for ever.  Whatever calls are made and however they are
  interleaved, three turns per call are the most there can be, some thread can take the next turn
  until all have returned, and from every state on the way a state is reached where all have.
\<close>

theorem schedules_end:
  assumes "thread_run serialize (\<lambda>_. True) (threads_start ex clk io calls) n s"
  shows "n \<le> 3 * length calls \<and>
    (list_all is_finished (th_phases s) \<or> (\<exists>i. enabled i s)) \<and>
    (\<exists>m s'. thread_run serialize (\<lambda>_. True) s m s' \<and> list_all is_finished (th_phases s'))"
proof -
  note facts = thread_run_facts [OF assms guard_ok_start]
  from guard_ok_progress [OF facts(1)] thread_run_extend [OF facts(1) begin_run] facts(2)
  show ?thesis by auto
qed

theorem schedules_end_witness:
  "\<exists>m s'. thread_run dump_checked (\<lambda>_. True) (two_writers ''k'' ''a'' ''b'') m s' \<and>
     list_all is_finished (th_phases s')"
  unfolding two_writers_def using schedules_end [OF begin_run] by blast

text \<open>
  two writers of one key.  When both have reached the cache before either has reached the log, and
  reach the log in the other order, both are told \<^verbatim>\<open>OK\<close>, the cache holds the second value, and the
  next start brings back the first.
\<close>

theorem racing_writers_diverge:
  assumes "write_fits (Set k v1 None)" "write_fits (Set k v2 None)"
    and "s = run_schedule serialize [0, 1, 1, 0] (two_writers k v1 v2)"
  shows "th_phases s = [reply_with (Inr OutcomeOk), reply_with (Inr OutcomeOk)] \<and>
    lookup (exec_cache (th_exec s)) k = Some (entry_new v2 None) \<and>
    (\<exists>ex2 clk3. server_startup deserialize (crash (exec_repo (th_exec s))) (clock_at t) io_ok =
        (Inr ex2, crash (exec_repo (th_exec s)), clk3, io_ok) \<and>
      lookup (exec_cache ex2) k = Some (entry_new v1 None))"
proof -
  define s1 where "s1 = run_schedule serialize [0, 1] (two_writers k v1 v2)"
  have s: "s = run_schedule serialize [1, 0] s1"
    using assms(3) run_schedule_append [of serialize "[0, 1]" "[1, 0]"] by (simp add: s1_def)
  have s1: "th_phases s1 = [Logging (Set k v1 None) OutcomeOk, Logging (Set k v2 None) OutcomeOk]"
      "th_io s1 = io_ok" "log_in_order (aof (exec_repo (th_exec s1))) []"
      "lookup (exec_cache (th_exec s1)) k = Some (entry_new v2 None)"
      "snap_file (snapshot (exec_repo (th_exec s1))) = []"
    unfolding s1_def two_writers_in_cache by (simp_all add: two_writers_def map_laws)
      (simp_all add: fresh_executor_def executor_new_def)
  obtain p where p: "s = s1\<lparr>th_exec := (th_exec s1)\<lparr>exec_repo := p\<rparr>,
        th_phases := [reply_with (Inr OutcomeOk), reply_with (Inr OutcomeOk)]\<rparr>"
      "log_in_order (aof p) [Set k v2 None, Set k v1 None]" "snapshot p = snapshot (exec_repo (th_exec s1))"
    using swapped_appends [OF assms(1, 2) s1(1-3), of serialize] s by auto
  have "snapshot_decodes deserialize (snap_file (snapshot p)) []"
    using p(3) s1(5) by (simp add: snapshot_decodes_def)
  from crash_startup_key [OF p(2) this, of t "clock_at t" k]
  have "\<exists>ex2 clk3. server_startup deserialize (crash p) (clock_at t) io_ok = (Inr ex2, crash p, clk3, io_ok) \<and>
      lookup (exec_cache ex2) k = Some (entry_new v1 None)"
    by (simp add: entry_ahead_def writes_ahead_def write_deadline_def apply_key_def) metis
  with p(1) s1(4) show ?thesis by simp
qed

theorem racing_writers_diverge_witness:
  "lookup (exec_cache (th_exec (run_schedule dump_checked [0, 1, 1, 0] (two_writers ''k'' ''a'' ''b'')))) ''k'' =
     Some (entry_new ''b'' None) \<and>
   (\<exists>ex2 clk3. server_startup undump (crash (exec_repo (th_exec
        (run_schedule dump_checked [0, 1, 1, 0] (two_writers ''k'' ''a'' ''b''))))) (clock_at (Milliseconds 5)) io_ok =
      (Inr ex2, crash (exec_repo (th_exec
        (run_schedule dump_checked [0, 1, 1, 0] (two_writers ''k'' ''a'' ''b'')))), clk3, io_ok) \<and>
     lookup (exec_cache ex2) ''k'' = Some (entry_new ''a'' None))"
  using racing_writers_diverge [OF _ _ refl, of "''k''" "''a''" "''b''" dump_checked undump "Milliseconds 5"]
  by (simp add: frame_from_write_command_def)

end
