(* ===== verification/Pipelining.thy ===== *)
theory Pipelining
  imports Session
begin

text \<open>
  A client may send its next commands before it has the answers to the first.  \<open>serve\<close> is what it is
  promised, frame by frame, with no socket, buffer or queue; the loop of a session
  (\<^verbatim>\<open>inbound/session.rs\<close>) is shown to keep that promise for every way the bytes can arrive.
\<close>

section \<open>The promise\<close>

text \<open>
  One frame: its answer and its effect.  A frame that is no command is answered with an error and
  changes nothing.  \<open>None\<close> where the promise ends: at a command that fails inside the server, and at the
  commands of publish and subscribe, which concern other sessions too.
\<close>

definition serve_one ::
    "('b, 'e) execute_op \<Rightarrow> frame \<Rightarrow> 'e \<Rightarrow> clock \<Rightarrow> (bytes \<times> 'e \<times> clock) option" where
  "serve_one exec f x clk =
    (case command_try_from f clk of
       (Inl e, clk) \<Rightarrow> Some (reply_to_bytes (err_reply (command_from_frame_error_display e)), x, clk)
     | (Inr (Cache cc), clk) \<Rightarrow>
         (case exec cc x clk of
            (Inl _, _, _) \<Rightarrow> None
          | (Inr outcome, x, clk) \<Rightarrow> Some (reply_to_bytes (reply_from_outcome outcome), x, clk))
     | (Inr (Ping message), clk) \<Rightarrow> Some (reply_to_bytes (reply_from_outcome (Pong message)), x, clk)
     | (Inr (Channel _), clk) \<Rightarrow> None)"

fun serve ::
    "('b, 'e) execute_op \<Rightarrow> frame list \<Rightarrow> 'e \<Rightarrow> clock \<Rightarrow> (bytes list \<times> 'e \<times> clock) option" where
  "serve exec [] x clk = Some ([], x, clk)"
| "serve exec (f # fs) x clk =
    (case serve_one exec f x clk of
       None \<Rightarrow> None
     | Some (answer, x, clk) \<Rightarrow>
         (case serve exec fs x clk of
            None \<Rightarrow> None
          | Some (answers, x, clk) \<Rightarrow> Some (answer # answers, x, clk)))"

section \<open>The end of the stream\<close>

text \<open>The only read errors a session survives.\<close>

definition only_timeouts :: "session_reader \<Rightarrow> bool" where
  "only_timeouts sr \<longleftrightarrow> (\<forall>k. ReadErr k \<in> set (sr_socket sr) \<longrightarrow> k = TimedOut \<or> k = WouldBlock)"

lemma reader_read_socket: "reader_read sr = (r, sr') \<Longrightarrow> suffix (sr_socket sr') (sr_socket sr)"
  by (auto simp: reader_read_def suffix_ConsI split: list.splits read_event.splits)

lemma parse_frame_socket: "parse_frame sr = (r, sr') \<Longrightarrow> sr_socket sr' = sr_socket sr"
  by (auto simp: parse_frame_def Let_def split: sum.splits prod.splits if_splits)

lemma read_frame_socket:
  "read_frame sr s boxes = (r, sr', boxes') \<Longrightarrow> suffix (sr_socket sr') (sr_socket sr)"
proof (induction sr s boxes rule: read_frame.induct)
  case (1 sr s boxes)
  obtain a sr1 where p: "parse_frame sr = (a, sr1)" by (cases "parse_frame sr")
  note same = parse_frame_socket [OF p]
  show ?case
  proof (cases a)
    case (Inr f)
    with p 1(3) same show ?thesis by (simp add: read_frame.simps [of sr])
  next
    case (Inl e)
    obtain b sr2 where rd: "reader_read sr1 = (b, sr2)" by (cases "reader_read sr1")
    note shorter = reader_read_socket [OF rd]
    show ?thesis
    proof (cases "e = Incomplete")
      case True
      with 1 p Inl rd same shorter show ?thesis
        by (cases b) (fastforce simp: read_frame.simps [of sr] split: if_splits
            intro: suffix_order.trans)+
    next
      case False
      obtain d boxes1 where snd: "sender_send (reply_to_bytes (err_reply (frame_error_display e))) s boxes =
          (d, boxes1)" by (cases "sender_send (reply_to_bytes (err_reply (frame_error_display e))) s boxes")
      with 1 p Inl False same show ?thesis
        by (cases d) (fastforce simp: read_frame.simps [of sr])+
    qed
  qed
qed

lemma only_timeouts_read: "only_timeouts sr \<Longrightarrow> suffix (sr_socket sr') (sr_socket sr) \<Longrightarrow> only_timeouts sr'"
  by (auto simp: only_timeouts_def dest: set_mono_suffix)

lemma read_frame_end:
  assumes "stream_bytes sr = []" "proper_chunks sr"
  shows "\<exists>(r :: ('x read_half_error, frame option) result) sr'.
    read_frame sr s boxes = (r, sr', boxes) \<and> proper_chunks sr' \<and> stream_bytes sr' = [] \<and>
    (r = Inr None \<or> (\<exists>k. r = Inl (RhIo k) \<and> ReadErr k \<in> set (sr_socket sr)))"
proof -
  have inc: "parse_frame sr = (Inl Incomplete, sr)"
    using assms(1) by (simp add: stream_bytes_def parse_frame_def parse_one.simps)
  show ?thesis
  proof (cases "sr_socket sr")
    case Nil
    with inc assms show ?thesis by (simp add: read_frame.simps [of sr] reader_read_def)
  next
    case (Cons ev socket)
    with assms obtain k where "ev = ReadErr k"
      by (cases ev) (auto simp: stream_bytes_def proper_chunks_def)
    with inc Cons assms show ?thesis
      by (simp add: read_frame.simps [of sr] reader_read_def stream_bytes_def proper_chunks_def)
  qed
qed

section \<open>The loop, one frame at a time\<close>

lemma repl_loop_break:
  "repl_step exec False rh w = (Break r, rh', w') \<Longrightarrow> repl_loop exec (sconst False) rh w = (r, rh', w')"
  by (simp add: repl_loop.simps [of exec "sconst False"])

lemma repl_loop_continue:
  "repl_step exec False rh w = (Continue, rh', w') \<Longrightarrow>
     repl_loop exec (sconst False) rh w = repl_loop exec (sconst False) rh' w'"
  by (simp add: repl_loop.simps [of exec "sconst False" rh w])

text \<open>What the loop does next only depends on what \<^verbatim>\<open>read_command\<close> returns.\<close>

lemma repl_loop_same_read:
  fixes exec :: "('b, 'e) execute_op"
  assumes "(read_half_read_command (rh_reader rh) (rh_sender rh) (w_boxes w) (w_clock w) ::
      ('b execute_error read_half_error, command option) result \<times> _) =
    read_half_read_command sr (rh_sender rh) boxes clk"
  shows "repl_loop exec (sconst False) rh w =
    repl_loop exec (sconst False) (rh\<lparr>rh_reader := sr\<rparr>) (w\<lparr>w_boxes := boxes, w_clock := clk\<rparr>)"
proof -
  have "repl_step exec False rh w =
      repl_step exec False (rh\<lparr>rh_reader := sr\<rparr>) (w\<lparr>w_boxes := boxes, w_clock := clk\<rparr>)"
    using assms by (simp add: repl_step_def)
  then show ?thesis
    using repl_loop.simps [of exec "sconst False" rh w]
      repl_loop.simps [of exec "sconst False" "rh\<lparr>rh_reader := sr\<rparr>" "w\<lparr>w_boxes := boxes, w_clock := clk\<rparr>"]
    by simp
qed

text \<open>A message more in a session's own queue, everything else as it was.\<close>

abbreviation queued :: "sender \<Rightarrow> bytes list \<Rightarrow> mailboxes \<Rightarrow> mailboxes" where
  "queued a msgs boxes \<equiv> boxes(a := (boxes a)\<lparr>mbox_queue := mbox_queue (boxes a) @ msgs\<rparr>)"

lemma repl_loop_timeout:
  fixes exec :: "('b, 'e) execute_op"
  assumes "(read_frame (rh_reader rh) (rh_sender rh) (w_boxes w) ::
      ('b execute_error read_half_error, frame option) result \<times> _) = (Inl (RhIo k), sr, w_boxes w)"
    and "k = TimedOut \<or> k = WouldBlock"
  shows "repl_loop exec (sconst False) rh w = repl_loop exec (sconst False) (rh\<lparr>rh_reader := sr\<rparr>) w"
proof (rule repl_loop_continue)
  have "(read_half_read_command (rh_reader rh) (rh_sender rh) (w_boxes w) (w_clock w) ::
      ('b execute_error read_half_error, command option) result \<times> _) =
    (Inl (RhIo k), sr, w_boxes w, w_clock w)"
    using assms(1) by (simp add: read_half_read_command.simps [of "rh_reader rh"])
  with assms(2) show "repl_step exec False rh w = (Continue, rh\<lparr>rh_reader := sr\<rparr>, w)"
    by (auto simp: repl_step_def)
qed

lemma repl_loop_frame:
  fixes exec :: "('b, 'e) execute_op"
  assumes "(read_frame (rh_reader rh) (rh_sender rh) (w_boxes w) ::
      ('b execute_error read_half_error, frame option) result \<times> _) = (Inr (Some f), sr, w_boxes w)"
    and "mbox_open (w_boxes w (rh_sender rh))" "serve_one exec f (w_exec w) (w_clock w) = Some (answer, x, clk)"
  shows "repl_loop exec (sconst False) rh w = repl_loop exec (sconst False) (rh\<lparr>rh_reader := sr\<rparr>)
    (w\<lparr>w_exec := x, w_boxes := queued (rh_sender rh) [answer] (w_boxes w), w_clock := clk\<rparr>)"
proof -
  let ?read = "\<lambda>sr boxes clk. (read_half_read_command sr (rh_sender rh) boxes clk ::
      ('b execute_error read_half_error, command option) result \<times> _)"
  obtain lifted clk1 where lift: "command_try_from f (w_clock w) = (lifted, clk1)" by fastforce
  show ?thesis
  proof (cases lifted)
    case (Inl e)
    with lift assms(3) have a: "answer = reply_to_bytes (err_reply (command_from_frame_error_display e))"
        "x = w_exec w" "clk = clk1" by (simp_all add: serve_one_def)
    have "?read (rh_reader rh) (w_boxes w) (w_clock w) =
        ?read sr (queued (rh_sender rh) [answer] (w_boxes w)) clk1"
      using assms(1, 2) lift Inl a(1)
      by (simp add: read_half_read_command.simps [of "rh_reader rh"] sender_send_def)
    from repl_loop_same_read [OF this] a show ?thesis by simp
  next
    case (Inr cmd)
    have read: "?read (rh_reader rh) (w_boxes w) (w_clock w) = (Inr (Some cmd), sr, w_boxes w, clk1)"
      using assms(1) lift Inr by (simp add: read_half_read_command.simps [of "rh_reader rh"])
    show ?thesis
    proof (rule repl_loop_continue)
      show "repl_step exec False rh w = (Continue, rh\<lparr>rh_reader := sr\<rparr>,
          w\<lparr>w_exec := x, w_boxes := queued (rh_sender rh) [answer] (w_boxes w), w_clock := clk\<rparr>)"
        using assms(2, 3) lift Inr read
        by (auto simp: serve_one_def repl_step_def run_command_def send_reply_def sender_send_def
            split: command.splits prod.splits sum.splits)
    qed
  qed
qed

lemma repl_loop_serves:
  fixes exec :: "('b, 'e) execute_op"
  shows "stream_bytes (rh_reader rh) = concat (map frame_write_to fs) \<Longrightarrow> list_all frame_fits fs \<Longrightarrow>
    proper_chunks (rh_reader rh) \<Longrightarrow> only_timeouts (rh_reader rh) \<Longrightarrow>
    mbox_open (w_boxes w (rh_sender rh)) \<Longrightarrow> serve exec fs (w_exec w) (w_clock w) = Some (answers, x, clk) \<Longrightarrow>
    \<exists>sr. repl_loop exec (sconst False) rh w = (Inr (), rh\<lparr>rh_reader := sr\<rparr>,
      w\<lparr>w_exec := x, w_boxes := queued (rh_sender rh) answers (w_boxes w), w_clock := clk\<rparr>)"
proof (induction "pending (rh_reader rh)" arbitrary: rh w fs answers rule: less_induct)
  case less
  let ?sr = "rh_reader rh"
  let ?frame = "\<lambda>sr. (read_frame sr (rh_sender rh) (w_boxes w) ::
      ('b execute_error read_half_error, frame option) result \<times> _)"
  have shorter: "pending sr < pending ?sr" "only_timeouts sr"
    if "?frame ?sr = (r, sr, boxes)" "r \<noteq> Inr None" for r sr boxes
    using that read_frame_pending read_frame_socket only_timeouts_read [OF less.prems(4)] by blast+
  have timeout: ?case if t: "?frame ?sr = (Inl (RhIo k), sr, w_boxes w)" "ReadErr k \<in> set (sr_socket ?sr)"
      "stream_bytes sr = stream_bytes ?sr" "proper_chunks sr" for k sr
  proof -
    have k: "k = TimedOut \<or> k = WouldBlock" using less.prems(4) t(2) by (auto simp: only_timeouts_def)
    have "\<exists>sr'. repl_loop exec (sconst False) (rh\<lparr>rh_reader := sr\<rparr>) w =
        (Inr (), (rh\<lparr>rh_reader := sr\<rparr>)\<lparr>rh_reader := sr'\<rparr>,
         w\<lparr>w_exec := x, w_boxes := queued (rh_sender rh) answers (w_boxes w), w_clock := clk\<rparr>)"
      using less.hyps [of "rh\<lparr>rh_reader := sr\<rparr>" fs w answers] shorter [OF t(1)] t(3, 4) less.prems by simp
    with repl_loop_timeout [OF t(1) k, of exec] show ?thesis by simp
  qed
  show ?case
  proof (cases fs)
    case Nil
    then obtain r sr where end_of_stream: "?frame ?sr = (r, sr, w_boxes w)" "proper_chunks sr" "stream_bytes sr = []"
        "r = Inr None \<or> (\<exists>k. r = Inl (RhIo k) \<and> ReadErr k \<in> set (sr_socket ?sr))"
      using read_frame_end [of ?sr "rh_sender rh" "w_boxes w", where ?'x = "'b execute_error"] less.prems(1, 3)
      by auto
    from end_of_stream(4) show ?thesis
    proof
      assume "r = Inr None"
      then have "repl_step exec False rh w = (Break (Inr ()), rh\<lparr>rh_reader := sr\<rparr>, w)"
        using end_of_stream(1) by (simp add: repl_step_def read_half_read_command.simps [of ?sr])
      from repl_loop_break [OF this] Nil less.prems(6) show ?thesis by auto
    next
      assume "\<exists>k. r = Inl (RhIo k) \<and> ReadErr k \<in> set (sr_socket ?sr)"
      with timeout end_of_stream Nil less.prems(1) show ?thesis by auto
    qed
  next
    case (Cons f fs')
    obtain answer x1 clk1 answers' where
        one: "serve_one exec f (w_exec w) (w_clock w) = Some (answer, x1, clk1)"
      and rest: "serve exec fs' x1 clk1 = Some (answers', x, clk)" "answers = answer # answers'"
      using less.prems(6) Cons by (auto split: option.splits)
    have f: "frame_fits f" "stream_bytes ?sr = frame_write_to f @ concat (map frame_write_to fs')"
      using less.prems(1, 2) Cons by simp_all
    obtain r sr where got: "?frame ?sr = (r, sr, w_boxes w)" "proper_chunks sr"
        "r = Inr (Some f) \<and> stream_bytes sr = concat (map frame_write_to fs') \<or>
         (\<exists>k. r = Inl (RhIo k) \<and> stream_bytes sr = stream_bytes ?sr \<and> ReadErr k \<in> set (sr_socket ?sr))"
      using read_frame_next [OF f less.prems(3), of "rh_sender rh" "w_boxes w", where ?'x = "'b execute_error"]
      by blast
    from got(3) show ?thesis
    proof
      assume r: "r = Inr (Some f) \<and> stream_bytes sr = concat (map frame_write_to fs')"
      let ?w = "w\<lparr>w_exec := x1, w_boxes := queued (rh_sender rh) [answer] (w_boxes w), w_clock := clk1\<rparr>"
      have "\<exists>sr'. repl_loop exec (sconst False) (rh\<lparr>rh_reader := sr\<rparr>) ?w =
          (Inr (), (rh\<lparr>rh_reader := sr\<rparr>)\<lparr>rh_reader := sr'\<rparr>,
           ?w\<lparr>w_exec := x, w_boxes := queued (rh_sender rh) answers' (w_boxes ?w), w_clock := clk\<rparr>)"
        using less.hyps [of "rh\<lparr>rh_reader := sr\<rparr>" fs' ?w answers'] shorter [OF got(1)] got(2) r
          less.prems(2, 5) Cons rest(1) by simp
      moreover have "repl_loop exec (sconst False) rh w =
          repl_loop exec (sconst False) (rh\<lparr>rh_reader := sr\<rparr>) ?w"
        using repl_loop_frame [OF _ less.prems(5) one] got(1) r by simp
      ultimately show ?thesis using rest(2) by auto
    next
      assume "\<exists>k. r = Inl (RhIo k) \<and> stream_bytes sr = stream_bytes ?sr \<and> ReadErr k \<in> set (sr_socket ?sr)"
      with timeout got show ?thesis by auto
    qed
  qed
qed

section \<open>Properties\<close>

text \<open>
  C10: pipelined commands.  However the bytes of a list of frames are cut into reads, with time-outs in
  between, the loop of a session carries the commands out one after the other, each against what the
  ones before it left, answers every frame once and in order, with an error where it is no command, and
  ends cleanly at the end of the stream; no other queue and no subscription is touched.
\<close>

theorem pipelined_commands:
  fixes exec :: "('b, 'e) execute_op"
  assumes "stream_bytes (rh_reader rh) = concat (map frame_write_to fs)" "list_all frame_fits fs"
    and "proper_chunks (rh_reader rh)" "only_timeouts (rh_reader rh)"
    and "mbox_open (w_boxes w (rh_sender rh))" "serve exec fs (w_exec w) (w_clock w) = Some (answers, x, clk)"
  shows "\<exists>sr. repl_loop exec (sconst False) rh w = (Inr (), rh\<lparr>rh_reader := sr\<rparr>,
      w\<lparr>w_exec := x, w_boxes := queued (rh_sender rh) answers (w_boxes w), w_clock := clk\<rparr>) \<and>
    length answers = length fs"
proof -
  have "serve exec fs y clk0 = Some (as, y', clk') \<Longrightarrow> length as = length fs" for y clk0 as y' clk'
    by (induction fs arbitrary: y clk0 as) (auto split: option.splits)
  with repl_loop_serves [OF assms] assms(6) show ?thesis by blast
qed

theorem pipelined_commands_witness:
  "\<exists>sr. repl_loop (execute :: (unit, unit executor) execute_op) (sconst False)
      \<lparr>rh_id = 1, rh_reader = \<lparr>sr_socket =
         [Chunk (frame_write_to (Array [BulkString ''PING'']) @ ''*''), ReadErr TimedOut, Chunk (''0'' @ CRLF)],
         sr_buf = []\<rparr>, rh_sender = 7, rh_subscriptions = []\<rparr>
      \<lparr>w_exec = executor_new (cache_new []) (), w_channels = channels_new,
       w_boxes = (\<lambda>_. \<lparr>mbox_queue = [], mbox_open = True\<rparr>), w_clock = clock_at (Milliseconds 1)\<rparr> =
    (Inr (), \<lparr>rh_id = 1, rh_reader = sr, rh_sender = 7, rh_subscriptions = []\<rparr>,
     \<lparr>w_exec = executor_new (cache_new []) (), w_channels = channels_new,
      w_boxes = (\<lambda>_. \<lparr>mbox_queue = [], mbox_open = True\<rparr>)(7 :=
        \<lparr>mbox_queue = [''+PONG'' @ CRLF, ''-ERR not enough parts'' @ CRLF], mbox_open = True\<rparr>),
      w_clock = clock_at (Milliseconds 1)\<rparr>)"
proof -
  let ?fs = "[Array [BulkString ''PING''], Array []]"
  let ?rh = "\<lparr>rh_id = 1, rh_reader = \<lparr>sr_socket =
      [Chunk (frame_write_to (Array [BulkString ''PING'']) @ ''*''), ReadErr TimedOut, Chunk (''0'' @ CRLF)],
      sr_buf = []\<rparr>, rh_sender = 7, rh_subscriptions = []\<rparr>"
  let ?w = "\<lparr>w_exec = executor_new (cache_new []) (), w_channels = channels_new,
    w_boxes = (\<lambda>_. \<lparr>mbox_queue = [], mbox_open = True\<rparr>), w_clock = clock_at (Milliseconds 1)\<rparr>"
  have ping: "command_try_from (Array [BulkString ''PING'']) clk = (Inr (Ping None), clk)" for clk
    by (simp add: command_try_from_def dispatch_verb_def parse_ping_def command_defs lower_eval)
  have none: "command_try_from (Array []) clk = (Inl (CommandError NotEnoughParts), clk)" for clk
    by (simp add: command_try_from_def)
  have promise: "serve (execute :: (unit, unit executor) execute_op) ?fs (w_exec ?w) (w_clock ?w) =
      Some ([''+PONG'' @ CRLF, ''-ERR not enough parts'' @ CRLF], w_exec ?w, w_clock ?w)"
    by (simp add: serve_one_def ping none reply_from_outcome_def simple_pong_def err_reply_def sanitized_def)
  have zero: "digit_byte 0 = CHR ''0''" by code_simp
  have "stream_bytes (rh_reader ?rh) = concat (map frame_write_to ?fs)" "list_all frame_fits ?fs"
      "proper_chunks (rh_reader ?rh)" "only_timeouts (rh_reader ?rh)" "mbox_open (w_boxes ?w (rh_sender ?rh))"
    by (simp_all add: stream_bytes_def proper_chunks_def only_timeouts_def show_nat.simps zero)
  from pipelined_commands [OF this promise] show ?thesis by simp
qed

end
