(* ===== verification/Power_Loss.thy ===== *)
theory Power_Loss
  imports Recovery
begin

text \<open>
  \<^verbatim>\<open>Snapshot::store\<close> (\<^verbatim>\<open>outbound/persister/snapshot.rs\<close>) once more, with what the operating system has
  been told to keep.  \<open>Persister\<close> follows the files as the next process sees them; here a file also
  remembers whether it has been synced, and the folder which file a machine that loses power would find
  under the snapshot's name.  The page cache's view of this model is the other model.
\<close>

section \<open>Files that may not be on the disk yet\<close>

record inode =
  cached :: bytes
  synced :: bool

record folder =
  live_snapshot :: inode
  live_temp :: "inode option"
  kept_snapshot :: inode

text \<open>Whichever file is found under the snapshot's name is one that has been synced.\<close>

definition intact :: "folder \<Rightarrow> bool" where
  "intact f \<longleftrightarrow> synced (live_snapshot f) \<and> synced (kept_snapshot f)"

text \<open>
  What may be found after the power comes back: under the snapshot's name the file the folder had on
  the disk or the one it had in memory, and of a file that was not synced any bytes at all.
\<close>

definition may_survive :: "folder \<Rightarrow> bytes \<Rightarrow> bool" where
  "may_survive f bs \<longleftrightarrow>
     (synced (live_snapshot f) \<longrightarrow> bs = cached (live_snapshot f)) \<or>
     (synced (kept_snapshot f) \<longrightarrow> bs = cached (kept_snapshot f))"

section \<open>The store\<close>

definition durable_publish :: "folder \<Rightarrow> io \<Rightarrow> (snapshot_error, unit) result \<times> folder \<times> io" where
  "durable_publish f io =
    (case io_call io of
       (Inl e, io) \<Rightarrow> (Inl (SnapshotIo e), f, io)
     | (Inr _, io) \<Rightarrow>
         (let temp = (the (live_temp f))\<lparr>synced := True\<rparr>; f = f\<lparr>live_temp := Some temp\<rparr>
          in case io_call io of
            (Inl e, io) \<Rightarrow> (Inl (SnapshotIo e), f, io)
          | (Inr _, io) \<Rightarrow>
              (let f = f\<lparr>live_snapshot := temp, live_temp := None\<rparr>
               in case io_call io of
                 (Inl e, io) \<Rightarrow> (Inl (SnapshotIo e), f, io)
               | (Inr _, io) \<Rightarrow>
                   (case io_call io of
                      (Inl e, io) \<Rightarrow> (Inl (SnapshotIo e), f, io)
                    | (Inr _, io) \<Rightarrow> (Inr (), f\<lparr>kept_snapshot := live_snapshot f\<rparr>, io)))))"

definition durable_store ::
    "(data \<Rightarrow> (write_error, bytes) result) \<Rightarrow> data \<Rightarrow> folder \<Rightarrow> io \<Rightarrow>
      (snapshot_error, unit) result \<times> folder \<times> io" where
  "durable_store serialize m f io =
    (case io_call io of
       (Inl e, io) \<Rightarrow> (Inl (SnapshotIo e), f, io)
     | (Inr _, io) \<Rightarrow>
         (let f = f\<lparr>live_temp := Some \<lparr>cached = [], synced = False\<rparr>\<rparr>
          in case serialize m of
            Inl e \<Rightarrow> (Inl (SnapshotWrite e), f, io)
          | Inr bs \<Rightarrow>
              (case os_write_all bs io of
                 (Inl e, n, io) \<Rightarrow>
                   (Inl (SnapshotIo e), f\<lparr>live_temp := Some \<lparr>cached = take n bs, synced = False\<rparr>\<rparr>, io)
               | (Inr _, n, io) \<Rightarrow>
                   durable_publish (f\<lparr>live_temp := Some \<lparr>cached = bs, synced = False\<rparr>\<rparr>) io)))"

text \<open>The files as a process sees them.\<close>

definition page_cache :: "folder \<Rightarrow> snapshot_files" where
  "page_cache f = \<lparr>snap_file = cached (live_snapshot f), snap_tmp = map_option cached (live_temp f)\<rparr>"

lemma durable_publish_page_cache:
  assumes "live_temp f \<noteq> None" "durable_publish f io = (r, f', io')"
  shows "snapshot_publish (page_cache f) io = (r, page_cache f', io')"
  using assms
  by (auto simp: durable_publish_def snapshot_publish_def sync_folder_def page_cache_def Let_def map_err_def
      split: prod.splits sum.splits)

lemma durable_store_page_cache:
  assumes "durable_store serialize m f io = (r, f', io')"
  shows "snapshot_store serialize m (page_cache f) io = (r, page_cache f', io')"
proof (cases "fst (io_call io)")
  case (Inl e)
  with assms show ?thesis by (cases "io_call io") (simp add: durable_store_def snapshot_store_def)
next
  case (Inr u)
  obtain io1 where open_temp: "io_call io = (Inr (), io1)" using Inr by (cases "io_call io") simp
  show ?thesis
  proof (cases "serialize m")
    case (Inl e)
    with assms open_temp show ?thesis
      by (auto simp: durable_store_def snapshot_store_def page_cache_def Let_def)
  next
    case (Inr bs)
    obtain r1 n io2 where wr: "os_write_all bs io1 = (r1, n, io2)" using prod_cases3 by blast
    show ?thesis
    proof (cases r1)
      case (Inl e)
      with assms open_temp Inr wr show ?thesis
        by (auto simp: durable_store_def snapshot_store_def page_cache_def Let_def)
    next
      case (Inr u)
      let ?f = "f\<lparr>live_temp := Some \<lparr>cached = bs, synced = False\<rparr>\<rparr>"
      have "durable_publish ?f io2 = (r, f', io')"
        using assms open_temp \<open>serialize m = Inr bs\<close> wr Inr by (simp add: durable_store_def Let_def)
      from durable_publish_page_cache [OF _ this] open_temp \<open>serialize m = Inr bs\<close> wr Inr show ?thesis
        by (simp add: snapshot_store_def page_cache_def Let_def)
    qed
  qed
qed

lemma durable_publish_survivors:
  assumes "intact f" "live_temp f = Some temp" "durable_publish f io = (r, f', io')"
  shows "intact f' \<and> (may_survive f' bs \<longrightarrow> may_survive f bs \<or> bs = cached temp) \<and>
    (r = Inr () \<longrightarrow> (may_survive f' bs \<longleftrightarrow> bs = cached temp))"
  using assms
  by (auto simp: durable_publish_def intact_def may_survive_def Let_def split: prod.splits sum.splits)

lemma durable_store_survivors:
  assumes "intact f" "durable_store serialize m f io = (r, f', io')"
  shows "intact f' \<and> (may_survive f' bs \<longrightarrow> may_survive f bs \<or> serialize m = Inr bs) \<and>
    (r = Inr () \<longrightarrow> (may_survive f' bs \<longleftrightarrow> serialize m = Inr bs))"
  using assms durable_publish_survivors [of "f\<lparr>live_temp := Some \<lparr>cached = _, synced = False\<rparr>\<rparr>"]
  by (fastforce simp: durable_store_def intact_def may_survive_def Let_def split: prod.splits sum.splits)

section \<open>Properties\<close>

text \<open>
  C12: a snapshot survives a loss of power.  Whichever call of the store is the last one the machine
  makes, what is found under the snapshot's name afterwards is what could have been found before, or the
  complete new snapshot, although a file not yet synced may hold anything; once the store has reported
  success it can only be the new one.  A failed store leaves a folder the next one can rely on, and a
  process that goes on sees the files of the model without power loss.
\<close>

theorem snapshot_survives_power_loss:
  assumes "intact f" "durable_store serialize m f io = (r, f', io')"
  shows "intact f' \<and>
    (may_survive f' bs \<longrightarrow> may_survive f bs \<or> serialize m = Inr bs) \<and>
    (r = Inr () \<longrightarrow> (may_survive f' bs \<longleftrightarrow> serialize m = Inr bs)) \<and>
    snapshot_store serialize m (page_cache f) io = (r, page_cache f', io')"
  using durable_store_survivors [OF assms] durable_store_page_cache [OF assms(2)] by blast

theorem snapshot_survives_power_loss_witness:
  "\<exists>f'. durable_store dump [] \<lparr>live_snapshot = \<lparr>cached = ''old'', synced = True\<rparr>, live_temp = None,
        kept_snapshot = \<lparr>cached = ''old'', synced = True\<rparr>\<rparr> (IoOk ## IoOk ## IoOk ## IoFail 0 ## io_ok) =
      (Inl (SnapshotIo IoError), f', io_ok) \<and>
    (may_survive f' ''junk'' \<longleftrightarrow> False)"
proof -
  let ?f = "\<lparr>live_snapshot = \<lparr>cached = ''old'', synced = True\<rparr>, live_temp = None,
    kept_snapshot = \<lparr>cached = ''old'', synced = True\<rparr>\<rparr>"
  obtain f' where run: "durable_store dump [] ?f (IoOk ## IoOk ## IoOk ## IoFail 0 ## io_ok) =
      (Inl (SnapshotIo IoError), f', io_ok)"
    by (simp add: durable_store_def durable_publish_def dump_def os_write_all_def io_call_def Let_def)
  have "intact ?f" by (simp add: intact_def)
  from snapshot_survives_power_loss [OF this run, of "''junk''"]
  have "\<not> may_survive f' ''junk''" by (simp add: may_survive_def dump_def)
  with run show ?thesis by simp
qed

end
