(* ===== verification/Delivery.thy ===== *)
theory Delivery
  imports Server
begin

text \<open>
  A message from its publisher to the sockets of its subscribers: the session that reads the
  \<^verbatim>\<open>PUBLISH\<close> (\<^verbatim>\<open>inbound/session.rs\<close>), the registry that fans it out (\<^verbatim>\<open>domain/channels.rs\<close>), and
  the writer threads that put it on the wire, on the shared state of a running server.
\<close>

section \<open>Mailboxes stay open\<close>

text \<open>Sending changes queues, never who is listening.\<close>

abbreviation same_open :: "mailboxes \<Rightarrow> mailboxes \<Rightarrow> bool" where
  "same_open boxes boxes' \<equiv> (\<lambda>a. mbox_open (boxes' a)) = (\<lambda>a. mbox_open (boxes a))"

lemma sender_send_open: "sender_send message s boxes = (r, boxes') \<Longrightarrow> same_open boxes boxes'"
  by (auto simp: sender_send_def intro!: ext split: if_splits)

lemma read_frame_open: "read_frame sr s boxes = (r, sr', boxes') \<Longrightarrow> same_open boxes boxes'"
proof (induction sr s boxes rule: read_frame.induct)
  case (1 sr s boxes)
  obtain a sr1 where p: "parse_frame sr = (a, sr1)" by (cases "parse_frame sr")
  show ?case
  proof (cases a)
    case (Inr f)
    with p 1(3) show ?thesis by (simp add: read_frame.simps [of sr])
  next
    case (Inl e)
    obtain b sr2 where rd: "reader_read sr1 = (b, sr2)" by (cases "reader_read sr1")
    obtain d boxes1 where snd: "sender_send (reply_to_bytes (err_reply (frame_error_display e))) s boxes =
        (d, boxes1)" by (cases "sender_send (reply_to_bytes (err_reply (frame_error_display e))) s boxes")
    show ?thesis
    proof (cases "e = Incomplete")
      case True
      with 1(3) p Inl rd show ?thesis
        by (cases b) (auto simp: read_frame.simps [of sr] split: if_splits intro: 1(1))
    next
      case False
      then have "d = Inr () \<Longrightarrow> same_open boxes1 boxes'"
        using 1(3) p Inl snd by (auto simp: read_frame.simps [of sr] intro!: 1(2))
      with False 1(3) p Inl snd sender_send_open [OF snd] show ?thesis
        by (cases d) (simp_all add: read_frame.simps [of sr])
    qed
  qed
qed

lemma read_command_open:
  fixes r :: "('x read_half_error, command option) result"
  shows "read_half_read_command sr s boxes clk = (r, sr', boxes', clk') \<Longrightarrow> same_open boxes boxes'"
proof (induction "pending sr" arbitrary: sr boxes clk rule: less_induct)
  case less
  obtain a :: "('x read_half_error, frame option) result" and sr1 boxes1 where
      f: "read_frame sr s boxes = (a, sr1, boxes1)" using prod_cases3 by blast
  note open1 = read_frame_open [OF f] and shorter = read_frame_pending [OF f]
  show ?case
  proof (cases "\<exists>frame e clk1. a = Inr (Some frame) \<and> command_try_from frame clk = (Inl e, clk1)")
    case True
    then obtain frame e clk1 where a: "a = Inr (Some frame)" "command_try_from frame clk = (Inl e, clk1)"
      by blast
    obtain d boxes2 where snd: "sender_send (reply_to_bytes (err_reply (command_from_frame_error_display e)))
        s boxes1 = (d, boxes2)" by fastforce
    with f a less.prems open1 sender_send_open [OF snd] show ?thesis
      using less.hyps [of sr1 boxes2 clk1] shorter
      by (cases d) (simp_all add: read_half_read_command.simps [of sr])
  next
    case False
    with f less.prems open1 show ?thesis
      by (auto simp: read_half_read_command.simps [of sr] split: sum.splits option.splits prod.splits)
  qed
qed

lemma retain_sent_open: "retain_sent message subs boxes n = (kept, boxes', n') \<Longrightarrow> same_open boxes boxes'"
  by (induction message subs boxes n arbitrary: kept rule: retain_sent.induct)
    (fastforce split: prod.splits sum.splits dest: sender_send_open)+

lemma channels_publish_open: "channels_publish message ch cs boxes = (r, cs', boxes') \<Longrightarrow> same_open boxes boxes'"
  by (auto simp: channels_publish_def split: if_splits option.splits prod.splits dest: retain_sent_open)

lemma execute_channel_command_open:
  "execute_channel_command cmd rh cs boxes = (r, rh', cs', boxes') \<Longrightarrow> same_open boxes boxes'"
  by (auto simp: execute_channel_command_def Let_def split: channel_command.splits prod.splits sum.splits if_splits
      dest: channels_publish_open)

lemma send_reply_open: "send_reply bs rh w = (fl, w') \<Longrightarrow> same_open (w_boxes w) (w_boxes w')"
  by (auto simp: send_reply_def split: prod.splits sum.splits dest: sender_send_open)

lemma run_command_open:
  "run_command exec cmd rh w = (fl, rh', w') \<Longrightarrow> same_open (w_boxes w) (w_boxes w')"
  by (auto simp: run_command_def split: command.splits prod.splits sum.splits
      dest!: send_reply_open execute_channel_command_open)

lemma repl_step_open:
  fixes exec :: "('b, 'e) execute_op"
  assumes "repl_step exec shutdown rh w = (fl, rh', w')"
  shows "same_open (w_boxes w) (w_boxes w')"
proof -
  obtain r :: "('b execute_error read_half_error, command option) result" and sr boxes clk where rc:
      "read_half_read_command (rh_reader rh) (rh_sender rh) (w_boxes w) (w_clock w) = (r, sr, boxes, clk)"
    using prod_cases4 by blast
  from assms rc read_command_open [OF rc] show ?thesis
    by (auto simp: repl_step_def Let_def split: if_splits sum.splits option.splits read_half_error.splits
        dest!: run_command_open)
qed

text \<open>While the server runs, every session it has is one whose mailbox is listened to.\<close>

definition listening :: "server \<Rightarrow> bool" where
  "listening s \<longleftrightarrow>
     (\<not> sv_shutdown s \<longrightarrow> (\<forall>rh \<in> set (sv_sessions s). mbox_open (w_boxes (sv_world s) (rh_sender rh))))"

lemma session_turn_listening:
  assumes "server_invar s" "sv_accepted s < 2 ^ 32" "n < length (sv_sessions s)" "listening s"
  shows "listening (session_turn flag n s)"
proof -
  let ?rh = "sv_sessions s ! n" and ?rest = "take n (sv_sessions s) @ drop (Suc n) (sv_sessions s)"
  obtain fl rh w where
      step: "repl_step server_exec flag ?rh (sv_world s) = (fl, rh, w)"
    using prod_cases3 by blast
  have mem: "?rh \<in> set (sv_sessions s)" using assms(3) by simp
  have distinct: "sessions_distinct s" using assms(1) by (simp add: server_invar_def)
  have same: "rh_sender rh = rh_sender ?rh"
    using repl_step_consistent [OF session_is_consistent [OF assms(1, 2) mem] step] by simp
  have still: "mbox_open (w_boxes w a) = mbox_open (w_boxes (sv_world s) a)" for a
    using repl_step_open [OF step] by (rule fun_cong)
  show ?thesis
  proof (cases fl)
    case Continue
    have "set ((sv_sessions s)[n := rh]) = insert rh (set (sv_sessions s) - {?rh})"
      by (rule set_update_distinct [OF sessions_distinct_list [OF distinct] assms(3)])
    with assms(4) step Continue still same mem show ?thesis
      by (auto simp: listening_def session_turn_def)
  next
    case (Break r)
    have rest: "set ?rest = set (sv_sessions s) - {?rh}"
      by (rule without_nth [OF sessions_distinct_list [OF distinct] assms(3)])
    have "rh_sender r \<noteq> rh_sender ?rh" if "r \<in> set ?rest" for r
      using that distinct mem unfolding rest by (auto simp: sessions_distinct_def distinct_map dest: inj_onD)
    with assms(4) step Break still same rest show ?thesis
      by (auto simp: listening_def session_turn_def)
  qed
qed

lemma server_step_listening:
  assumes "server_step serialize s s'" "server_invar s" "sv_accepted s < 2 ^ 32" "listening s"
  shows "listening s'"
  using assms(1)
proof cases
  case (accept socket)
  with assms(4) show ?thesis
    by (auto simp: listening_def accept_connection_def session_split_def Let_def)
next
  case (turn n flag)
  with session_turn_listening [OF assms(2, 3) _ assms(4)] show ?thesis by simp
next
  case (delivery flag a io)
  with assms(4) show ?thesis
    by (auto simp: listening_def deliver_turn_def writer_turn_def Let_def split: prod.splits list.splits sum.splits)
qed (use assms(4) in \<open>auto simp: listening_def accept_unclonable_def persist_tick_def sweep_tick_def
  trigger_shutdown_def split: prod.splits\<close>)

lemma server_reaches_listening:
  "server_reaches serialize s s' \<Longrightarrow> server_invar s \<Longrightarrow> listening s \<Longrightarrow> sv_accepted s' < 2 ^ 32 \<Longrightarrow> listening s'"
proof (induction rule: server_reaches.induct)
  case (here s)
  then show ?case by simp
next
  case (step s s' s'')
  have few: "sv_accepted s' < 2 ^ 32" using server_step_accepted [OF step.hyps(2)] step.prems(3) by simp
  have "server_invar s'" by (rule server_reaches_invar [OF step.hyps(1) step.prems(1) few])
  with server_step_listening [OF step.hyps(2)] step.IH step.prems few show ?case by blast
qed

section \<open>Fan-out\<close>

text \<open>The senders registered in a channel.\<close>

definition audience :: "bytes \<Rightarrow> server \<Rightarrow> sender set" where
  "audience ch s = ran (members_of (channels_map (w_channels (sv_world s))) ch)"

text \<open>No sender is registered twice in a channel, because its session's id follows from it.\<close>

lemma senders_distinct:
  assumes "server_invar s" "map_of (channels_map (w_channels (sv_world s))) ch = Some subs"
  shows "distinct (map snd subs)"
proof -
  have matches: "registry_matches s" and sessions: "sessions_distinct s"
    using assms(1) by (simp_all add: server_invar_def)
  then have keys: "distinct (map fst subs)"
    using registry_invar_lookup [OF _ assms(2)] by (simp add: registry_matches_def)
  have follows: "i = word_of_nat (Suc a)" if "(i, a) \<in> set subs" for i a
  proof -
    have "members_of (channels_map (w_channels (sv_world s))) ch i = Some a"
      using that keys assms(2) by (simp add: members_of_def)
    from registry_matchesD [OF matches this] sessions show ?thesis
      unfolding sessions_distinct_def by metis
  qed
  have "inj_on snd (set subs)" by (rule inj_onI) (metis follows prod.collapse)
  with keys show ?thesis by (simp add: distinct_map)
qed

lemma audience_eq:
  assumes "server_invar s"
  shows "audience ch s =
    (case map_of (channels_map (w_channels (sv_world s))) ch of None \<Rightarrow> {} | Some subs \<Rightarrow> snd ` set subs)"
  using assms registry_invar_lookup [of "channels_map (w_channels (sv_world s))" ch]
  by (auto simp: audience_def members_of_def server_invar_def registry_matches_def ran_distinct
      split: option.splits)

lemma audience_listens:
  assumes "server_invar s" "listening s" "\<not> sv_shutdown s" "a \<in> audience ch s"
  shows "mbox_open (w_boxes (sv_world s) a)" "a < sv_accepted s"
proof -
  obtain i where "members_of (channels_map (w_channels (sv_world s))) ch i = Some a"
    using assms(4) by (auto simp: audience_def ran_def)
  then obtain rh where "rh \<in> set (sv_sessions s)" "rh_sender rh = a"
    using registry_matchesD assms(1) unfolding server_invar_def by metis
  with assms(1-3) show "mbox_open (w_boxes (sv_world s) a)" "a < sv_accepted s"
    by (auto simp: listening_def server_invar_def sessions_distinct_def)
qed

lemma publish_to_audience:
  assumes "server_invar s" "listening s" "\<not> sv_shutdown s" "sv_accepted s < 2 ^ 32"
  shows "\<exists>n cs. channels_publish message ch (w_channels (sv_world s)) (w_boxes (sv_world s)) =
      (Inr n, cs, deliver message (audience ch s) (w_boxes (sv_world s))) \<and>
    unat n = card (audience ch s)"
proof -
  let ?cs = "w_channels (sv_world s)" and ?boxes = "w_boxes (sv_world s)"
  have healthy: "\<not> channels_poisoned ?cs" using assms(1) by (simp add: server_invar_def registry_matches_def)
  note listens = audience_listens [OF assms(1-3)]
  have "audience ch s \<subseteq> {..< sv_accepted s}" using listens(2) by auto
  then have few: "card (audience ch s) < 2 ^ 32"
    using card_mono [of "{..< sv_accepted s}" "audience ch s"] assms(4) by simp
  show ?thesis
  proof (cases "map_of (channels_map ?cs) ch")
    case None
    with healthy show ?thesis
      by (simp add: channels_publish_def audience_eq [OF assms(1)] deliver_def)
  next
    case (Some subs)
    note distinct = senders_distinct [OF assms(1) Some]
    have who: "audience ch s = snd ` set subs" using Some by (simp add: audience_eq [OF assms(1)])
    obtain kept boxes' n where r: "retain_sent message subs ?boxes 0 = (kept, boxes', n)"
      by (cases "retain_sent message subs ?boxes 0")
    have "filter (reachable ?boxes) subs = subs"
      using listens(1) [of _ ch] who by (force simp: filter_id_conv)
    then have "unat n = card (audience ch s)"
      using retain_sent_eq [OF distinct r] few distinct_card [OF distinct] who by simp
    with retain_sent_eq [OF distinct r] r Some healthy who show ?thesis
      by (simp add: channels_publish_def)
  qed
qed

section \<open>From the queue to the wire\<close>

lemma deliver_turns:
  assumes "\<not> sv_shutdown s" "mbox_queue (w_boxes (sv_world s) a) = queue"
  shows "\<exists>s'. (deliver_turn False a io_ok ^^ length queue) s = s' \<and> mbox_queue (w_boxes (sv_world s') a) = [] \<and>
    content (sv_wires s' a) = content (sv_wires s a) @ concat queue \<and>
    (queue \<noteq> [] \<longrightarrow> bw_buf (sv_wires s' a) = [])"
  using assms
proof (induction queue arbitrary: s)
  case Nil
  then show ?case by simp
next
  case (Cons msg queue)
  obtain wr where w: "writer_turn False (msg # queue) (sv_wires s a) io_ok = (WriterWrote, queue, wr, io_ok)"
      "bw_file wr = content (sv_wires s a) @ msg" "bw_buf wr = []"
    using writer_turn_ok [of msg queue "sv_wires s a"] by auto
  let ?s = "deliver_turn False a io_ok s"
  have turned: "\<not> sv_shutdown ?s" "mbox_queue (w_boxes (sv_world ?s) a) = queue" "sv_wires ?s a = wr"
    using Cons.prems w(1) by (simp_all add: deliver_turn_def Let_def)
  from Cons.IH [OF turned(1, 2)] turned(3) w(2, 3) show ?case
    by (cases queue) (auto simp: funpow_swap1)
qed

section \<open>Properties\<close>

text \<open>
  C14: a published message reaches every subscriber.  Let the server have come to a state in any way,
  with fewer than \<open>2 ^ 32\<close> connections and no shutdown, and let the next frame of a session be a
  \<^verbatim>\<open>PUBLISH\<close>, in whatever chunks.  One turn of that session puts the message into the queue of every
  sender registered in the channel, and into no other, and answers the publisher with exactly their
  number, behind its own copy when it is one of them; each queue, when its writer meets no error, is
  then on the wire whole and in order after as many turns of the writer as it has messages.
\<close>

theorem published_message_delivered:
  assumes "cache_healthy (ex, io)" "server_reaches serialize (server_run_start ex clk io) s"
    and "sv_accepted s < 2 ^ 32" "\<not> sv_shutdown s" "n < length (sv_sessions s)"
    and "rh = sv_sessions s ! n" "frame_fits f" "stream_bytes (rh_reader rh) = frame_write_to f @ rest"
    and "proper_chunks (rh_reader rh)" "\<forall>k. ReadErr k \<notin> set (sr_socket (rh_reader rh))"
    and "command_try_from f (w_clock (sv_world s)) = (Inr (Channel (Publish ch message)), clk1)"
    and "queue = mbox_queue (w_boxes (sv_world s) a) @
        (if a \<in> audience ch s then [reply_to_bytes (message_push ch message)] else []) @
        (if a = rh_sender rh then [reply_to_bytes (Integer (int (card (audience ch s))))] else [])"
  shows "mbox_queue (w_boxes (sv_world (session_turn False n s)) a) = queue \<and>
    (\<exists>s'. (deliver_turn False a io_ok ^^ length queue) (session_turn False n s) = s' \<and>
      mbox_queue (w_boxes (sv_world s') a) = [] \<and>
      content (sv_wires s' a) = content (sv_wires s a) @ concat queue \<and>
      (queue \<noteq> [] \<longrightarrow> bw_buf (sv_wires s' a) = []))"
proof -
  have invar: "server_invar s"
    by (rule server_reaches_invar [OF assms(2) server_start_invar [OF assms(1)] assms(3)])
  have "listening (server_run_start ex clk io)" by (simp add: listening_def server_run_start_def)
  then have listening: "listening s"
    by (rule server_reaches_listening [OF assms(2) server_start_invar [OF assms(1)] _ assms(3)])
  let ?w = "sv_world s"
  have self: "mbox_open (w_boxes ?w (rh_sender rh))"
    using listening assms(4-6) by (simp add: listening_def)
  obtain sr where rc: "(read_half_read_command (rh_reader rh) (rh_sender rh) (w_boxes ?w) (w_clock ?w) ::
      (boxed_error execute_error read_half_error, command option) result \<times> _) =
      (Inr (Some (Channel (Publish ch message))), sr, w_boxes ?w, clk1)"
    using read_command_next [OF assms(7-11)] by blast
  obtain m cs where pub: "channels_publish (reply_to_bytes (message_push ch message)) ch
        (w_channels ?w) (w_boxes ?w) =
      (Inr m, cs, deliver (reply_to_bytes (message_push ch message)) (audience ch s) (w_boxes ?w))"
    and count: "unat m = card (audience ch s)"
    using publish_to_audience [OF invar listening assms(4, 3)] by blast
  have audible: "b \<in> audience ch s \<Longrightarrow> mbox_open (w_boxes ?w b)" for b
    using audience_listens(1) [OF invar listening assms(4)] .
  let ?boxes = "deliver (reply_to_bytes (message_push ch message)) (audience ch s) (w_boxes ?w)"
  have "mbox_open (?boxes (rh_sender rh))" using self by (simp add: deliver_def)
  then have "repl_step server_exec False rh ?w = (Continue, rh\<lparr>rh_reader := sr\<rparr>,
      ?w\<lparr>w_channels := cs, w_clock := clk1, w_boxes := ?boxes(rh_sender rh := (?boxes (rh_sender rh))
        \<lparr>mbox_queue := mbox_queue (?boxes (rh_sender rh)) @
          [reply_to_bytes (Integer (int (card (audience ch s))))]\<rparr>)\<rparr>)"
    using pub count
    by (simp add: repl_step_def rc run_command_def execute_channel_command_def send_reply_def
        sender_send_def replies_from_channel_outcome_def replies_to_bytes_def)
  then have turn: "mbox_queue (w_boxes (sv_world (session_turn False n s)) a) = queue"
      "\<not> sv_shutdown (session_turn False n s)" "sv_wires (session_turn False n s) = sv_wires s"
    using audible assms(4, 6, 12) by (auto simp: session_turn_def deliver_def)
  from deliver_turns [OF turn(2, 1)] turn(1, 3) show ?thesis by simp
qed

text \<open>Two clients: the first subscribes to \<^verbatim>\<open>news\<close>, the second publishes \<^verbatim>\<open>hi\<close> there.\<close>

definition subscribe_frame :: frame where
  "subscribe_frame = Array [BulkString ''SUBSCRIBE'', BulkString ''news'']"

definition publish_frame :: frame where
  "publish_frame = Array [BulkString ''PUBLISH'', BulkString ''news'', BulkString ''hi'']"

definition two_clients :: server where
  "two_clients = accept_connection [Chunk (frame_write_to publish_frame)]
     (accept_connection [Chunk (frame_write_to subscribe_frame)]
       (server_run_start fresh_executor (clock_at (Milliseconds 1)) io_ok))"

lemma two_clients_subscribe:
  "server_reaches serialize (server_run_start fresh_executor (clock_at (Milliseconds 1)) io_ok)
     (session_turn False 0 two_clients)"
  "sv_accepted (session_turn False 0 two_clients) = 2" "\<not> sv_shutdown (session_turn False 0 two_clients)"
  "length (sv_sessions (session_turn False 0 two_clients)) = 2"
  "sv_sessions (session_turn False 0 two_clients) ! 1 = sv_sessions two_clients ! 1"
  "channels_map (w_channels (sv_world (session_turn False 0 two_clients))) = [(''news'', [(1, 0)])]"
  "w_clock (sv_world (session_turn False 0 two_clients)) = clock_at (Milliseconds 1)"
  "w_boxes (sv_world (session_turn False 0 two_clients)) 1 = \<lparr>mbox_queue = [], mbox_open = True\<rparr>"
proof -
  let ?s = two_clients and ?w = "sv_world two_clients"
  let ?rh = "\<lparr>rh_id = 1, rh_reader = session_reader_new [Chunk (frame_write_to subscribe_frame)],
    rh_sender = 0, rh_subscriptions = []\<rparr>"
  have start: "sv_sessions ?s = [?rh, \<lparr>rh_id = 2,
      rh_reader = session_reader_new [Chunk (frame_write_to publish_frame)], rh_sender = 1,
      rh_subscriptions = []\<rparr>]" "sv_accepted ?s = 2" "\<not> sv_shutdown ?s" "w_channels ?w = channels_new"
      "w_boxes ?w 0 = \<lparr>mbox_queue = [], mbox_open = True\<rparr>"
      "w_boxes ?w 1 = \<lparr>mbox_queue = [], mbox_open = True\<rparr>" "w_clock ?w = clock_at (Milliseconds 1)"
    by (simp_all add: two_clients_def accept_connection_def server_run_start_def session_split_def Let_def)
  have lift: "command_try_from subscribe_frame (w_clock ?w) =
      (Inr (Channel (Subscribe [''news''])), clock_at (Milliseconds 1))"
    using start by (simp add: subscribe_frame_def command_try_from_def dispatch_verb_def parse_subscribe_def
        command_defs lower_eval)
  have wire: "frame_fits subscribe_frame" "stream_bytes (rh_reader ?rh) = frame_write_to subscribe_frame @ []"
      "proper_chunks (rh_reader ?rh)" "\<forall>k. ReadErr k \<notin> set (sr_socket (rh_reader ?rh))"
    by (simp_all add: stream_bytes_def proper_chunks_def session_reader_new_def subscribe_frame_def)
  obtain sr where rc: "(read_half_read_command (rh_reader ?rh) (rh_sender ?rh) (w_boxes ?w) (w_clock ?w) ::
      (boxed_error execute_error read_half_error, command option) result \<times> _) =
      (Inr (Some (Channel (Subscribe [''news'']))), sr, w_boxes ?w, clock_at (Milliseconds 1))"
    using read_command_next [OF wire lift] by blast
  have "repl_step server_exec False ?rh ?w = run_command server_exec (Channel (Subscribe [''news'']))
      (?rh\<lparr>rh_reader := sr\<rparr>) (?w\<lparr>w_clock := clock_at (Milliseconds 1)\<rparr>)"
    by (simp add: repl_step_def rc del: One_nat_def) (simp add: rc [simplified])
  also have "\<dots> = (Continue, ?rh\<lparr>rh_reader := sr, rh_subscriptions := [''news'']\<rparr>,
      ?w\<lparr>w_channels := \<lparr>channels_map = [(''news'', [(1, 0)])], channels_poisoned = False\<rparr>,
        w_clock := clock_at (Milliseconds 1), w_boxes := (w_boxes ?w)(0 := \<lparr>mbox_queue =
          [replies_to_bytes (replies_from_channel_outcome (SubscribeOutcome
            (running_acks (\<lambda>joined. length (fold List.insert joined [])) [''news''])))], mbox_open = True\<rparr>)\<rparr>)"
    using start
    by (simp add: run_command_def execute_channel_command_def send_reply_def sender_send_def
        subscribe_loop_healthy channels_new_def registry_insert_def del: subscribe_loop.simps)
  finally show "sv_accepted (session_turn False 0 two_clients) = 2" "\<not> sv_shutdown (session_turn False 0 two_clients)"
    "length (sv_sessions (session_turn False 0 two_clients)) = 2"
    "sv_sessions (session_turn False 0 two_clients) ! 1 = sv_sessions two_clients ! 1"
    "channels_map (w_channels (sv_world (session_turn False 0 two_clients))) = [(''news'', [(1, 0)])]"
    "w_clock (sv_world (session_turn False 0 two_clients)) = clock_at (Milliseconds 1)"
    "w_boxes (sv_world (session_turn False 0 two_clients)) 1 = \<lparr>mbox_queue = [], mbox_open = True\<rparr>"
    using start by (simp_all add: session_turn_def)
  have "server_reaches serialize (server_run_start fresh_executor (clock_at (Milliseconds 1)) io_ok) ?s"
    unfolding two_clients_def
    by (rule server_reaches.step [OF server_reaches.step [OF server_reaches.here server_step.accept]
          server_step.accept])
      (simp_all add: accept_connection_def server_run_start_def session_split_def Let_def)
  from server_reaches.step [OF this server_step.turn] start
  show "server_reaches serialize (server_run_start fresh_executor (clock_at (Milliseconds 1)) io_ok)
      (session_turn False 0 two_clients)" by simp
qed

theorem published_message_delivered_witness:
  "\<exists>s. server_reaches dump (server_run_start fresh_executor (clock_at (Milliseconds 1)) io_ok) s \<and>
    audience ''news'' s = {0} \<and>
    mbox_queue (w_boxes (sv_world (session_turn False 1 s)) 0) =
      mbox_queue (w_boxes (sv_world s) 0) @ [reply_to_bytes (message_push ''news'' ''hi'')] \<and>
    mbox_queue (w_boxes (sv_world (session_turn False 1 s)) 1) = [reply_to_bytes (Integer 1)]"
proof -
  let ?s = "session_turn False 0 two_clients" and ?rh = "sv_sessions two_clients ! 1"
  note facts = two_clients_subscribe
  have rh: "?rh = \<lparr>rh_id = 2, rh_reader = session_reader_new [Chunk (frame_write_to publish_frame)],
      rh_sender = 1, rh_subscriptions = []\<rparr>"
    by (simp add: two_clients_def accept_connection_def server_run_start_def session_split_def Let_def)
  have audience: "audience ''news'' ?s = {0}" by (simp add: audience_def members_of_def facts)
  have h: "cache_healthy (fresh_executor, io_ok)"
    by (simp add: cache_healthy_def cache_invar_def) (simp add: cache_new_def)
  have lift: "command_try_from publish_frame (w_clock (sv_world ?s)) =
      (Inr (Channel (Publish ''news'' ''hi'')), clock_at (Milliseconds 1))"
    using facts by (simp add: publish_frame_def command_try_from_def dispatch_verb_def parse_publish_def
        no_more_def command_defs lower_eval)
  have wire: "frame_fits publish_frame" "stream_bytes (rh_reader ?rh) = frame_write_to publish_frame @ []"
      "proper_chunks (rh_reader ?rh)" "\<forall>k. ReadErr k \<notin> set (sr_socket (rh_reader ?rh))"
    unfolding rh by (simp_all add: stream_bytes_def proper_chunks_def session_reader_new_def publish_frame_def)
  have few: "sv_accepted ?s < 2 ^ 32" "1 < length (sv_sessions ?s)" using facts by simp_all
  note turn = published_message_delivered [OF h facts(1) few(1) facts(3) few(2) facts(5) [symmetric] wire lift refl]
  have "mbox_queue (w_boxes (sv_world (session_turn False 1 ?s)) 0) =
      mbox_queue (w_boxes (sv_world ?s) 0) @ [reply_to_bytes (message_push ''news'' ''hi'')]"
      "mbox_queue (w_boxes (sv_world (session_turn False 1 ?s)) 1) = [reply_to_bytes (Integer 1)]"
    using turn [of 0] turn [of 1] facts(8) unfolding rh audience by simp_all
  with facts(1) audience show ?thesis by blast
qed

end
