(* ===== verification/Durability.thy ===== *)
theory Durability
  imports Interleaving Server
begin

text \<open>
  The running server and its files.  \<open>Recovery\<close> follows one list of commands and \<open>Interleaving\<close> the
  threads inside a call; here the commands come from the sockets of any number of sessions, beside the
  persistence and the sweeper thread, and the invariant ties the cache to snapshot and log in every state
  the server reaches.  What a torn tail does to the writes after it is the last section.
\<close>

section \<open>Writes that come from a socket fit the log\<close>













section \<open>Cache, snapshot and log\<close>



lemma writes_ahead_append [simp]: "writes_ahead T k (ws @ ws') \<longleftrightarrow> writes_ahead T k ws \<and> writes_ahead T k ws'"
  by (auto simp: writes_ahead_def)







section \<open>The steps of the server\<close>







section \<open>From one start to the next\<close>







section \<open>A torn tail\<close>







section \<open>Properties\<close>










end
