(* ===== verification/Process.thy ===== *)
theory Process
  imports Lifecycle Delivery Durability
begin

text \<open>
  All threads of \<^verbatim>\<open>Server::run\<close> (\<^verbatim>\<open>inbound/server.rs\<close>) and \<^verbatim>\<open>Session::repl\<close> (\<^verbatim>\<open>inbound/session.rs\<close>) side by
  side: the accept loop and the joins behind it, the signal and the stdin thread, the two background threads,
  and the reader and the writer of every session, each at the point of its code where it stands.  A thread
  looks at the shutdown flag and acts on what it saw at two different moments, and others may move in
  between.  A process moves by events, one per step of a thread or of the world outside.
\<close>

section \<open>Where the threads stand\<close>

text \<open>What waits in the backlog of the listener: the knock of \<^verbatim>\<open>trigger_shutdown\<close>, or a client.\<close>

datatype connection = Knock | Client "read_event list" | Unclonable

datatype main_phase = Checking | Accepting | Examining connection | Closing | Joining | Returned

text \<open>
  A thread that can shut the server down: waiting for its signal or its line, inside
  \<^verbatim>\<open>trigger_shutdown\<close> before the store and before the knock, or at its end: having knocked, having failed to
  connect, or without anything to do because the signals were closed.
\<close>

datatype trigger_phase = Waiting | Storing | Knocking | Knocked | Unheard | Dismissed

datatype trigger_id = SignalThread | StdinThread

text \<open>A background thread between its sleeps, with their number since it last acted, or at its end.\<close>

datatype background = Sleeping nat | Stopped

text \<open>
  \<open>pr_reading\<close> tells which readers have looked at the flag and are inside \<^verbatim>\<open>read_command\<close>; \<open>pr_writers\<close> holds the
  writers that run, each with whether it has looked and is inside \<^verbatim>\<open>recv\<close>.  There is a stdin thread only when
  a terminal is attached.
\<close>

record process =
  pr_server :: server
  pr_backlog :: "connection list"
  pr_main :: main_phase
  pr_closed :: bool
  pr_signal :: trigger_phase
  pr_stdin :: "trigger_phase option"
  pr_persistence :: background
  pr_sweeper :: background
  pr_reading :: "sender \<Rightarrow> bool"
  pr_writers :: "(sender \<times> bool) list"

definition process_start :: "persister executor \<Rightarrow> clock \<Rightarrow> io \<Rightarrow> bool \<Rightarrow> process" where
  "process_start ex clk io is_terminal =
    \<lparr>pr_server = server_run_start ex clk io, pr_backlog = [], pr_main = Checking, pr_closed = False,
     pr_signal = Waiting, pr_stdin = (if is_terminal then Some Waiting else None),
     pr_persistence = Sleeping 0, pr_sweeper = Sleeping 0, pr_reading = (\<lambda>_. False), pr_writers = []\<rparr>"

abbreviation flag_up :: "process \<Rightarrow> bool" where
  "flag_up p \<equiv> sv_shutdown (pr_server p)"

section \<open>The main thread\<close>

text \<open>The top of the loop; then \<^verbatim>\<open>accept\<close>, which blocks on an empty backlog and may fail.\<close>

definition main_looks :: "process \<Rightarrow> process option" where
  "main_looks p =
    (if pr_main p = Checking then Some (p\<lparr>pr_main := if flag_up p then Closing else Accepting\<rparr>) else None)"

definition main_accepts :: "process \<Rightarrow> process option" where
  "main_accepts p =
    (if pr_main p = Accepting then
       (case pr_backlog p of
          [] \<Rightarrow> None
        | c # cs \<Rightarrow> Some (p\<lparr>pr_backlog := cs, pr_main := Examining c\<rparr>))
     else None)"

definition accept_fails :: "process \<Rightarrow> process option" where
  "accept_fails p = (if pr_main p = Accepting then Some (p\<lparr>pr_main := Checking\<rparr>) else None)"

text \<open>
  A session for the connection, with its writer; the knock would get one on a closed socket.  Then the
  second look at the flag, which decides whether there is one.
\<close>

definition serve_connection :: "connection \<Rightarrow> process \<Rightarrow> process" where
  "serve_connection c p =
    (let s = pr_server p; a = sv_accepted s;
         spawned = p\<lparr>pr_reading := (pr_reading p)(a := False), pr_writers := (a, False) # pr_writers p\<rparr>
     in case c of
          Knock \<Rightarrow> spawned\<lparr>pr_server := accept_connection [] s\<rparr>
        | Client socket \<Rightarrow> spawned\<lparr>pr_server := accept_connection socket s\<rparr>
        | Unclonable \<Rightarrow> p\<lparr>pr_server := accept_unclonable s\<rparr>)"

definition main_examines :: "process \<Rightarrow> process option" where
  "main_examines p =
    (case pr_main p of
       Examining c \<Rightarrow>
         Some (if flag_up p then p\<lparr>pr_main := Closing\<rparr> else (serve_connection c p)\<lparr>pr_main := Checking\<rparr>)
     | _ \<Rightarrow> None)"

text \<open>Behind the loop: the signals are closed, and every thread is joined.\<close>

definition main_closes :: "process \<Rightarrow> process option" where
  "main_closes p = (if pr_main p = Closing then Some (p\<lparr>pr_main := Joining, pr_closed := True\<rparr>) else None)"

definition trigger_ended :: "trigger_phase \<Rightarrow> bool" where
  "trigger_ended t \<longleftrightarrow> t = Knocked \<or> t = Unheard \<or> t = Dismissed"

definition threads_ended :: "process \<Rightarrow> bool" where
  "threads_ended p \<longleftrightarrow>
     trigger_ended (pr_signal p) \<and> (case pr_stdin p of None \<Rightarrow> True | Some t \<Rightarrow> trigger_ended t) \<and>
     pr_persistence p = Stopped \<and> pr_sweeper p = Stopped \<and> sv_sessions (pr_server p) = [] \<and> pr_writers p = []"

definition main_returns :: "process \<Rightarrow> process option" where
  "main_returns p = (if pr_main p = Joining \<and> threads_ended p then Some (p\<lparr>pr_main := Returned\<rparr>) else None)"

section \<open>The threads that shut the server down\<close>

fun trigger_of :: "trigger_id \<Rightarrow> process \<Rightarrow> trigger_phase option" where
  "trigger_of SignalThread p = Some (pr_signal p)"
| "trigger_of StdinThread p = pr_stdin p"

fun set_trigger :: "trigger_id \<Rightarrow> trigger_phase \<Rightarrow> process \<Rightarrow> process" where
  "set_trigger SignalThread t p = p\<lparr>pr_signal := t\<rparr>"
| "set_trigger StdinThread t p = p\<lparr>pr_stdin := Some t\<rparr>"

text \<open>The two statements of \<^verbatim>\<open>trigger_shutdown\<close>.\<close>

definition stores_flag :: "trigger_id \<Rightarrow> process \<Rightarrow> process option" where
  "stores_flag i p =
    (if trigger_of i p = Some Storing
     then Some (set_trigger i Knocking (p\<lparr>pr_server := trigger_shutdown (pr_server p)\<rparr>)) else None)"

definition knocks :: "trigger_id \<Rightarrow> bool \<Rightarrow> process \<Rightarrow> process option" where
  "knocks i connected p =
    (if trigger_of i p = Some Knocking
     then Some (if connected then set_trigger i Knocked (p\<lparr>pr_backlog := pr_backlog p @ [Knock]\<rparr>)
                else set_trigger i Unheard p)
     else None)"

text \<open>\<^verbatim>\<open>signals.forever().next()\<close> returns a signal, or nothing once the handle is closed.\<close>

definition signal_arrives :: "process \<Rightarrow> process option" where
  "signal_arrives p =
    (if pr_signal p = Waiting \<and> \<not> pr_closed p then Some (p\<lparr>pr_signal := Storing\<rparr>) else None)"

definition signals_end :: "process \<Rightarrow> process option" where
  "signals_end p = (if pr_signal p = Waiting \<and> pr_closed p then Some (p\<lparr>pr_signal := Dismissed\<rparr>) else None)"

definition stdin_reads :: "stdin_read \<Rightarrow> process \<Rightarrow> process option" where
  "stdin_reads r p =
    (if pr_stdin p = Some Waiting
     then Some (if asks_to_stop r then p\<lparr>pr_stdin := Some Storing\<rparr> else p) else None)"

section \<open>The background threads\<close>

definition wakes :: "bool \<Rightarrow> background \<Rightarrow> (bool \<times> background) option" where
  "wakes flag b =
    (case b of
       Stopped \<Rightarrow> None
     | Sleeping n \<Rightarrow>
         (case background_wake n flag of (n, act, stop) \<Rightarrow> Some (act, if stop then Stopped else Sleeping n)))"

definition persistence_wakes :: "(data \<Rightarrow> (write_error, bytes) result) \<Rightarrow> process \<Rightarrow> process option" where
  "persistence_wakes serialize p =
    map_option (\<lambda>(act, b). p\<lparr>pr_persistence := b,
        pr_server := (if act then persist_tick serialize (pr_server p) else pr_server p)\<rparr>)
      (wakes (flag_up p) (pr_persistence p))"

definition sweeper_wakes :: "process \<Rightarrow> process option" where
  "sweeper_wakes p =
    map_option (\<lambda>(act, b). p\<lparr>pr_sweeper := b,
        pr_server := (if act then sweep_tick (pr_server p) else pr_server p)\<rparr>)
      (wakes (flag_up p) (pr_sweeper p))"

section \<open>The threads of a session\<close>

text \<open>The top of the reader loop, and the rest of its body when it found the flag down.\<close>

definition session_looks :: "nat \<Rightarrow> process \<Rightarrow> process option" where
  "session_looks n p =
    (let s = pr_server p; a = rh_sender (sv_sessions s ! n)
     in if n < length (sv_sessions s) \<and> \<not> pr_reading p a
        then Some (if flag_up p then p\<lparr>pr_server := session_turn True n s\<rparr>
                   else p\<lparr>pr_reading := (pr_reading p)(a := True)\<rparr>)
        else None)"

definition session_reads :: "nat \<Rightarrow> process \<Rightarrow> process option" where
  "session_reads n p =
    (let s = pr_server p; a = rh_sender (sv_sessions s ! n)
     in if n < length (sv_sessions s) \<and> pr_reading p a
        then Some (p\<lparr>pr_server := session_turn False n s, pr_reading := (pr_reading p)(a := False)\<rparr>)
        else None)"

text \<open>
  The writer loop: the look at the flag, and \<^verbatim>\<open>recv\<close>, which gives the next message, or an error when the
  queue is empty and the senders are gone, and otherwise blocks.
\<close>

datatype received = Message bytes | RecvError | Blocked

definition write_half_recv :: "mailbox \<Rightarrow> received" where
  "write_half_recv box =
    (case mbox_queue box of
       msg # _ \<Rightarrow> Message msg
     | [] \<Rightarrow> if mbox_open box then Blocked else RecvError)"

definition writer_looks :: "sender \<Rightarrow> process \<Rightarrow> process option" where
  "writer_looks a p =
    (if map_of (pr_writers p) a = Some False
     then Some (if flag_up p
                then p\<lparr>pr_server := deliver_turn True a io_ok (pr_server p), pr_writers := AList.delete a (pr_writers p)\<rparr>
                else p\<lparr>pr_writers := AList.update a True (pr_writers p)\<rparr>)
     else None)"

definition writer_receives :: "sender \<Rightarrow> io \<Rightarrow> process \<Rightarrow> process option" where
  "writer_receives a io p =
    (if map_of (pr_writers p) a = Some True then
       (case write_half_recv (w_boxes (sv_world (pr_server p)) a) of
          Message _ \<Rightarrow>
            Some (p\<lparr>pr_server := deliver_turn False a io (pr_server p), pr_writers := AList.update a False (pr_writers p)\<rparr>)
        | RecvError \<Rightarrow> Some (p\<lparr>pr_writers := AList.delete a (pr_writers p)\<rparr>)
        | Blocked \<Rightarrow> None)
     else None)"

lemma writer_receives_eq:
  "writer_receives a io p =
    (let box = w_boxes (sv_world (pr_server p)) a
     in if map_of (pr_writers p) a = Some True then
          if mbox_queue box \<noteq> [] then
            Some (p\<lparr>pr_server := deliver_turn False a io (pr_server p), pr_writers := AList.update a False (pr_writers p)\<rparr>)
          else if mbox_open box then None
          else Some (p\<lparr>pr_writers := AList.delete a (pr_writers p)\<rparr>)
        else None)"
  by (simp add: writer_receives_def write_half_recv_def Let_def split: list.split)

section \<open>Events and runs\<close>

datatype event =
    Connects connection
  | MainLooks | MainAccepts | AcceptFails | MainExamines | MainCloses | MainReturns
  | SignalArrives | SignalsEnd | StdinReads stdin_read
  | StoresFlag trigger_id | Knocks trigger_id bool
  | PersistenceWakes | SweeperWakes
  | SessionLooks nat | SessionReads nat
  | WriterLooks sender | WriterReceives sender io

text \<open>A connection is made as long as the listener is there; \<open>None\<close> is a step that cannot be taken.\<close>

fun process_event :: "(data \<Rightarrow> (write_error, bytes) result) \<Rightarrow> event \<Rightarrow> process \<Rightarrow> process option" where
  "process_event serialize (Connects c) p =
     (if c = Knock \<or> pr_main p = Returned then None else Some (p\<lparr>pr_backlog := pr_backlog p @ [c]\<rparr>))"
| "process_event serialize MainLooks p = main_looks p"
| "process_event serialize MainAccepts p = main_accepts p"
| "process_event serialize AcceptFails p = accept_fails p"
| "process_event serialize MainExamines p = main_examines p"
| "process_event serialize MainCloses p = main_closes p"
| "process_event serialize MainReturns p = main_returns p"
| "process_event serialize SignalArrives p = signal_arrives p"
| "process_event serialize SignalsEnd p = signals_end p"
| "process_event serialize (StdinReads r) p = stdin_reads r p"
| "process_event serialize (StoresFlag i) p = stores_flag i p"
| "process_event serialize (Knocks i connected) p = knocks i connected p"
| "process_event serialize PersistenceWakes p = persistence_wakes serialize p"
| "process_event serialize SweeperWakes p = sweeper_wakes p"
| "process_event serialize (SessionLooks n) p = session_looks n p"
| "process_event serialize (SessionReads n) p = session_reads n p"
| "process_event serialize (WriterLooks a) p = writer_looks a p"
| "process_event serialize (WriterReceives a io) p = writer_receives a io p"

fun run_events :: "('e \<Rightarrow> 'c \<Rightarrow> 'c option) \<Rightarrow> 'e list \<Rightarrow> 'c \<Rightarrow> 'c option" where
  "run_events step [] c = Some c"
| "run_events step (e # es) c = (case step e c of None \<Rightarrow> None | Some c \<Rightarrow> run_events step es c)"

lemma run_events_append:
  "run_events step (es @ es') c = (case run_events step es c of None \<Rightarrow> None | Some c \<Rightarrow> run_events step es' c)"
  by (induction es arbitrary: c) (auto split: option.splits)

abbreviation process_run where
  "process_run serialize \<equiv> run_events (process_event serialize)"

lemmas main_defs = main_looks_def main_accepts_def accept_fails_def main_examines_def main_closes_def main_returns_def

lemmas trigger_defs = stores_flag_def knocks_def signal_arrives_def signals_end_def stdin_reads_def

lemmas worker_defs = persistence_wakes_def sweeper_wakes_def session_looks_def session_reads_def writer_looks_def
  writer_receives_eq

section \<open>Runs and simulations\<close>

text \<open>A machine that moves by events, each of which is nothing or one step of a specification.\<close>

locale stuttering_simulation =
  fixes step :: "'e \<Rightarrow> 'c \<Rightarrow> 'c option"
    and spec :: "'a \<Rightarrow> 'a \<Rightarrow> bool"
    and abs :: "'c \<Rightarrow> 'a"
  assumes simulates: "step e c = Some c' \<Longrightarrow> abs c' = abs c \<or> spec (abs c) (abs c')"
begin

lemma run_simulates: "run_events step es c = Some c' \<Longrightarrow> spec\<^sup>*\<^sup>* (abs c) (abs c')"
proof (induction es arbitrary: c)
  case (Cons e es)
  then obtain d where d: "step e c = Some d" "run_events step es d = Some c'" by (auto split: option.splits)
  with simulates [OF d(1)] Cons.IH [OF d(2)] show ?case by (metis converse_rtranclp_into_rtranclp)
qed simp

end

text \<open>
  A machine with work left.  In the states of \<open>keep\<close> every event of its own takes some of it away, no event
  that is allowed adds any, and as long as the goal is not reached it can go on by itself.
\<close>

locale draining =
  fixes step :: "'e \<Rightarrow> 'c \<Rightarrow> 'c option"
    and allowed own :: "'e \<Rightarrow> bool"
    and keep goal :: "'c \<Rightarrow> bool"
    and work :: "'c \<Rightarrow> nat"
  assumes own_allowed: "own e \<Longrightarrow> allowed e"
    and keeps: "keep c \<Longrightarrow> allowed e \<Longrightarrow> step e c = Some c' \<Longrightarrow> keep c'"
    and never_more: "keep c \<Longrightarrow> allowed e \<Longrightarrow> step e c = Some c' \<Longrightarrow> work c' + (if own e then 1 else 0) \<le> work c"
    and goes_on: "keep c \<Longrightarrow> \<not> goal c \<Longrightarrow> \<exists>e c'. own e \<and> step e c = Some c'"
begin

lemma run_bounded:
  "keep c \<Longrightarrow> list_all allowed es \<Longrightarrow> run_events step es c = Some c' \<Longrightarrow>
     keep c' \<and> length (filter own es) + work c' \<le> work c"
proof (induction es arbitrary: c)
  case (Cons e es)
  then obtain d where d: "step e c = Some d" "run_events step es d = Some c'" by (auto split: option.splits)
  have "allowed e" using Cons.prems(2) by simp
  with Cons.IH [OF keeps [OF Cons.prems(1) _ d(1)] _ d(2)] Cons.prems(2) never_more [OF Cons.prems(1) _ d(1)]
  show ?case by (auto split: if_splits)
qed simp

lemma run_to_goal: "keep c \<Longrightarrow> \<exists>es c'. list_all own es \<and> run_events step es c = Some c' \<and> goal c'"
proof (induction "work c" arbitrary: c rule: less_induct)
  case less
  show ?case
  proof (cases "goal c")
    case True
    then show ?thesis by (intro exI [of _ "[]"]) simp
  next
    case False
    then obtain e d where d: "own e" "step e c = Some d" using goes_on [OF less.prems] by blast
    have "work d < work c" using never_more [OF less.prems own_allowed d(2)] d(1) by simp
    from less.hyps [OF this keeps [OF less.prems own_allowed d(2)]] d(1) obtain es c' where
        "list_all own es" "run_events step es d = Some c'" "goal c'" by blast
    with d show ?thesis by (intro exI [of _ "e # es"] exI [of _ c']) simp
  qed
qed

end

section \<open>The process as a server\<close>

lemma server_reaches_rtranclp: "server_reaches serialize s s' \<longleftrightarrow> (server_step serialize)\<^sup>*\<^sup>* s s'"
proof
  show "server_reaches serialize s s' \<Longrightarrow> (server_step serialize)\<^sup>*\<^sup>* s s'"
    by (induction rule: server_reaches.induct) auto
  show "(server_step serialize)\<^sup>*\<^sup>* s s' \<Longrightarrow> server_reaches serialize s s'"
    by (induction rule: rtranclp_induct) (auto intro: server_reaches.intros)
qed

interpretation as_server: stuttering_simulation "process_event serialize" "server_step serialize" pr_server
proof (unfold_locales, goal_cases)
  case (1 e p p')
  show ?case
  proof (cases e)
    case MainExamines
    with 1 show ?thesis
      by (auto simp: main_examines_def serve_connection_def Let_def split: main_phase.splits connection.splits
          if_splits intro: server_step.accept server_step.unclonable)
  next
    case (StoresFlag i)
    with 1 show ?thesis by (cases i) (auto simp: stores_flag_def split: if_splits intro: server_step.shutdown)
  next
    case (Knocks i connected)
    with 1 show ?thesis by (cases i) (auto simp: knocks_def split: if_splits)
  next
    case (SessionLooks n)
    with 1 show ?thesis by (auto simp: session_looks_def Let_def split: if_splits intro: server_step.turn)
  next
    case (SessionReads n)
    with 1 show ?thesis by (auto simp: session_reads_def Let_def split: if_splits intro: server_step.turn)
  qed (use 1 in \<open>auto simp: main_defs trigger_defs worker_defs Let_def split: if_splits list.splits
    intro: server_step.persist server_step.sweep server_step.delivery\<close>)
qed

lemma process_run_server:
  "process_run serialize es p = Some p' \<Longrightarrow> server_reaches serialize (pr_server p) (pr_server p')"
  unfolding server_reaches_rtranclp by (rule as_server.run_simulates)

section \<open>What a turn of a session leaves alone\<close>

lemma subscribe_loop_sender: "rh_sender (fst (snd (subscribe_loop ids es rh cs))) = rh_sender rh"
  by (induction ids es rh cs rule: subscribe_loop.induct) (simp_all add: Let_def split: prod.split sum.split)

lemma unsubscribe_loop_sender: "rh_sender (fst (snd (unsubscribe_loop ids es rh cs))) = rh_sender rh"
  by (induction ids es rh cs rule: unsubscribe_loop.induct) (simp_all add: Let_def split: prod.split sum.split)

lemma execute_channel_command_sender:
  "rh_sender (fst (snd (execute_channel_command cmd rh cs boxes))) = rh_sender rh"
  using subscribe_loop_sender [of _ "[]" rh cs] unsubscribe_loop_sender [of _ "[]" rh cs]
  by (auto simp: execute_channel_command_def Let_def split: channel_command.split prod.split sum.split)
    (metis fst_conv snd_conv)+

lemma run_command_sender: "run_command exec cmd rh w = (fl, rh', w') \<Longrightarrow> rh_sender rh' = rh_sender rh"
  using execute_channel_command_sender [of _ rh "w_channels w" "w_boxes w"]
  by (auto simp: run_command_def split: command.splits prod.splits sum.splits) (metis fst_conv snd_conv)+

lemma repl_step_sender: "repl_step exec flag rh w = (fl, rh', w') \<Longrightarrow> rh_sender rh' = rh_sender rh"
  by (auto simp: repl_step_def Let_def split: if_splits prod.splits sum.splits option.splits read_half_error.splits
      dest!: run_command_sender)

text \<open>
  A turn leaves the session where it is or takes it out, and then its mailbox is closed; nothing else is
  opened or closed.
\<close>

lemma session_turn_cases:
  assumes "n < length (sv_sessions s)"
  obtains (stays) rh where "sv_sessions (session_turn flag n s) = (sv_sessions s)[n := rh]"
      "rh_sender rh = rh_sender (sv_sessions s ! n)" "\<not> flag"
      "\<And>a. mbox_open (w_boxes (sv_world (session_turn flag n s)) a) = mbox_open (w_boxes (sv_world s) a)"
  | (leaves) "sv_sessions (session_turn flag n s) = take n (sv_sessions s) @ drop (Suc n) (sv_sessions s)"
      "\<And>a. mbox_open (w_boxes (sv_world (session_turn flag n s)) a) \<longleftrightarrow>
         mbox_open (w_boxes (sv_world s) a) \<and> a \<noteq> rh_sender (sv_sessions s ! n)"
proof -
  obtain fl rh w where step: "repl_step server_exec flag (sv_sessions s ! n) (sv_world s) = (fl, rh, w)"
    using prod_cases3 by blast
  note same = repl_step_sender [OF step] and opened = fun_cong [OF repl_step_open [OF step]]
  show ?thesis
  proof (cases fl)
    case Continue
    have "\<not> flag" using step Continue by (auto simp: repl_step_def)
    then show ?thesis using step Continue same opened by (intro stays [of rh]) (simp_all add: session_turn_def)
  next
    case (Break r)
    show ?thesis using step Break same opened by (intro leaves) (simp_all add: session_turn_def)
  qed
qed

section \<open>The invariant\<close>

text \<open>
  Nobody sleeps on a raised flag: while the accept loop blocks with the flag up, something is in the backlog,
  or a thread has still to knock, or could not.
\<close>

definition trigger_in :: "trigger_phase list \<Rightarrow> process \<Rightarrow> bool" where
  "trigger_in ts p \<longleftrightarrow> pr_signal p \<in> set ts \<or> (case pr_stdin p of None \<Rightarrow> False | Some t \<Rightarrow> t \<in> set ts)"

definition wakeful :: "process \<Rightarrow> bool" where
  "wakeful p \<longleftrightarrow>
     (flag_up p \<and> pr_main p = Accepting \<longrightarrow> pr_backlog p \<noteq> [] \<or> trigger_in [Knocking, Unheard] p)"

text \<open>Whoever is past the store has raised the flag, and so has the sender of a knock.\<close>

definition knocks_after_store :: "process \<Rightarrow> bool" where
  "knocks_after_store p \<longleftrightarrow>
     (trigger_in [Knocking, Knocked, Unheard] p \<or> Knock \<in> set (pr_backlog p) \<or> pr_main p = Examining Knock \<longrightarrow>
        flag_up p)"

text \<open>A writer whose mailbox is open has a session that will close it.\<close>

definition writers_attended :: "process \<Rightarrow> bool" where
  "writers_attended p \<longleftrightarrow>
     (\<forall>a \<in> fst ` set (pr_writers p). mbox_open (w_boxes (sv_world (pr_server p)) a) \<longrightarrow>
        a \<in> rh_sender ` set (sv_sessions (pr_server p)))"

text \<open>The loop is left on a raised flag only, and the joins come after the signals are closed.\<close>

definition loop_left :: "process \<Rightarrow> bool" where
  "loop_left p \<longleftrightarrow> (pr_main p \<in> set [Closing, Joining, Returned] \<longrightarrow> flag_up p) \<and>
     (pr_main p \<in> set [Joining, Returned] \<longrightarrow> pr_closed p) \<and> (pr_main p = Returned \<longrightarrow> threads_ended p)"

definition process_ok :: "process \<Rightarrow> bool" where
  "process_ok p \<longleftrightarrow> wakeful p \<and> knocks_after_store p \<and> writers_attended p \<and> loop_left p"

lemmas process_ok_defs = process_ok_def wakeful_def knocks_after_store_def loop_left_def trigger_in_def

lemma writers_attended_fields:
  "writers_attended (pr_main_update f p) = writers_attended p" "writers_attended (pr_backlog_update g p) = writers_attended p"
  "writers_attended (pr_closed_update h p) = writers_attended p" "writers_attended (pr_signal_update k p) = writers_attended p"
  "writers_attended (pr_stdin_update l p) = writers_attended p" "writers_attended (pr_reading_update r p) = writers_attended p"
  "writers_attended (pr_persistence_update q p) = writers_attended p" "writers_attended (pr_sweeper_update t p) = writers_attended p"
  "writers_attended (p\<lparr>pr_server := trigger_shutdown (pr_server p)\<rparr>) = writers_attended p"
  by (simp_all add: writers_attended_def trigger_shutdown_def)

lemma process_start_ok: "process_ok (process_start ex clk io is_terminal)"
  by (simp add: process_ok_defs writers_attended_def process_start_def)

lemma session_turn_writers:
  assumes "writers_attended p" "n < length (sv_sessions (pr_server p))"
  shows "writers_attended (p\<lparr>pr_server := session_turn flag n (pr_server p)\<rparr>)"
  using assms(2)
proof (cases rule: session_turn_cases [where flag = flag])
  case (stays rh)
  let ?ss = "sv_sessions (pr_server p)"
  have "map rh_sender (?ss[n := rh]) = map rh_sender ?ss"
    using stays(2) assms(2) by (simp add: map_update list_update_same_conv)
  then have "rh_sender ` set (?ss[n := rh]) = rh_sender ` set ?ss" by (metis list.set_map)
  with assms(1) stays show ?thesis by (auto simp: writers_attended_def)
next
  case leaves
  let ?ss = "sv_sessions (pr_server p)"
  have "set ?ss = insert (?ss ! n) (set (take n ?ss @ drop (Suc n) ?ss))"
    using id_take_nth_drop [OF assms(2)] by (metis list.set(2) set_append Un_insert_right)
  then have "a \<in> rh_sender ` set (take n ?ss @ drop (Suc n) ?ss)"
    if "a \<in> rh_sender ` set ?ss" "a \<noteq> rh_sender (?ss ! n)" for a
    using that by (metis image_insert insertE)
  with assms(1) leaves show ?thesis by (auto simp: writers_attended_def)
qed

lemma session_turn_ok:
  assumes "process_ok p" "n < length (sv_sessions (pr_server p))" "pr_main p \<noteq> Returned"
  shows "process_ok (p\<lparr>pr_server := session_turn flag n (pr_server p), pr_reading := r\<rparr>)"
  using assms session_turn_writers [of p n flag]
  by (simp add: process_ok_defs writers_attended_fields session_turn_frame)

lemma background_same:
  "sv_shutdown (persist_tick serialize s) = sv_shutdown s" "sv_sessions (persist_tick serialize s) = sv_sessions s"
  "w_boxes (sv_world (persist_tick serialize s)) = w_boxes (sv_world s)"
  "sv_shutdown (sweep_tick s) = sv_shutdown s" "sv_sessions (sweep_tick s) = sv_sessions s"
  "w_boxes (sv_world (sweep_tick s)) = w_boxes (sv_world s)"
  by (simp_all add: persist_tick_def sweep_tick_def split: prod.split)

lemma deliver_turn_same:
  "sv_shutdown (deliver_turn flag a io s) = sv_shutdown s" "sv_sessions (deliver_turn flag a io s) = sv_sessions s"
  "mbox_open (w_boxes (sv_world (deliver_turn flag a io s)) b) \<Longrightarrow> mbox_open (w_boxes (sv_world s) b)"
  by (auto simp: deliver_turn_def Let_def split: prod.splits if_splits)

lemma alist_keys:
  "fst ` set (AList.delete a ws) \<subseteq> fst ` set ws"
  "a \<in> fst ` set ws \<Longrightarrow> fst ` set (AList.update a b ws) \<subseteq> fst ` set ws"
  by (simp_all add: dom_update) (auto simp: delete_keys simp flip: set_map)

lemma serve_connection_same:
  "sv_shutdown (pr_server (serve_connection c p)) = flag_up p"
  "pr_backlog (serve_connection c p) = pr_backlog p" "pr_signal (serve_connection c p) = pr_signal p"
  "pr_stdin (serve_connection c p) = pr_stdin p"
  by (simp_all add: serve_connection_def accept_connection_def accept_unclonable_def session_split_def Let_def
      split: connection.split)

lemma serve_connection_writers: "writers_attended p \<Longrightarrow> writers_attended (serve_connection c p)"
  by (auto simp: writers_attended_def serve_connection_def accept_connection_def accept_unclonable_def session_split_def
      Let_def split: connection.split)

lemma trigger_shutdown_flag: "sv_shutdown (trigger_shutdown s)"
  by (simp add: trigger_shutdown_def)

lemma trigger_not_returned:
  "process_ok p \<Longrightarrow> trigger_of i p = Some t \<Longrightarrow> \<not> trigger_ended t \<Longrightarrow> pr_main p \<noteq> Returned"
  by (cases i) (auto simp: process_ok_def loop_left_def threads_ended_def)

lemma writers_fewer:
  assumes "writers_attended p" "sv_sessions s = sv_sessions (pr_server p)"
    and "\<And>b. mbox_open (w_boxes (sv_world s) b) \<Longrightarrow> mbox_open (w_boxes (sv_world (pr_server p)) b)"
    and "fst ` set ws \<subseteq> fst ` set (pr_writers p)"
  shows "writers_attended (p\<lparr>pr_server := s, pr_writers := ws\<rparr>)"
proof -
  have "a \<in> rh_sender ` set (sv_sessions s)" if "a \<in> fst ` set ws" "mbox_open (w_boxes (sv_world s) a)" for a
    using that assms(1, 4) assms(3) [OF that(2)] unfolding assms(2) writers_attended_def by blast
  then show ?thesis by (simp add: writers_attended_def)
qed

lemmas returned_defs = threads_ended_def trigger_ended_def

lemma writer_event_ok:
  assumes "process_ok p" "a \<in> fst ` set (pr_writers p)" "sv_shutdown s = flag_up p"
    and "writers_attended (p\<lparr>pr_server := s, pr_writers := ws\<rparr>)"
  shows "process_ok (p\<lparr>pr_server := s, pr_writers := ws\<rparr>)"
proof -
  have "pr_main p \<noteq> Returned" using assms(1, 2) by (auto simp: process_ok_def loop_left_def threads_ended_def)
  with assms show ?thesis by (simp add: process_ok_def wakeful_def knocks_after_store_def loop_left_def trigger_in_def)
qed

lemma background_event_ok:
  assumes "process_ok p" "pr_main p \<noteq> Returned" "sv_shutdown s = flag_up p" "sv_sessions s = sv_sessions (pr_server p)"
    and "w_boxes (sv_world s) = w_boxes (sv_world (pr_server p))"
  shows "process_ok (p\<lparr>pr_persistence := b, pr_server := s\<rparr>)" "process_ok (p\<lparr>pr_sweeper := b, pr_server := s\<rparr>)"
  using assms by (simp_all add: process_ok_defs writers_attended_def)

lemma main_examines_ok:
  assumes "main_examines p = Some p'" "process_ok p"
  shows "process_ok p'"
proof -
  from assms(1) obtain c where "pr_main p = Examining c"
      "p' = (if flag_up p then p\<lparr>pr_main := Closing\<rparr> else (serve_connection c p)\<lparr>pr_main := Checking\<rparr>)"
    by (auto simp: main_examines_def split: main_phase.splits)
  with assms(2) serve_connection_writers [of p c] show ?thesis
    by (auto simp: process_ok_defs writers_attended_fields serve_connection_same)
qed

lemma stores_flag_ok:
  assumes "stores_flag i p = Some p'" "process_ok p"
  shows "process_ok p'"
proof -
  from assms(1) have i: "trigger_of i p = Some Storing"
      "p' = set_trigger i Knocking (p\<lparr>pr_server := trigger_shutdown (pr_server p)\<rparr>)"
    by (auto simp: stores_flag_def split: if_splits)
  with trigger_not_returned [OF assms(2) i(1)] assms(2) show ?thesis
    by (cases i) (simp_all add: trigger_ended_def process_ok_defs writers_attended_fields trigger_shutdown_flag)
qed

lemma knocks_ok:
  assumes "knocks i connected p = Some p'" "process_ok p"
  shows "process_ok p'"
proof -
  from assms(1) have i: "trigger_of i p = Some Knocking"
      "p' = (if connected then set_trigger i Knocked (p\<lparr>pr_backlog := pr_backlog p @ [Knock]\<rparr>) else set_trigger i Unheard p)"
    by (auto simp: knocks_def split: if_splits)
  with trigger_not_returned [OF assms(2) i(1)] assms(2) show ?thesis
    by (cases i) (auto simp: trigger_ended_def process_ok_defs writers_attended_fields)
qed

lemma session_looks_ok:
  assumes "session_looks n p = Some p'" "process_ok p"
  shows "process_ok p'"
proof -
  from assms have n: "n < length (sv_sessions (pr_server p))" by (auto simp: session_looks_def Let_def split: if_splits)
  with assms(2) have "pr_main p \<noteq> Returned" by (auto simp: process_ok_def loop_left_def threads_ended_def)
  with assms session_turn_ok [OF assms(2) n this, where flag = True and r = "pr_reading p"] show ?thesis
    by (auto simp: session_looks_def Let_def split: if_splits) (simp add: process_ok_defs writers_attended_fields)
qed

lemma session_reads_ok:
  assumes "session_reads n p = Some p'" "process_ok p"
  shows "process_ok p'"
proof -
  from assms have n: "n < length (sv_sessions (pr_server p))" by (auto simp: session_reads_def Let_def split: if_splits)
  with assms(2) have "pr_main p \<noteq> Returned" by (auto simp: process_ok_def loop_left_def threads_ended_def)
  with assms session_turn_ok [OF assms(2) n this] show ?thesis
    by (auto simp: session_reads_def Let_def split: if_splits)
qed

lemma writer_looks_ok:
  assumes "writer_looks a p = Some p'" "process_ok p"
  shows "process_ok p'"
proof -
  from assms(1) have a: "map_of (pr_writers p) a = Some False" by (auto simp: writer_looks_def split: if_splits)
  then have mem: "a \<in> fst ` set (pr_writers p)" by (metis domI dom_map_of_conv_image_fst)
  have attended: "writers_attended p" using assms(2) by (simp add: process_ok_def)
  have "process_ok (p\<lparr>pr_server := deliver_turn True a io_ok (pr_server p), pr_writers := AList.delete a (pr_writers p)\<rparr>)"
    by (rule writer_event_ok [OF assms(2) mem deliver_turn_same(1)
          writers_fewer [OF attended deliver_turn_same(2, 3) alist_keys(1)]])
  moreover have "process_ok (p\<lparr>pr_server := pr_server p, pr_writers := AList.update a True (pr_writers p)\<rparr>)"
    by (rule writer_event_ok [OF assms(2) mem refl writers_fewer [OF attended refl _ alist_keys(2) [OF mem]]])
  ultimately show ?thesis using assms(1) a by (simp add: writer_looks_def split: if_splits)
qed

lemma writer_receives_ok:
  assumes "writer_receives a io p = Some p'" "process_ok p"
  shows "process_ok p'"
proof -
  from assms(1) have a: "map_of (pr_writers p) a = Some True" by (auto simp: writer_receives_eq Let_def split: if_splits)
  then have mem: "a \<in> fst ` set (pr_writers p)" by (metis domI dom_map_of_conv_image_fst)
  have attended: "writers_attended p" using assms(2) by (simp add: process_ok_def)
  have "process_ok (p\<lparr>pr_server := deliver_turn False a io (pr_server p), pr_writers := AList.update a False (pr_writers p)\<rparr>)"
    by (rule writer_event_ok [OF assms(2) mem deliver_turn_same(1)
          writers_fewer [OF attended deliver_turn_same(2, 3) alist_keys(2) [OF mem]]])
  moreover have "process_ok (p\<lparr>pr_server := pr_server p, pr_writers := AList.delete a (pr_writers p)\<rparr>)"
    by (rule writer_event_ok [OF assms(2) mem refl writers_fewer [OF attended refl _ alist_keys(1)]])
  ultimately show ?thesis using assms(1) a by (simp add: writer_receives_eq Let_def split: if_splits)
qed

lemma persistence_wakes_ok:
  assumes "persistence_wakes serialize p = Some p'" "process_ok p"
  shows "process_ok p'"
proof -
  have "pr_main p \<noteq> Returned"
    using assms by (auto simp: persistence_wakes_def wakes_def process_ok_def loop_left_def threads_ended_def)
  moreover obtain act b where "p' = p\<lparr>pr_persistence := b,
      pr_server := (if act then persist_tick serialize (pr_server p) else pr_server p)\<rparr>"
    using assms(1) by (fastforce simp: persistence_wakes_def)
  ultimately show ?thesis
    by (simp only:) (rule background_event_ok(1) [OF assms(2)], simp_all add: background_same)
qed

lemma sweeper_wakes_ok:
  assumes "sweeper_wakes p = Some p'" "process_ok p"
  shows "process_ok p'"
proof -
  have "pr_main p \<noteq> Returned"
    using assms by (auto simp: sweeper_wakes_def wakes_def process_ok_def loop_left_def threads_ended_def)
  moreover obtain act b where "p' = p\<lparr>pr_sweeper := b,
      pr_server := (if act then sweep_tick (pr_server p) else pr_server p)\<rparr>"
    using assms(1) by (fastforce simp: sweeper_wakes_def)
  ultimately show ?thesis
    by (simp only:) (rule background_event_ok(2) [OF assms(2)], simp_all add: background_same)
qed

lemma stdin_reads_ok:
  assumes "stdin_reads r p = Some p'" "process_ok p"
  shows "process_ok p'"
proof -
  from assms(1) have "trigger_of StdinThread p = Some Waiting"
      "p' = (if asks_to_stop r then p\<lparr>pr_stdin := Some Storing\<rparr> else p)"
    by (auto simp: stdin_reads_def split: if_splits)
  with trigger_not_returned [OF assms(2) this(1)] assms(2) show ?thesis
    by (simp add: trigger_ended_def process_ok_defs writers_attended_fields)
qed

lemma signal_arrives_ok:
  assumes "signal_arrives p = Some p'" "process_ok p"
  shows "process_ok p'"
proof -
  from assms(1) have "trigger_of SignalThread p = Some Waiting" "p' = p\<lparr>pr_signal := Storing\<rparr>"
    by (auto simp: signal_arrives_def split: if_splits)
  with trigger_not_returned [OF assms(2) this(1)] assms(2) show ?thesis
    by (simp add: trigger_ended_def process_ok_defs writers_attended_fields)
qed

lemma signals_end_ok:
  assumes "signals_end p = Some p'" "process_ok p"
  shows "process_ok p'"
proof -
  from assms(1) have "trigger_of SignalThread p = Some Waiting" "p' = p\<lparr>pr_signal := Dismissed\<rparr>"
    by (auto simp: signals_end_def split: if_splits)
  with trigger_not_returned [OF assms(2) this(1)] assms(2) show ?thesis
    by (simp add: trigger_ended_def process_ok_defs writers_attended_fields)
qed

lemma connects_ok:
  assumes "process_event serialize (Connects c) p = Some p'" "process_ok p"
  shows "process_ok p'"
proof -
  from assms(1) have "c \<noteq> Knock" "pr_main p \<noteq> Returned" "p' = p\<lparr>pr_backlog := pr_backlog p @ [c]\<rparr>"
    by (auto split: if_splits)
  with assms(2) show ?thesis by (simp add: process_ok_defs writers_attended_fields)
qed

lemma main_returns_ok:
  assumes "main_returns p = Some p'" "process_ok p"
  shows "process_ok p'"
proof -
  from assms(1) have "pr_main p = Joining" "threads_ended p" "p' = p\<lparr>pr_main := Returned\<rparr>"
    by (auto simp: main_returns_def split: if_splits)
  with assms(2) show ?thesis by (simp add: process_ok_defs writers_attended_fields threads_ended_def)
qed

lemma main_accepts_ok:
  assumes "main_accepts p = Some p'" "process_ok p"
  shows "process_ok p'"
proof -
  from assms(1) obtain c cs where "pr_main p = Accepting" "pr_backlog p = c # cs"
      "p' = p\<lparr>pr_backlog := cs, pr_main := Examining c\<rparr>"
    by (auto simp: main_accepts_def split: if_splits list.splits)
  with assms(2) show ?thesis by (auto simp add: process_ok_defs writers_attended_fields)
qed

lemma main_looks_ok:
  assumes "main_looks p = Some p'" "process_ok p"
  shows "process_ok p'"
proof -
  from assms(1) have "pr_main p = Checking" "p' = p\<lparr>pr_main := if flag_up p then Closing else Accepting\<rparr>"
    by (auto simp: main_looks_def split: if_splits)
  with assms(2) show ?thesis by (simp add: process_ok_defs writers_attended_fields)
qed

lemma accept_fails_ok:
  assumes "accept_fails p = Some p'" "process_ok p"
  shows "process_ok p'"
proof -
  from assms(1) have "pr_main p = Accepting" "p' = p\<lparr>pr_main := Checking\<rparr>"
    by (auto simp: accept_fails_def split: if_splits)
  with assms(2) show ?thesis by (simp add: process_ok_defs writers_attended_fields)
qed

lemma main_closes_ok:
  assumes "main_closes p = Some p'" "process_ok p"
  shows "process_ok p'"
proof -
  from assms(1) have "pr_main p = Closing" "p' = p\<lparr>pr_main := Joining, pr_closed := True\<rparr>"
    by (auto simp: main_closes_def split: if_splits)
  with assms(2) show ?thesis by (simp add: process_ok_defs writers_attended_fields)
qed

lemmas event_oks = main_examines_ok stores_flag_ok knocks_ok session_looks_ok session_reads_ok writer_looks_ok
  writer_receives_ok persistence_wakes_ok sweeper_wakes_ok stdin_reads_ok signal_arrives_ok signals_end_ok
  connects_ok main_returns_ok main_accepts_ok main_looks_ok accept_fails_ok main_closes_ok

lemma process_event_ok: "process_event serialize e p = Some p' \<Longrightarrow> process_ok p \<Longrightarrow> process_ok p'"
  by (cases e) (auto intro: event_oks simp del: process_event.simps(1))

lemma process_run_ok: "process_run serialize es p = Some p' \<Longrightarrow> process_ok p \<Longrightarrow> process_ok p'"
  by (induction es arbitrary: p) (auto split: option.splits intro: process_event_ok)

section \<open>Work left after the flag\<close>

text \<open>The steps each thread has at most before it ends, once the flag is up.\<close>

fun main_work :: "main_phase \<Rightarrow> nat" where
  "main_work Accepting = 4"
| "main_work Checking = 3"
| "main_work (Examining _) = 3"
| "main_work Closing = 2"
| "main_work Joining = 1"
| "main_work Returned = 0"

fun trigger_work :: "trigger_phase \<Rightarrow> nat" where
  "trigger_work Waiting = 3"
| "trigger_work Storing = 2"
| "trigger_work Knocking = 1"
| "trigger_work _ = 0"

fun background_work :: "background \<Rightarrow> nat" where
  "background_work (Sleeping _) = 1"
| "background_work Stopped = 0"

definition session_work :: "process \<Rightarrow> nat" where
  "session_work p =
     sum_list (map (\<lambda>rh. if pr_reading p (rh_sender rh) then 2 else 1) (sv_sessions (pr_server p)))"

definition writer_work :: "(sender \<times> bool) list \<Rightarrow> nat" where
  "writer_work ws = sum_list (map (\<lambda>(a, receiving). if receiving then 2 else 1) ws)"

definition work_left :: "process \<Rightarrow> nat" where
  "work_left p =
     main_work (pr_main p) + trigger_work (pr_signal p) +
     (case pr_stdin p of None \<Rightarrow> 0 | Some t \<Rightarrow> trigger_work t) +
     background_work (pr_persistence p) + background_work (pr_sweeper p) + session_work p +
     writer_work (pr_writers p)"

text \<open>The steps the threads take by themselves; the rest is up to the world outside.\<close>

fun thread_event :: "event \<Rightarrow> bool" where
  "thread_event (Connects _) \<longleftrightarrow> False"
| "thread_event AcceptFails \<longleftrightarrow> False"
| "thread_event SignalArrives \<longleftrightarrow> False"
| "thread_event (StdinReads _) \<longleftrightarrow> False"
| "thread_event (Knocks _ connected) \<longleftrightarrow> connected"
| "thread_event _ \<longleftrightarrow> True"

fun knock_heard :: "event \<Rightarrow> bool" where
  "knock_heard (Knocks _ connected) \<longleftrightarrow> connected"
| "knock_heard _ \<longleftrightarrow> True"

text \<open>The flag is up, every knock so far was heard, and nobody waits for a line from a terminal.\<close>

definition shutting_down :: "process \<Rightarrow> bool" where
  "shutting_down p \<longleftrightarrow> process_ok p \<and> flag_up p \<and> \<not> trigger_in [Unheard] p \<and> pr_stdin p \<noteq> Some Waiting"

lemma flag_stays: "process_event serialize e p = Some p' \<Longrightarrow> flag_up p \<Longrightarrow> flag_up p'"
  using process_run_server [of serialize "[e]" p p'] shutdown_run by simp

lemma sum_list_update_le:
  fixes f :: "'a \<Rightarrow> nat"
  shows "n < length xs \<Longrightarrow> sum_list (map f (xs[n := x])) + f (xs ! n) = sum_list (map f xs) + f x"
  by (induction xs arbitrary: n) (auto simp: nth_Cons split: nat.splits)

lemma sum_list_without_nth:
  fixes f :: "'a \<Rightarrow> nat"
  assumes "n < length xs"
  shows "sum_list (map f (take n xs @ drop (Suc n) xs)) + f (xs ! n) = sum_list (map f xs)"
proof -
  have "sum_list (map f xs) = sum_list (map f (take n xs @ xs ! n # drop (Suc n) xs))"
    using id_take_nth_drop [OF assms] by simp
  then show ?thesis by simp
qed

lemma writer_work_update: "map_of ws a = Some True \<Longrightarrow> writer_work (AList.update a False ws) < writer_work ws"
  by (induction ws) (auto simp: writer_work_def split: if_splits)

lemma writer_work_delete: "map_of ws a = Some b \<Longrightarrow> writer_work (AList.delete a ws) < writer_work ws"
proof (induction ws)
  case (Cons w ws)
  have "writer_work (AList.delete a ws) \<le> writer_work ws" for ws
    by (induction ws) (auto simp: writer_work_def)
  from this [of ws] Cons show ?case
    by (cases w) (auto simp: writer_work_def split: if_splits)
qed simp

lemma session_turn_work:
  assumes "n < length (sv_sessions (pr_server p))" "a = rh_sender (sv_sessions (pr_server p) ! n)"
    and "flag \<or> pr_reading p a"
  shows "session_work (p\<lparr>pr_server := session_turn flag n (pr_server p), pr_reading := (pr_reading p)(a := False)\<rparr>) <
    session_work p"
proof -
  let ?ss = "sv_sessions (pr_server p)" and ?w = "\<lambda>r rh. if r (rh_sender rh) then 2 else 1 :: nat"
  let ?r = "(pr_reading p)(a := False)"
  have less: "sum_list (map (?w ?r) xs) \<le> sum_list (map (?w (pr_reading p)) xs)" for xs
    by (induction xs) auto
  show ?thesis
    using assms(1)
  proof (cases rule: session_turn_cases [where flag = flag])
    case (stays rh)
    then have "?w (pr_reading p) (?ss ! n) = 2" "?w ?r (?ss ! n) = 1" "?w ?r rh = 1" using assms(2, 3) by simp_all
    with sum_list_update_le [OF assms(1), of "?w ?r" rh] sum_list_without_nth [OF assms(1), of "?w ?r"]
      sum_list_without_nth [OF assms(1), of "?w (pr_reading p)"] less [of "take n ?ss @ drop (Suc n) ?ss"]
    have "sum_list (map (?w ?r) (?ss[n := rh])) < sum_list (map (?w (pr_reading p)) ?ss)" by linarith
    with stays(1) show ?thesis by (simp add: session_work_def)
  next
    case leaves
    have "1 \<le> ?w (pr_reading p) (?ss ! n)" by simp
    with leaves sum_list_without_nth [OF assms(1), of "?w (pr_reading p)"]
      less [of "take n ?ss @ drop (Suc n) ?ss"] show ?thesis by (simp add: session_work_def)
  qed
qed

lemma session_work_fields:
  "pr_reading p' = pr_reading p \<Longrightarrow> sv_sessions (pr_server p') = sv_sessions (pr_server p) \<Longrightarrow>
     session_work p' = session_work p"
  by (simp add: session_work_def)

lemma session_event_work:
  assumes "flag_up p"
  shows "session_looks n p = Some p' \<Longrightarrow> work_left p' < work_left p"
    and "session_reads n p = Some p' \<Longrightarrow> work_left p' < work_left p"
proof -
  let ?a = "rh_sender (sv_sessions (pr_server p) ! n)"
  show "work_left p' < work_left p" if look: "session_looks n p = Some p'"
  proof -
    have n: "n < length (sv_sessions (pr_server p))" "\<not> pr_reading p ?a"
        "p' = p\<lparr>pr_server := session_turn True n (pr_server p)\<rparr>"
      using assms look by (auto simp: session_looks_def Let_def split: if_splits)
    then have "(pr_reading p)(?a := False) = pr_reading p" by (simp add: fun_upd_idem)
    with session_turn_work [OF n(1) refl, of True] n(3) show ?thesis by (simp add: work_left_def)
  qed
  show "work_left p' < work_left p" if "session_reads n p = Some p'"
  proof -
    have "n < length (sv_sessions (pr_server p))" "pr_reading p ?a" "p' = p\<lparr>pr_server := session_turn False n (pr_server p),
        pr_reading := (pr_reading p)(?a := False)\<rparr>"
      using that by (auto simp: session_reads_def Let_def split: if_splits)
    with session_turn_work [OF this(1) refl, of False] show ?thesis by (simp add: work_left_def)
  qed
qed

lemma writer_looks_work:
  assumes "flag_up p" "writer_looks a p = Some p'"
  shows "work_left p' < work_left p"
proof -
  have "map_of (pr_writers p) a = Some False" "p' = p\<lparr>pr_server := deliver_turn True a io_ok (pr_server p),
      pr_writers := AList.delete a (pr_writers p)\<rparr>"
    using assms by (auto simp: writer_looks_def split: if_splits)
  with writer_work_delete [OF this(1)] show ?thesis
    by (simp add: work_left_def session_work_def deliver_turn_same)
qed

lemma writer_receives_work:
  assumes "writer_receives a io p = Some p'"
  shows "work_left p' < work_left p"
proof -
  have a: "map_of (pr_writers p) a = Some True"
      "p' = p\<lparr>pr_server := deliver_turn False a io (pr_server p), pr_writers := AList.update a False (pr_writers p)\<rparr> \<or>
       p' = p\<lparr>pr_writers := AList.delete a (pr_writers p)\<rparr>"
    using assms by (auto simp: writer_receives_eq Let_def split: if_splits)
  from a(2) show ?thesis
    using writer_work_delete [OF a(1)] writer_work_update [OF a(1)]
    by (elim disjE) (simp_all add: work_left_def session_work_def deliver_turn_same)
qed

lemma trigger_event_work:
  "stores_flag i p = Some p' \<Longrightarrow> work_left p' < work_left p"
  "knocks i connected p = Some p' \<Longrightarrow> work_left p' < work_left p"
  "signal_arrives p = Some p' \<Longrightarrow> work_left p' < work_left p"
  "signals_end p = Some p' \<Longrightarrow> work_left p' < work_left p"
  by (cases i; auto simp: trigger_defs work_left_def session_work_def trigger_shutdown_def split: if_splits)+

lemma background_event_work:
  assumes "flag_up p"
  shows "persistence_wakes serialize p = Some p' \<Longrightarrow> work_left p' < work_left p"
    and "sweeper_wakes p = Some p' \<Longrightarrow> work_left p' < work_left p"
  using assms
  by (auto simp: persistence_wakes_def sweeper_wakes_def wakes_def background_wake_def work_left_def session_work_def
      background_same split: background.splits if_splits)

lemma main_event_work:
  assumes "flag_up p"
  shows "main_looks p = Some p' \<Longrightarrow> work_left p' < work_left p" "main_accepts p = Some p' \<Longrightarrow> work_left p' < work_left p"
    "accept_fails p = Some p' \<Longrightarrow> work_left p' < work_left p" "main_examines p = Some p' \<Longrightarrow> work_left p' < work_left p"
    "main_closes p = Some p' \<Longrightarrow> work_left p' < work_left p" "main_returns p = Some p' \<Longrightarrow> work_left p' < work_left p"
  using assms
  by (auto simp: main_defs work_left_def session_work_def split: if_splits list.splits main_phase.splits)

lemma process_event_work:
  assumes "process_event serialize e p = Some p'" "shutting_down p"
  shows "work_left p' + (if thread_event e then 1 else 0) \<le> work_left p"
proof -
  have up: "flag_up p" using assms(2) by (simp add: shutting_down_def)
  show ?thesis
  proof (cases e)
    case (Connects c)
    with assms(1) have "work_left p' = work_left p" by (auto simp: work_left_def session_work_def split: if_splits)
    with Connects show ?thesis by simp
  next
    case (StdinReads r)
    with assms show ?thesis by (simp add: stdin_reads_def shutting_down_def)
  qed (use assms(1) main_event_work [OF up] session_event_work [OF up] writer_looks_work [OF up]
      writer_receives_work trigger_event_work background_event_work [OF up] in \<open>fastforce intro: Suc_leI\<close>)+
qed

lemma trigger_stays:
  assumes "process_event serialize e p = Some p'" "\<not> trigger_in [Unheard] p" "pr_stdin p \<noteq> Some Waiting" "knock_heard e"
  shows "\<not> trigger_in [Unheard] p' \<and> pr_stdin p' \<noteq> Some Waiting"
proof (cases e)
  case (StoresFlag i)
  with assms show ?thesis by (cases i) (auto simp: stores_flag_def trigger_in_def split: if_splits)
next
  case (Knocks i connected)
  with assms show ?thesis by (cases i) (auto simp: knocks_def trigger_in_def split: if_splits)
qed (use assms in \<open>auto simp: main_defs trigger_defs worker_defs serve_connection_same trigger_in_def Let_def
  split: if_splits list.splits main_phase.splits\<close>)

lemma trigger_goes_on:
  assumes "trigger_of i p = Some t" "t = Storing \<or> t = Knocking \<or> i = SignalThread \<and> t = Waiting \<and> pr_closed p"
  shows "\<exists>e p'. thread_event e \<and> process_event serialize e p = Some p'"
  using assms
proof (elim disjE conjE)
  assume "t = Storing"
  with assms(1) show ?thesis by (intro exI [of _ "StoresFlag i"]) (simp add: stores_flag_def)
next
  assume "t = Knocking"
  with assms(1) show ?thesis by (intro exI [of _ "Knocks i True"]) (simp add: knocks_def)
next
  assume "i = SignalThread" "t = Waiting" "pr_closed p"
  with assms(1) show ?thesis by (intro exI [of _ SignalsEnd]) (simp add: signals_end_def)
qed

lemma session_goes_on:
  assumes "n < length (sv_sessions (pr_server p))"
  shows "\<exists>e p'. thread_event e \<and> process_event serialize e p = Some p'"
proof (cases "pr_reading p (rh_sender (sv_sessions (pr_server p) ! n))")
  case True
  with assms show ?thesis by (intro exI [of _ "SessionReads n"]) (simp add: session_reads_def Let_def)
next
  case False
  with assms show ?thesis by (intro exI [of _ "SessionLooks n"]) (simp add: session_looks_def Let_def)
qed

lemma writer_goes_on:
  assumes "writers_attended p" "pr_writers p \<noteq> []"
  shows "\<exists>e p'. thread_event e \<and> process_event serialize e p = Some p'"
proof -
  obtain a b ws where ws: "pr_writers p = (a, b) # ws" using assms(2) by (metis neq_Nil_conv surj_pair)
  let ?box = "w_boxes (sv_world (pr_server p)) a"
  consider "\<not> b" | "b" "mbox_queue ?box \<noteq> [] \<or> \<not> mbox_open ?box" | "mbox_open ?box" by blast
  then show ?thesis
  proof cases
    case 1
    with ws show ?thesis by (intro exI [of _ "WriterLooks a"]) (simp add: writer_looks_def)
  next
    case 2
    with ws show ?thesis by (intro exI [of _ "WriterReceives a io_ok"]) (auto simp: writer_receives_eq Let_def)
  next
    case 3
    with assms(1) ws have "a \<in> rh_sender ` set (sv_sessions (pr_server p))" by (simp add: writers_attended_def)
    then have "0 < length (sv_sessions (pr_server p))" by auto
    then show ?thesis by (rule session_goes_on)
  qed
qed

text \<open>The joins wait for nobody who waits for them.\<close>

lemma joining_goes_on:
  assumes "shutting_down p" "pr_main p = Joining"
  shows "\<exists>e p'. thread_event e \<and> process_event serialize e p = Some p'"
proof (cases "threads_ended p")
  case True
  with assms(2) show ?thesis by (intro exI [of _ MainReturns]) (simp add: main_returns_def)
next
  case False
  have closed: "pr_closed p" "writers_attended p" "pr_stdin p \<noteq> Some Waiting"
    using assms by (simp_all add: shutting_down_def process_ok_def loop_left_def)
  consider "\<not> trigger_ended (pr_signal p)" | t where "pr_stdin p = Some t" "\<not> trigger_ended t"
    | n where "pr_persistence p = Sleeping n" | n where "pr_sweeper p = Sleeping n"
    | "sv_sessions (pr_server p) \<noteq> []" | "pr_writers p \<noteq> []"
    using False unfolding threads_ended_def by (metis background.exhaust option.case_eq_if option.collapse)
  then show ?thesis
  proof cases
    case 1
    with closed(1) show ?thesis
      by (intro trigger_goes_on [of SignalThread p "pr_signal p"]) (cases "pr_signal p"; simp add: trigger_ended_def)+
  next
    case 2
    with closed(3) show ?thesis
      by (intro trigger_goes_on [of StdinThread p t]) (cases t; simp add: trigger_ended_def)+
  next
    case 3
    then show ?thesis by (intro exI [of _ PersistenceWakes]) (simp add: persistence_wakes_def wakes_def split: prod.split)
  next
    case 4
    then show ?thesis by (intro exI [of _ SweeperWakes]) (simp add: sweeper_wakes_def wakes_def split: prod.split)
  next
    case 5
    then show ?thesis by (intro session_goes_on [of 0]) simp
  next
    case 6
    with closed(2) show ?thesis by (rule writer_goes_on)
  qed
qed

lemma accepting_goes_on:
  assumes "shutting_down p" "pr_main p = Accepting"
  shows "\<exists>e p'. thread_event e \<and> process_event serialize e p = Some p'"
proof (cases "pr_backlog p")
  case (Cons c cs)
  with assms(2) show ?thesis by (intro exI [of _ MainAccepts]) (simp add: main_accepts_def)
next
  case Nil
  with assms have "pr_signal p = Knocking \<or> pr_stdin p = Some Knocking"
    by (auto simp: shutting_down_def process_ok_def wakeful_def trigger_in_def split: option.splits)
  then show ?thesis
    using trigger_goes_on [of SignalThread p Knocking] trigger_goes_on [of StdinThread p Knocking] by auto
qed

interpretation shutdown: draining "process_event serialize" knock_heard thread_event shutting_down
    "\<lambda>p. pr_main p = Returned" work_left
proof (unfold_locales, goal_cases)
  case (1 e)
  then show ?case by (cases e) auto
next
  case (2 p e p')
  then show ?case
    using process_event_ok flag_stays trigger_stays by (auto simp: shutting_down_def)
next
  case (3 p e p')
  then show ?case by (intro process_event_work)
next
  case (4 p)
  show ?case
  proof (cases "pr_main p")
    case Checking
    then show ?thesis by (intro exI [of _ MainLooks]) (simp add: main_looks_def)
  next
    case (Examining c)
    then show ?thesis by (intro exI [of _ MainExamines]) (simp add: main_examines_def)
  next
    case Closing
    then show ?thesis by (intro exI [of _ MainCloses]) (simp add: main_closes_def)
  qed (use 4 accepting_goes_on joining_goes_on in blast)+
qed

text \<open>A run to try the properties on: the loop is inside \<^verbatim>\<open>accept\<close> when a signal arrives and raises the flag.\<close>

abbreviation started :: "bool \<Rightarrow> process" where
  "started \<equiv> process_start fresh_executor (clock_at (Milliseconds 1)) io_ok"

definition signalled :: "bool \<Rightarrow> process" where
  "signalled is_terminal =
    (started is_terminal)\<lparr>pr_server := trigger_shutdown (server_run_start fresh_executor (clock_at (Milliseconds 1)) io_ok),
       pr_main := Accepting, pr_signal := Knocking\<rparr>"

lemma signalled_run:
  "process_run serialize [MainLooks, SignalArrives, StoresFlag SignalThread] (started is_terminal) =
     Some (signalled is_terminal)"
  by (simp add: signalled_def process_start_def server_run_start_def main_looks_def signal_arrives_def stores_flag_def)

lemma signalled_simps [simp]:
  "flag_up (signalled is_terminal)" "pr_main (signalled is_terminal) = Accepting" "pr_backlog (signalled is_terminal) = []"
  "pr_signal (signalled is_terminal) = Knocking"
  "pr_stdin (signalled is_terminal) = (if is_terminal then Some Waiting else None)"
  by (simp_all add: signalled_def process_start_def trigger_shutdown_def)

text \<open>The unit test of \<^verbatim>\<open>inbound/server.rs\<close>: \<^verbatim>\<open>trigger_shutdown\<close> raises the flag, and \<^verbatim>\<open>accept\<close> has a connection to take.\<close>

definition trigger_shutdown_sets_the_flag_and_wakes_the_listener :: bool where
  "trigger_shutdown_sets_the_flag_and_wakes_the_listener \<longleftrightarrow>
    (case run_events (process_event dump) [StoresFlag SignalThread, Knocks SignalThread True]
        ((started False)\<lparr>pr_main := Accepting, pr_signal := Storing\<rparr>) of
       None \<Rightarrow> False
     | Some p \<Rightarrow> flag_up p \<and> main_accepts p \<noteq> None)"

lemma server_test_holds: "trigger_shutdown_sets_the_flag_and_wakes_the_listener"
  by (simp add: trigger_shutdown_sets_the_flag_and_wakes_the_listener_def stores_flag_def knocks_def main_accepts_def
      process_start_def trigger_shutdown_def)

section \<open>Properties\<close>



text \<open>
  C15: no wake-up is lost.  In every state the process reaches, when the accept loop is blocked with the flag
  up, then a thread is about to knock or its connection was refused; and a knock is never taken for a
  client, because the flag is up before it arrives.
\<close>

theorem no_lost_wakeup:
  assumes "process_run serialize es (process_start ex clk io is_terminal) = Some p"
  shows "(flag_up p \<and> pr_main p = Accepting \<and> pr_backlog p = [] \<longrightarrow>
      (\<exists>i. trigger_of i p = Some Knocking \<or> trigger_of i p = Some Unheard)) \<and>
    (Knock \<in> set (pr_backlog p) \<or> pr_main p = Examining Knock \<longrightarrow> flag_up p)"
proof -
  have "process_ok p" by (rule process_run_ok [OF assms process_start_ok])
  then have "wakeful p" "knocks_after_store p" by (simp_all add: process_ok_def)
  moreover have "\<exists>i. trigger_of i p = Some Knocking \<or> trigger_of i p = Some Unheard"
    if "trigger_in [Knocking, Unheard] p"
    using that by (auto simp: trigger_in_def split: option.splits intro: exI [of _ SignalThread] exI [of _ StdinThread])
  ultimately show ?thesis by (auto simp: wakeful_def knocks_after_store_def)
qed

theorem no_lost_wakeup_witness:
  "flag_up (signalled True) \<and> pr_main (signalled True) = Accepting \<and> pr_backlog (signalled True) = [] \<and>
    (\<exists>i. trigger_of i (signalled True) = Some Knocking \<or> trigger_of i (signalled True) = Some Unheard)"
  using no_lost_wakeup [OF signalled_run, of True] by simp



text \<open>
  C37: with a terminal attached, a signal alone does not end the process.  The stdin thread does not look at the
  flag and is joined like the others, so however the run goes on, \<^verbatim>\<open>run\<close> does not return before a line or the end of the
  input asks for it.
\<close>

theorem terminal_outlives_signal:
  assumes "process_run serialize es (process_start ex clk io True) = Some p"
    and "\<forall>r. StdinReads r \<in> set es \<longrightarrow> \<not> asks_to_stop r"
  shows "pr_main p \<noteq> Returned"
proof -
  have waits: "pr_stdin p' = Some Waiting"
    if "process_event serialize e q = Some p'" "pr_stdin q = Some Waiting" "\<And>r. e = StdinReads r \<Longrightarrow> \<not> asks_to_stop r" for e q p'
  proof (cases e)
    case (StoresFlag i)
    with that show ?thesis by (cases i) (auto simp: stores_flag_def split: if_splits)
  next
    case (Knocks i connected)
    with that show ?thesis by (cases i) (auto simp: knocks_def split: if_splits)
  qed (use that in \<open>auto simp: main_defs trigger_defs worker_defs serve_connection_same Let_def
    split: if_splits list.splits main_phase.splits\<close>)
  have "process_run serialize es q = Some p \<Longrightarrow> pr_stdin q = Some Waiting \<Longrightarrow> pr_stdin p = Some Waiting" for q
    using assms(2) by (induction es arbitrary: q) (auto split: option.splits dest: waits)
  from this [OF assms(1)] have "pr_stdin p = Some Waiting" by (simp add: process_start_def)
  moreover have "process_ok p" by (rule process_run_ok [OF assms(1) process_start_ok])
  ultimately show ?thesis by (auto simp: process_ok_def loop_left_def threads_ended_def trigger_ended_def)
qed

theorem terminal_outlives_signal_witness:
  "\<exists>p. process_run dump
      [MainLooks, SignalArrives, StoresFlag SignalThread, Knocks SignalThread True, MainAccepts, MainExamines,
       MainCloses, PersistenceWakes, SweeperWakes] (started True) = Some p \<and>
    flag_up p \<and> pr_main p = Joining \<and> pr_persistence p = Stopped \<and> pr_sweeper p = Stopped \<and>
    (\<forall>es p'. process_run dump es p = Some p' \<and> (\<forall>r. StdinReads r \<in> set es \<longrightarrow> \<not> asks_to_stop r) \<longrightarrow>
       pr_main p' \<noteq> Returned)"
    (is "\<exists>p. process_run dump ?before _ = Some p \<and> _")
proof -
  have "\<exists>p. process_run dump ?before (started True) = Some p \<and> flag_up p \<and> pr_main p = Joining \<and>
      pr_persistence p = Stopped \<and> pr_sweeper p = Stopped"
    by (simp add: process_start_def server_run_start_def main_defs trigger_defs worker_defs wakes_def background_wake_def
        background_same trigger_shutdown_def)
  then obtain p where p: "process_run dump ?before (started True) = Some p" "flag_up p" "pr_main p = Joining"
      "pr_persistence p = Stopped" "pr_sweeper p = Stopped" by blast
  have "pr_main p' \<noteq> Returned"
    if "process_run dump es p = Some p'" "\<forall>r. StdinReads r \<in> set es \<longrightarrow> \<not> asks_to_stop r" for es p'
  proof (rule terminal_outlives_signal [of dump "?before @ es"])
    show "process_run dump (?before @ es) (started True) = Some p'"
      unfolding run_events_append using p(1) that(1) by simp
  qed (use that(2) in simp)
  with p show ?thesis by blast
qed

end
