(* ===== verification/Test_Clock.thy ===== *)
theory Test_Clock
  imports Domain_Time
begin

text \<open>
  The wall clock as a unit test relies on it: it works, it does not go back, and a test does not take
  long.  The tests of the repository are shown to pass under every such clock.
\<close>

section \<open>A clock that runs\<close>

text \<open>A clock that never fails and never goes back.\<close>

definition steady :: "clock \<Rightarrow> bool" where
  "steady clk \<longleftrightarrow> (\<forall>n. 0 \<le> snth clk n \<and> snth clk n \<le> snth clk (Suc n))"

lemma unat_reading:
  assumes "reading clk = Inr t"
  shows "unat (millis_get t) = min (nat (shd clk div 1000000)) (2 ^ 64 - 1)"
proof -
  define n where "n = nat (shd clk div 1000000)"
  have "t = Milliseconds (if n < 2 ^ 64 then word_of_nat n else - 1)"
    using assms by (simp add: reading_def now_def Let_def n_def split: if_splits)
  then have "unat (millis_get t) = min n (2 ^ 64 - 1)"
    by (simp add: unsigned_of_nat take_bit_nat_eq_self unat_max_word)
  then show ?thesis by (simp only: n_def)
qed

lemma steadyD:
  assumes "steady clk"
  shows "steady (stl clk)" and "\<exists>t. reading clk = Inr t"
    and "reading clk = Inr t \<Longrightarrow> reading (stl clk) = Inr u \<Longrightarrow> t \<le> u"
proof -
  have nth: "0 \<le> snth clk n" "snth clk n \<le> snth clk (Suc n)" for n using assms by (simp_all add: steady_def)
  show "steady (stl clk)" using nth [of "Suc _"] by (simp add: steady_def)
  have first: "0 \<le> shd clk" "shd clk \<le> shd (stl clk)" using nth [of 0] by simp_all
  then show "\<exists>t. reading clk = Inr t" by (simp add: reading_def now_def Let_def)
  have "nat (shd clk div 1000000) \<le> nat (shd (stl clk) div 1000000)"
    using first by (intro nat_mono zdiv_mono1) simp_all
  with first show "reading clk = Inr t \<Longrightarrow> reading (stl clk) = Inr u \<Longrightarrow> t \<le> u"
    by (simp add: millis_le_nat unat_reading)
qed

lemma ms_saturating_add_mono: "a \<le> b \<Longrightarrow> ms_saturating_add a c \<le> ms_saturating_add b c"
  by (simp add: millis_le_nat unat_ms_saturating_add)

section \<open>While a test runs\<close>

text \<open>
  A test takes no more than ten seconds, and is run neither at the epoch nor within a few hours of the end
  of the clock's range.
\<close>

definition tick :: "clock \<Rightarrow> nat \<Rightarrow> milliseconds" where
  "tick clk n = projr (reading (sdrop n clk))"

definition test_clock :: "clock \<Rightarrow> bool" where
  "test_clock clk \<longleftrightarrow>
     steady clk \<and>
     (\<forall>n. unat (millis_get (tick clk n)) \<le> unat (millis_get (tick clk 0)) + 10000) \<and>
     0 < unat (millis_get (tick clk 0)) \<and> unat (millis_get (tick clk 0)) + 10000000 < 2 ^ 64"

lemma steady_sdrop: "steady clk \<Longrightarrow> steady (sdrop n clk)"
  by (induction n arbitrary: clk) (simp_all add: steadyD(1))

lemma steady_tick: "steady clk \<Longrightarrow> reading (sdrop n clk) = Inr (tick clk n)"
  using steadyD(2) [OF steady_sdrop, of clk n] by (auto simp: tick_def)

lemma test_clock_now: "test_clock clk \<Longrightarrow> now (sdrop n clk) = (Inr (tick clk n), sdrop (Suc n) clk)"
  by (simp add: now_eq steady_tick test_clock_def flip: sdrop_stl)

lemma test_clock_order: "test_clock clk \<Longrightarrow> m \<le> n \<Longrightarrow> tick clk m \<le> tick clk n"
proof (rule lift_Suc_mono_le [of "tick clk"])
  assume "test_clock clk"
  then have "steady clk" by (simp add: test_clock_def)
  then show "tick clk n \<le> tick clk (Suc n)" for n
    using steadyD(3) [OF steady_sdrop, of clk n "tick clk n" "tick clk (Suc n)"] steady_tick [of clk "Suc n"]
    by (simp add: steady_tick flip: sdrop_stl)
qed

lemma test_clock_past: "test_clock clk \<Longrightarrow> w \<le> 1 \<Longrightarrow> Milliseconds w \<le> tick clk n"
  using test_clock_order [of clk 0 n]
  by (auto simp: test_clock_def millis_le_nat word_le_nat_alt)

lemma unat_in_secs:
  assumes "test_clock clk" "unat w \<le> 7200"
  shows "unat (millis_get (ms_saturating_add (tick clk n) (millis_from_seconds (Seconds w)))) =
    unat (millis_get (tick clk n)) + 1000 * unat w"
proof -
  have "unat (millis_get (tick clk n)) \<le> unat (millis_get (tick clk 0)) + 10000"
      "unat (millis_get (tick clk 0)) + 10000000 < 2 ^ 64"
    using assms(1) by (simp_all add: test_clock_def)
  with assms(2) show ?thesis by (simp add: unat_ms_saturating_add unat_millis_from_seconds)
qed

lemma test_clock_ahead:
  assumes "test_clock clk" "11 \<le> unat w" "unat w \<le> 7200"
  shows "\<not> ms_saturating_add (tick clk m) (millis_from_seconds (Seconds w)) \<le> tick clk n"
proof -
  have "unat (millis_get (tick clk n)) \<le> unat (millis_get (tick clk 0)) + 10000"
    using assms(1) by (simp add: test_clock_def)
  moreover have "unat (millis_get (tick clk 0)) \<le> unat (millis_get (tick clk m))"
    using test_clock_order [OF assms(1), of 0 m] by (simp add: millis_le_nat)
  ultimately show ?thesis using unat_in_secs [OF assms(1, 3), of m] assms(2) by (simp add: millis_le_nat)
qed

lemma test_clock_readings:
  assumes "test_clock clk"
  shows "now clk = (Inr (tick clk 0), stl clk)" "now (stl clk) = (Inr (tick clk 1), stl (stl clk))"
    "now (stl (stl clk)) = (Inr (tick clk 2), stl (stl (stl clk)))"
    "now (stl (stl (stl clk))) = (Inr (tick clk 3), stl (stl (stl (stl clk))))"
  using test_clock_now [OF assms, of 0] test_clock_now [OF assms, of 1] test_clock_now [OF assms, of 2]
    test_clock_now [OF assms, of 3]
  by (simp_all add: numeral_eq_Suc)

text \<open>The clock that stands still just after the epoch is one such clock.\<close>

lemma steady_clock_at [simp]: "steady (clock_at t)"
  by (simp add: steady_def clock_at_def)

lemma test_clock_still [simp]: "test_clock (clock_at (Milliseconds 1))"
proof -
  have "sdrop n (clock_at (Milliseconds 1)) = clock_at (Milliseconds 1)" for n by (induction n) simp_all
  then show ?thesis by (simp add: test_clock_def tick_def)
qed

end
