(* ===== verification/Tests_Command.thy ===== *)
theory Tests_Command
  imports Resp_Command Test_Clock
begin

text \<open>
  The unit tests of \<^verbatim>\<open>resp/command.rs\<close>, each as a predicate on the clock the test runs under, and the
  proof that the model passes all of them at every time.  A test that calls \<^verbatim>\<open>unwrap\<close> on an error fails.
\<close>

section \<open>Vocabulary\<close>

abbreviation words :: "bytes list \<Rightarrow> frame" where
  "words ws \<equiv> Array (map BulkString ws)"

abbreviation lift :: "frame \<Rightarrow> clock \<Rightarrow> command lift_result" where
  "lift f clk \<equiv> fst (command_try_from f clk)"

fun is_parse_int :: "'a lift_result \<Rightarrow> bool" where
  "is_parse_int (Inl (CommandError (ParseInt _))) \<longleftrightarrow> True"
| "is_parse_int _ \<longleftrightarrow> False"

fun is_utf8 :: "'a lift_result \<Rightarrow> bool" where
  "is_utf8 (Inl (CommandError (Utf8 _))) \<longleftrightarrow> True"
| "is_utf8 _ \<longleftrightarrow> False"

section \<open>The tests\<close>

definition try_from_frame_ok_get :: "clock \<Rightarrow> bool" where
  "try_from_frame_ok_get clk \<longleftrightarrow>
     lift (words [''get'', ''foo'']) clk = Inr (command_get ''foo'') \<and>
     lift (words [''GET'', ''foo'']) clk = Inr (command_get ''foo'')"

definition try_from_frame_ok_set :: "clock \<Rightarrow> bool" where
  "try_from_frame_ok_set clk \<longleftrightarrow>
     list_all (\<lambda>verb. lift (words [verb, ''foo'', ''value'']) clk = Inr (command_set ''foo'' ''value'' None))
       [''set'', ''SET'']"

definition try_from_frame_ok_set_absolute_options :: "clock \<Rightarrow> bool" where
  "try_from_frame_ok_set_absolute_options clk \<longleftrightarrow>
     list_all (\<lambda>(opt, amount, expected). lift (words [''set'', ''foo'', ''value'', opt, amount]) clk =
         Inr (command_set ''foo'' ''value'' (Some (Milliseconds expected))))
       [(''exat'', ''1700000000'', 1700000000000), (''EXAT'', ''1700000000'', 1700000000000),
        (''pxat'', ''1700000000123'', 1700000000123), (''PXAT'', ''1700000000123'', 1700000000123)]"

fun set_relative_loop :: "(bytes \<times> bytes \<times> milliseconds) list \<Rightarrow> clock \<Rightarrow> bool" where
  "set_relative_loop [] clk \<longleftrightarrow> True"
| "set_relative_loop ((opt, amount, offset) # cases) clk \<longleftrightarrow>
    (case now clk of
       (Inl _, clk) \<Rightarrow> False
     | (Inr before, clk) \<Rightarrow>
         (case command_try_from (words [''set'', ''foo'', ''value'', opt, amount]) clk of
            (Inr (Cache (Write (Set _ _ (Some expires_at)))), clk) \<Rightarrow>
              (case now clk of
                 (Inl _, clk) \<Rightarrow> False
               | (Inr after, clk) \<Rightarrow>
                   ms_saturating_add before offset \<le> expires_at \<and>
                   expires_at \<le> ms_saturating_add after offset \<and> set_relative_loop cases clk)
          | _ \<Rightarrow> False))"

definition try_from_frame_ok_set_relative_options :: "clock \<Rightarrow> bool" where
  "try_from_frame_ok_set_relative_options clk \<longleftrightarrow> set_relative_loop
     [(''ex'', ''60'', Milliseconds 60000), (''EX'', ''60'', Milliseconds 60000),
      (''px'', ''1500'', Milliseconds 1500), (''PX'', ''1500'', Milliseconds 1500)] clk"

definition try_from_frame_err_set_option_without_amount :: "clock \<Rightarrow> bool" where
  "try_from_frame_err_set_option_without_amount clk \<longleftrightarrow>
     lift (words [''set'', ''foo'', ''value'', ''ex'']) clk = Inl (CommandError NotEnoughParts)"

definition try_from_frame_err_set_non_numeric_amount :: "clock \<Rightarrow> bool" where
  "try_from_frame_err_set_non_numeric_amount clk \<longleftrightarrow>
     is_parse_int (lift (words [''set'', ''foo'', ''value'', ''ex'', ''soon'']) clk)"

definition try_from_frame_err_set_too_many_parts_after_option :: "clock \<Rightarrow> bool" where
  "try_from_frame_err_set_too_many_parts_after_option clk \<longleftrightarrow>
     lift (words [''set'', ''foo'', ''value'', ''ex'', ''60'', ''extra'']) clk =
       Inl (CommandError TooManyParts)"

definition try_from_frame_ok_pexpireat_is_taken_verbatim :: "clock \<Rightarrow> bool" where
  "try_from_frame_ok_pexpireat_is_taken_verbatim clk \<longleftrightarrow>
     list_all (\<lambda>verb. lift (words [verb, ''foo'', ''1700000000123'']) clk =
         Inr (command_expire_at ''foo'' (Milliseconds 1700000000123)))
       [''pexpireat'', ''PEXPIREAT'']"

definition try_from_frame_err_pexpireat_too_many_parts :: "clock \<Rightarrow> bool" where
  "try_from_frame_err_pexpireat_too_many_parts clk \<longleftrightarrow>
     lift (words [''pexpireat'', ''foo'', ''1700000000123'', ''extra'']) clk =
       Inl (CommandError TooManyParts)"

definition try_from_frame_err_expireat_too_many_parts :: "clock \<Rightarrow> bool" where
  "try_from_frame_err_expireat_too_many_parts clk \<longleftrightarrow>
     lift (words [''expireat'', ''foo'', ''1700000000'', ''extra'']) clk =
       Inl (CommandError TooManyParts)"

definition try_from_frame_ok_del :: "clock \<Rightarrow> bool" where
  "try_from_frame_ok_del clk \<longleftrightarrow>
     lift (words [''del'', ''foo'']) clk = Inr (command_delete ''foo'') \<and>
     lift (words [''DEL'', ''foo'']) clk = Inr (command_delete ''foo'')"

definition try_from_frame_ok_ping_without_message :: "clock \<Rightarrow> bool" where
  "try_from_frame_ok_ping_without_message clk \<longleftrightarrow>
     lift (words [''ping'']) clk = Inr (command_ping None) \<and>
     lift (words [''PING'']) clk = Inr (command_ping None)"

definition try_from_frame_ok_ping_with_message :: "clock \<Rightarrow> bool" where
  "try_from_frame_ok_ping_with_message clk \<longleftrightarrow>
     lift (words [''ping'', ''hello'']) clk = Inr (command_ping (Some ''hello''))"

definition try_from_frame_ok_exists :: "clock \<Rightarrow> bool" where
  "try_from_frame_ok_exists clk \<longleftrightarrow>
     lift (words [''exists'', ''foo'']) clk = Inr (command_exists ''foo'') \<and>
     lift (words [''EXISTS'', ''foo'']) clk = Inr (command_exists ''foo'')"

definition try_from_frame_ok_expireat :: "clock \<Rightarrow> bool" where
  "try_from_frame_ok_expireat clk \<longleftrightarrow>
     lift (words [''expireat'', ''foo'', ''1700000000'']) clk =
       Inr (command_expire_at ''foo'' (millis_from_seconds (Seconds 1700000000))) \<and>
     lift (words [''EXPIREAT'', ''foo'', ''1700000000'']) clk =
       Inr (command_expire_at ''foo'' (millis_from_seconds (Seconds 1700000000)))"

definition assert_deadline_about ::
    "command \<Rightarrow> bytes \<Rightarrow> milliseconds \<Rightarrow> milliseconds \<Rightarrow> milliseconds \<Rightarrow> bool" where
  "assert_deadline_about cmd expected_key before after offset =
    (case cmd of
       Cache (Write (ExpireAt key expires_at)) \<Rightarrow>
         key = expected_key \<and> ms_saturating_add before offset \<le> expires_at \<and>
         expires_at \<le> ms_saturating_add after offset
     | _ \<Rightarrow> False)"

fun expire_loop :: "bytes list \<Rightarrow> clock \<Rightarrow> bool" where
  "expire_loop [] clk \<longleftrightarrow> True"
| "expire_loop (verb # verbs) clk \<longleftrightarrow>
    (case now clk of
       (Inl _, clk) \<Rightarrow> False
     | (Inr before, clk) \<Rightarrow>
         (case command_try_from (words [verb, ''foo'', ''60'']) clk of
            (Inl _, clk) \<Rightarrow> False
          | (Inr cmd, clk) \<Rightarrow>
              (case now clk of
                 (Inl _, clk) \<Rightarrow> False
               | (Inr after, clk) \<Rightarrow>
                   assert_deadline_about cmd ''foo'' before after (millis_from_seconds (Seconds 60)) \<and>
                   expire_loop verbs clk)))"

definition try_from_frame_ok_expire_normalizes_to_absolute :: "clock \<Rightarrow> bool" where
  "try_from_frame_ok_expire_normalizes_to_absolute clk \<longleftrightarrow> expire_loop [''expire'', ''EXPIRE''] clk"

definition try_from_frame_ok_ttl :: "clock \<Rightarrow> bool" where
  "try_from_frame_ok_ttl clk \<longleftrightarrow>
     lift (words [''ttl'', ''foo'']) clk = Inr (command_ttl ''foo'') \<and>
     lift (words [''TTL'', ''foo'']) clk = Inr (command_ttl ''foo'')"

definition try_from_frame_ok_persist :: "clock \<Rightarrow> bool" where
  "try_from_frame_ok_persist clk \<longleftrightarrow>
     lift (words [''persist'', ''foo'']) clk = Inr (command_persist ''foo'') \<and>
     lift (words [''PERSIST'', ''foo'']) clk = Inr (command_persist ''foo'')"

definition try_from_frame_err_empty_array :: "clock \<Rightarrow> bool" where
  "try_from_frame_err_empty_array clk \<longleftrightarrow>
     lift (Array []) clk = Inl (CommandError NotEnoughParts)"

definition try_from_frame_err_command_value_is_array :: "clock \<Rightarrow> bool" where
  "try_from_frame_err_command_value_is_array clk \<longleftrightarrow>
     lift (Array [words [''get'']]) clk = Inl UnexpectedFrame"

definition try_from_frame_err_unrecognized_command :: "clock \<Rightarrow> bool" where
  "try_from_frame_err_unrecognized_command clk \<longleftrightarrow>
     lift (words [''foo'']) clk = Inl (CommandError UnrecognizedCommand)"

definition try_from_frame_err_unexpected_value :: "clock \<Rightarrow> bool" where
  "try_from_frame_err_unexpected_value clk \<longleftrightarrow>
     lift (Array [BulkString ''get'', words [''foo'']]) clk = Inl UnexpectedFrame \<and>
     lift (BulkString ''get'') clk = Inl UnexpectedFrame"

definition try_from_frame_err_get_too_many_parts :: "clock \<Rightarrow> bool" where
  "try_from_frame_err_get_too_many_parts clk \<longleftrightarrow>
     lift (words [''get'', ''foo'', ''foo'']) clk = Inl (CommandError TooManyParts)"

definition try_from_frame_err_get_not_enough_parts :: "clock \<Rightarrow> bool" where
  "try_from_frame_err_get_not_enough_parts clk \<longleftrightarrow>
     lift (words [''get'']) clk = Inl (CommandError NotEnoughParts)"

definition try_from_frame_err_get_unexpected_frame_key :: "clock \<Rightarrow> bool" where
  "try_from_frame_err_get_unexpected_frame_key clk \<longleftrightarrow>
     lift (Array [BulkString ''get'', Array []]) clk = Inl UnexpectedFrame"

definition try_from_frame_err_set_unknown_option :: "clock \<Rightarrow> bool" where
  "try_from_frame_err_set_unknown_option clk \<longleftrightarrow>
     lift (words [''set'', ''foo'', ''value'', ''value'']) clk = Inl (CommandError Syntax)"

definition try_from_frame_err_set_not_enough_parts :: "clock \<Rightarrow> bool" where
  "try_from_frame_err_set_not_enough_parts clk \<longleftrightarrow>
     lift (words [''set'']) clk = Inl (CommandError NotEnoughParts) \<and>
     lift (words [''set'', ''foo'']) clk = Inl (CommandError NotEnoughParts)"

definition try_from_frame_err_set_unexpected_frame_key :: "clock \<Rightarrow> bool" where
  "try_from_frame_err_set_unexpected_frame_key clk \<longleftrightarrow>
     lift (Array [BulkString ''set'', Array [], BulkString ''value'']) clk = Inl UnexpectedFrame"

definition try_from_frame_err_set_unexpected_frame_value :: "clock \<Rightarrow> bool" where
  "try_from_frame_err_set_unexpected_frame_value clk \<longleftrightarrow>
     lift (Array [BulkString ''set'', BulkString ''foo'', Array []]) clk = Inl UnexpectedFrame"

definition try_from_frame_err_del_too_many_parts :: "clock \<Rightarrow> bool" where
  "try_from_frame_err_del_too_many_parts clk \<longleftrightarrow>
     lift (words [''del'', ''foo'', ''foo'']) clk = Inl (CommandError TooManyParts)"

definition try_from_frame_err_del_not_enough_parts :: "clock \<Rightarrow> bool" where
  "try_from_frame_err_del_not_enough_parts clk \<longleftrightarrow>
     lift (words [''del'']) clk = Inl (CommandError NotEnoughParts)"

definition try_from_frame_err_del_unexpected_frame_key :: "clock \<Rightarrow> bool" where
  "try_from_frame_err_del_unexpected_frame_key clk \<longleftrightarrow>
     lift (Array [BulkString ''del'', Array []]) clk = Inl UnexpectedFrame"

definition try_from_frame_err_exists_too_many_parts :: "clock \<Rightarrow> bool" where
  "try_from_frame_err_exists_too_many_parts clk \<longleftrightarrow>
     lift (words [''exists'', ''foo'', ''foo'']) clk = Inl (CommandError TooManyParts)"

definition try_from_frame_err_exists_not_enough_parts :: "clock \<Rightarrow> bool" where
  "try_from_frame_err_exists_not_enough_parts clk \<longleftrightarrow>
     lift (words [''exists'']) clk = Inl (CommandError NotEnoughParts)"

definition try_from_frame_err_exists_unexpected_frame_key :: "clock \<Rightarrow> bool" where
  "try_from_frame_err_exists_unexpected_frame_key clk \<longleftrightarrow>
     lift (Array [BulkString ''exists'', Array []]) clk = Inl UnexpectedFrame"

definition try_from_frame_err_ping_too_many_parts :: "clock \<Rightarrow> bool" where
  "try_from_frame_err_ping_too_many_parts clk \<longleftrightarrow>
     lift (words [''ping'', ''hello'', ''world'']) clk = Inl (CommandError TooManyParts)"

definition try_from_frame_err_ping_unexpected_frame_message :: "clock \<Rightarrow> bool" where
  "try_from_frame_err_ping_unexpected_frame_message clk \<longleftrightarrow>
     lift (Array [BulkString ''ping'', Array []]) clk = Inl UnexpectedFrame"

definition try_from_frame_err_expire_not_enough_parts_zero_args :: "clock \<Rightarrow> bool" where
  "try_from_frame_err_expire_not_enough_parts_zero_args clk \<longleftrightarrow>
     lift (words [''expire'']) clk = Inl (CommandError NotEnoughParts)"

definition try_from_frame_err_expire_not_enough_parts_one_arg :: "clock \<Rightarrow> bool" where
  "try_from_frame_err_expire_not_enough_parts_one_arg clk \<longleftrightarrow>
     lift (words [''expire'', ''foo'']) clk = Inl (CommandError NotEnoughParts)"

definition try_from_frame_err_expire_unexpected_frame_key :: "clock \<Rightarrow> bool" where
  "try_from_frame_err_expire_unexpected_frame_key clk \<longleftrightarrow>
     lift (Array [BulkString ''expire'', Array [], BulkString ''123'']) clk = Inl UnexpectedFrame"

definition try_from_frame_err_expire_unexpected_frame_ttl :: "clock \<Rightarrow> bool" where
  "try_from_frame_err_expire_unexpected_frame_ttl clk \<longleftrightarrow>
     lift (Array [BulkString ''expire'', BulkString ''foo'', Array []]) clk = Inl UnexpectedFrame"

definition try_from_frame_err_expire_ttl_invalid_utf8 :: "clock \<Rightarrow> bool" where
  "try_from_frame_err_expire_ttl_invalid_utf8 clk \<longleftrightarrow>
     is_utf8 (lift (words [''expire'', ''foo'', [CHR 0xFF, CHR 0xFE]]) clk)"

definition try_from_frame_err_expire_ttl_not_a_number :: "clock \<Rightarrow> bool" where
  "try_from_frame_err_expire_ttl_not_a_number clk \<longleftrightarrow>
     is_parse_int (lift (words [''expire'', ''foo'', ''abc'']) clk)"

definition try_from_frame_err_expire_too_many_parts :: "clock \<Rightarrow> bool" where
  "try_from_frame_err_expire_too_many_parts clk \<longleftrightarrow>
     lift (words [''expire'', ''foo'', ''60'', ''extra'']) clk = Inl (CommandError TooManyParts)"

definition try_from_frame_err_expire_ttl_negative :: "clock \<Rightarrow> bool" where
  "try_from_frame_err_expire_ttl_negative clk \<longleftrightarrow>
     is_parse_int (lift (words [''expire'', ''foo'', ''-1'']) clk)"

definition try_from_frame_err_expireat_not_enough_parts_zero_args :: "clock \<Rightarrow> bool" where
  "try_from_frame_err_expireat_not_enough_parts_zero_args clk \<longleftrightarrow>
     lift (words [''expireat'']) clk = Inl (CommandError NotEnoughParts)"

definition try_from_frame_err_expireat_not_enough_parts_one_arg :: "clock \<Rightarrow> bool" where
  "try_from_frame_err_expireat_not_enough_parts_one_arg clk \<longleftrightarrow>
     lift (words [''expireat'', ''foo'']) clk = Inl (CommandError NotEnoughParts)"

definition try_from_frame_err_expireat_unexpected_frame_key :: "clock \<Rightarrow> bool" where
  "try_from_frame_err_expireat_unexpected_frame_key clk \<longleftrightarrow>
     lift (Array [BulkString ''expireat'', Array [], BulkString ''1700000000'']) clk =
       Inl UnexpectedFrame"

definition try_from_frame_err_expireat_unexpected_frame_ttl :: "clock \<Rightarrow> bool" where
  "try_from_frame_err_expireat_unexpected_frame_ttl clk \<longleftrightarrow>
     lift (Array [BulkString ''expireat'', BulkString ''foo'', Array []]) clk = Inl UnexpectedFrame"

definition try_from_frame_err_expireat_ttl_invalid_utf8 :: "clock \<Rightarrow> bool" where
  "try_from_frame_err_expireat_ttl_invalid_utf8 clk \<longleftrightarrow>
     is_utf8 (lift (words [''expireat'', ''foo'', [CHR 0xFF, CHR 0xFE]]) clk)"

definition try_from_frame_err_expireat_ttl_not_a_number :: "clock \<Rightarrow> bool" where
  "try_from_frame_err_expireat_ttl_not_a_number clk \<longleftrightarrow>
     is_parse_int (lift (words [''expireat'', ''foo'', ''abc'']) clk)"

definition try_from_frame_err_expireat_ttl_negative :: "clock \<Rightarrow> bool" where
  "try_from_frame_err_expireat_ttl_negative clk \<longleftrightarrow>
     is_parse_int (lift (words [''expireat'', ''foo'', ''-1'']) clk)"

definition try_from_frame_err_ttl_too_many_parts :: "clock \<Rightarrow> bool" where
  "try_from_frame_err_ttl_too_many_parts clk \<longleftrightarrow>
     lift (words [''ttl'', ''foo'', ''bar'']) clk = Inl (CommandError TooManyParts)"

definition try_from_frame_err_ttl_not_enough_parts :: "clock \<Rightarrow> bool" where
  "try_from_frame_err_ttl_not_enough_parts clk \<longleftrightarrow>
     lift (words [''ttl'']) clk = Inl (CommandError NotEnoughParts)"

definition try_from_frame_err_ttl_unexpected_frame_key :: "clock \<Rightarrow> bool" where
  "try_from_frame_err_ttl_unexpected_frame_key clk \<longleftrightarrow>
     lift (Array [BulkString ''ttl'', Array []]) clk = Inl UnexpectedFrame"

definition try_from_frame_err_persist_too_many_parts :: "clock \<Rightarrow> bool" where
  "try_from_frame_err_persist_too_many_parts clk \<longleftrightarrow>
     lift (words [''persist'', ''foo'', ''bar'']) clk = Inl (CommandError TooManyParts)"

definition try_from_frame_err_persist_not_enough_parts :: "clock \<Rightarrow> bool" where
  "try_from_frame_err_persist_not_enough_parts clk \<longleftrightarrow>
     lift (words [''persist'']) clk = Inl (CommandError NotEnoughParts)"

definition try_from_frame_err_persist_unexpected_frame_key :: "clock \<Rightarrow> bool" where
  "try_from_frame_err_persist_unexpected_frame_key clk \<longleftrightarrow>
     lift (Array [BulkString ''persist'', Array []]) clk = Inl UnexpectedFrame"

definition try_from_frame_ok_subscribe_single :: "clock \<Rightarrow> bool" where
  "try_from_frame_ok_subscribe_single clk \<longleftrightarrow>
     lift (words [''subscribe'', ''foo'']) clk = Inr (command_subscribe [''foo''])"

definition try_from_frame_ok_subscribe_multiple :: "clock \<Rightarrow> bool" where
  "try_from_frame_ok_subscribe_multiple clk \<longleftrightarrow>
     lift (words [''SUBSCRIBE'', ''foo'', ''bar'']) clk = Inr (command_subscribe [''foo'', ''bar''])"

definition try_from_frame_err_subscribe_no_channels :: "clock \<Rightarrow> bool" where
  "try_from_frame_err_subscribe_no_channels clk \<longleftrightarrow>
     lift (words [''subscribe'']) clk = Inl (CommandError NotEnoughParts)"

definition try_from_frame_err_subscribe_non_bulk_channel :: "clock \<Rightarrow> bool" where
  "try_from_frame_err_subscribe_non_bulk_channel clk \<longleftrightarrow>
     lift (Array [BulkString ''subscribe'', Array []]) clk = Inl UnexpectedFrame"

definition try_from_frame_ok_unsubscribe_single :: "clock \<Rightarrow> bool" where
  "try_from_frame_ok_unsubscribe_single clk \<longleftrightarrow>
     lift (words [''unsubscribe'', ''foo'']) clk = Inr (command_unsubscribe [''foo''])"

definition try_from_frame_ok_unsubscribe_no_channels :: "clock \<Rightarrow> bool" where
  "try_from_frame_ok_unsubscribe_no_channels clk \<longleftrightarrow>
     lift (words [''unsubscribe'']) clk = Inr (command_unsubscribe [])"

definition try_from_frame_err_unsubscribe_non_bulk_channel :: "clock \<Rightarrow> bool" where
  "try_from_frame_err_unsubscribe_non_bulk_channel clk \<longleftrightarrow>
     lift (Array [BulkString ''unsubscribe'', Array []]) clk = Inl UnexpectedFrame"

definition try_from_frame_ok_publish :: "clock \<Rightarrow> bool" where
  "try_from_frame_ok_publish clk \<longleftrightarrow>
     lift (words [''publish'', ''foo'', ''bar'']) clk = Inr (command_publish ''foo'' ''bar'')"

definition try_from_frame_err_publish_not_enough_parts :: "clock \<Rightarrow> bool" where
  "try_from_frame_err_publish_not_enough_parts clk \<longleftrightarrow>
     lift (words [''publish'', ''foo'']) clk = Inl (CommandError NotEnoughParts)"

definition try_from_frame_err_publish_too_many_parts :: "clock \<Rightarrow> bool" where
  "try_from_frame_err_publish_too_many_parts clk \<longleftrightarrow>
     lift (words [''publish'', ''foo'', ''bar'', ''baz'']) clk = Inl (CommandError TooManyParts)"

definition try_from_frame_err_publish_non_bulk_arg :: "clock \<Rightarrow> bool" where
  "try_from_frame_err_publish_non_bulk_arg clk \<longleftrightarrow>
     lift (Array [BulkString ''publish'', Array [], BulkString ''bar'']) clk = Inl UnexpectedFrame"

lemmas command_test_defs =
  try_from_frame_ok_get_def
  try_from_frame_ok_set_def
  try_from_frame_ok_set_absolute_options_def
  try_from_frame_ok_set_relative_options_def
  try_from_frame_err_set_option_without_amount_def
  try_from_frame_err_set_non_numeric_amount_def
  try_from_frame_err_set_too_many_parts_after_option_def
  try_from_frame_ok_pexpireat_is_taken_verbatim_def
  try_from_frame_err_pexpireat_too_many_parts_def
  try_from_frame_err_expireat_too_many_parts_def
  try_from_frame_ok_del_def
  try_from_frame_ok_ping_without_message_def
  try_from_frame_ok_ping_with_message_def
  try_from_frame_ok_exists_def
  try_from_frame_ok_expireat_def
  try_from_frame_ok_expire_normalizes_to_absolute_def
  try_from_frame_ok_ttl_def
  try_from_frame_ok_persist_def
  try_from_frame_err_empty_array_def
  try_from_frame_err_command_value_is_array_def
  try_from_frame_err_unrecognized_command_def
  try_from_frame_err_unexpected_value_def
  try_from_frame_err_get_too_many_parts_def
  try_from_frame_err_get_not_enough_parts_def
  try_from_frame_err_get_unexpected_frame_key_def
  try_from_frame_err_set_unknown_option_def
  try_from_frame_err_set_not_enough_parts_def
  try_from_frame_err_set_unexpected_frame_key_def
  try_from_frame_err_set_unexpected_frame_value_def
  try_from_frame_err_del_too_many_parts_def
  try_from_frame_err_del_not_enough_parts_def
  try_from_frame_err_del_unexpected_frame_key_def
  try_from_frame_err_exists_too_many_parts_def
  try_from_frame_err_exists_not_enough_parts_def
  try_from_frame_err_exists_unexpected_frame_key_def
  try_from_frame_err_ping_too_many_parts_def
  try_from_frame_err_ping_unexpected_frame_message_def
  try_from_frame_err_expire_not_enough_parts_zero_args_def
  try_from_frame_err_expire_not_enough_parts_one_arg_def
  try_from_frame_err_expire_unexpected_frame_key_def
  try_from_frame_err_expire_unexpected_frame_ttl_def
  try_from_frame_err_expire_ttl_invalid_utf8_def
  try_from_frame_err_expire_ttl_not_a_number_def
  try_from_frame_err_expire_too_many_parts_def
  try_from_frame_err_expire_ttl_negative_def
  try_from_frame_err_expireat_not_enough_parts_zero_args_def
  try_from_frame_err_expireat_not_enough_parts_one_arg_def
  try_from_frame_err_expireat_unexpected_frame_key_def
  try_from_frame_err_expireat_unexpected_frame_ttl_def
  try_from_frame_err_expireat_ttl_invalid_utf8_def
  try_from_frame_err_expireat_ttl_not_a_number_def
  try_from_frame_err_expireat_ttl_negative_def
  try_from_frame_err_ttl_too_many_parts_def
  try_from_frame_err_ttl_not_enough_parts_def
  try_from_frame_err_ttl_unexpected_frame_key_def
  try_from_frame_err_persist_too_many_parts_def
  try_from_frame_err_persist_not_enough_parts_def
  try_from_frame_err_persist_unexpected_frame_key_def
  try_from_frame_ok_subscribe_single_def
  try_from_frame_ok_subscribe_multiple_def
  try_from_frame_err_subscribe_no_channels_def
  try_from_frame_err_subscribe_non_bulk_channel_def
  try_from_frame_ok_unsubscribe_single_def
  try_from_frame_ok_unsubscribe_no_channels_def
  try_from_frame_err_unsubscribe_non_bulk_channel_def
  try_from_frame_ok_publish_def
  try_from_frame_err_publish_not_enough_parts_def
  try_from_frame_err_publish_too_many_parts_def
  try_from_frame_err_publish_non_bulk_arg_def

definition command_tests :: "(clock \<Rightarrow> bool) list" where
  "command_tests =
    [try_from_frame_ok_get,
     try_from_frame_ok_set,
     try_from_frame_ok_set_absolute_options,
     try_from_frame_ok_set_relative_options,
     try_from_frame_err_set_option_without_amount,
     try_from_frame_err_set_non_numeric_amount,
     try_from_frame_err_set_too_many_parts_after_option,
     try_from_frame_ok_pexpireat_is_taken_verbatim,
     try_from_frame_err_pexpireat_too_many_parts,
     try_from_frame_err_expireat_too_many_parts,
     try_from_frame_ok_del,
     try_from_frame_ok_ping_without_message,
     try_from_frame_ok_ping_with_message,
     try_from_frame_ok_exists,
     try_from_frame_ok_expireat,
     try_from_frame_ok_expire_normalizes_to_absolute,
     try_from_frame_ok_ttl,
     try_from_frame_ok_persist,
     try_from_frame_err_empty_array,
     try_from_frame_err_command_value_is_array,
     try_from_frame_err_unrecognized_command,
     try_from_frame_err_unexpected_value,
     try_from_frame_err_get_too_many_parts,
     try_from_frame_err_get_not_enough_parts,
     try_from_frame_err_get_unexpected_frame_key,
     try_from_frame_err_set_unknown_option,
     try_from_frame_err_set_not_enough_parts,
     try_from_frame_err_set_unexpected_frame_key,
     try_from_frame_err_set_unexpected_frame_value,
     try_from_frame_err_del_too_many_parts,
     try_from_frame_err_del_not_enough_parts,
     try_from_frame_err_del_unexpected_frame_key,
     try_from_frame_err_exists_too_many_parts,
     try_from_frame_err_exists_not_enough_parts,
     try_from_frame_err_exists_unexpected_frame_key,
     try_from_frame_err_ping_too_many_parts,
     try_from_frame_err_ping_unexpected_frame_message,
     try_from_frame_err_expire_not_enough_parts_zero_args,
     try_from_frame_err_expire_not_enough_parts_one_arg,
     try_from_frame_err_expire_unexpected_frame_key,
     try_from_frame_err_expire_unexpected_frame_ttl,
     try_from_frame_err_expire_ttl_invalid_utf8,
     try_from_frame_err_expire_ttl_not_a_number,
     try_from_frame_err_expire_too_many_parts,
     try_from_frame_err_expire_ttl_negative,
     try_from_frame_err_expireat_not_enough_parts_zero_args,
     try_from_frame_err_expireat_not_enough_parts_one_arg,
     try_from_frame_err_expireat_unexpected_frame_key,
     try_from_frame_err_expireat_unexpected_frame_ttl,
     try_from_frame_err_expireat_ttl_invalid_utf8,
     try_from_frame_err_expireat_ttl_not_a_number,
     try_from_frame_err_expireat_ttl_negative,
     try_from_frame_err_ttl_too_many_parts,
     try_from_frame_err_ttl_not_enough_parts,
     try_from_frame_err_ttl_unexpected_frame_key,
     try_from_frame_err_persist_too_many_parts,
     try_from_frame_err_persist_not_enough_parts,
     try_from_frame_err_persist_unexpected_frame_key,
     try_from_frame_ok_subscribe_single,
     try_from_frame_ok_subscribe_multiple,
     try_from_frame_err_subscribe_no_channels,
     try_from_frame_err_subscribe_non_bulk_channel,
     try_from_frame_ok_unsubscribe_single,
     try_from_frame_ok_unsubscribe_no_channels,
     try_from_frame_err_unsubscribe_non_bulk_channel,
     try_from_frame_ok_publish,
     try_from_frame_err_publish_not_enough_parts,
     try_from_frame_err_publish_too_many_parts,
     try_from_frame_err_publish_non_bulk_arg]"

section \<open>Evaluation\<close>

lemmas number_eval = parse_u64_def from_utf8_def utf8_char_width_def parse_uint_def to_digit_def between_def

lemma u64_literals:
  "parse_u64 ''60'' = Inr 60" "parse_u64 ''1500'' = Inr 1500" "parse_u64 ''1700000000'' = Inr 1700000000"
  "parse_u64 ''1700000000123'' = Inr 1700000000123"
  by (simp_all add: number_eval)

lemma millis_literals:
  "millis_from_seconds (Seconds 1700000000) = Milliseconds 1700000000000"
  "millis_from_seconds (Seconds 60) = Milliseconds 60000"
  by (simp_all add: millis_from_seconds_def saturating_mul_def)

lemma u64_rejects:
  "parse_u64 ''soon'' = Inl (CommandError (ParseInt InvalidDigit))"
  "parse_u64 ''abc'' = Inl (CommandError (ParseInt InvalidDigit))"
  "parse_u64 ''-1'' = Inl (CommandError (ParseInt InvalidDigit))"
  "parse_u64 [CHR 0xFF, CHR 0xFE] = Inl (CommandError (Utf8 (Utf8Error 0 (Some 1))))"
  by (simp_all add: number_eval)

lemma lower_words:
  "to_ascii_lowercase ''get'' = ''get''"
  "to_ascii_lowercase ''set'' = ''set''"
  "to_ascii_lowercase ''del'' = ''del''"
  "to_ascii_lowercase ''ping'' = ''ping''"
  "to_ascii_lowercase ''exists'' = ''exists''"
  "to_ascii_lowercase ''expire'' = ''expire''"
  "to_ascii_lowercase ''expireat'' = ''expireat''"
  "to_ascii_lowercase ''pexpireat'' = ''pexpireat''"
  "to_ascii_lowercase ''ttl'' = ''ttl''"
  "to_ascii_lowercase ''persist'' = ''persist''"
  "to_ascii_lowercase ''subscribe'' = ''subscribe''"
  "to_ascii_lowercase ''unsubscribe'' = ''unsubscribe''"
  "to_ascii_lowercase ''publish'' = ''publish''"
  "to_ascii_lowercase ''foo'' = ''foo''"
  "to_ascii_lowercase ''ex'' = ''ex''"
  "to_ascii_lowercase ''px'' = ''px''"
  "to_ascii_lowercase ''exat'' = ''exat''"
  "to_ascii_lowercase ''pxat'' = ''pxat''"
  "to_ascii_lowercase ''value'' = ''value''"
  "to_ascii_lowercase ''GET'' = ''get''"
  "to_ascii_lowercase ''SET'' = ''set''"
  "to_ascii_lowercase ''DEL'' = ''del''"
  "to_ascii_lowercase ''PING'' = ''ping''"
  "to_ascii_lowercase ''EXISTS'' = ''exists''"
  "to_ascii_lowercase ''EXPIRE'' = ''expire''"
  "to_ascii_lowercase ''EXPIREAT'' = ''expireat''"
  "to_ascii_lowercase ''PEXPIREAT'' = ''pexpireat''"
  "to_ascii_lowercase ''TTL'' = ''ttl''"
  "to_ascii_lowercase ''PERSIST'' = ''persist''"
  "to_ascii_lowercase ''SUBSCRIBE'' = ''subscribe''"
  "to_ascii_lowercase ''EX'' = ''ex''"
  "to_ascii_lowercase ''PX'' = ''px''"
  "to_ascii_lowercase ''EXAT'' = ''exat''"
  "to_ascii_lowercase ''PXAT'' = ''pxat''"
  by (simp_all add: lower_eval)

text \<open>Verbs compared as the code compares them, and the arms they lead to.\<close>

lemmas lift_eval =
  command_try_from_def dispatch_verb_def one_key_def next_bulk_def no_more_def parse_set_def parse_set_option_def
  set_deadline_def parse_ping_def key_and_amount_def parse_expire_def parse_expireat_def parse_pexpireat_def
  parse_subscribe_def parse_unsubscribe_def parse_publish_def lower_words u64_literals u64_rejects

lemma get_verb_tests:
  "try_from_frame_ok_get clk"
  "try_from_frame_err_get_too_many_parts clk"
  "try_from_frame_err_get_not_enough_parts clk"
  "try_from_frame_err_get_unexpected_frame_key clk"
  by (simp_all add: command_test_defs lift_eval)

lemma set_verb_tests:
  "try_from_frame_ok_set clk"
  "try_from_frame_ok_set_absolute_options clk"
  "try_from_frame_err_set_option_without_amount clk"
  "try_from_frame_err_set_non_numeric_amount clk"
  "try_from_frame_err_set_unknown_option clk"
  "try_from_frame_err_set_not_enough_parts clk"
  "try_from_frame_err_set_unexpected_frame_key clk"
  "try_from_frame_err_set_unexpected_frame_value clk"
  by (simp_all add: command_test_defs lift_eval millis_literals)

lemma pexpireat_verb_tests:
  "try_from_frame_ok_pexpireat_is_taken_verbatim clk"
  "try_from_frame_err_pexpireat_too_many_parts clk"
  by (simp_all add: command_test_defs lift_eval)

lemma expireat_verb_tests:
  "try_from_frame_err_expireat_too_many_parts clk"
  "try_from_frame_ok_expireat clk"
  "try_from_frame_err_expireat_not_enough_parts_zero_args clk"
  "try_from_frame_err_expireat_not_enough_parts_one_arg clk"
  "try_from_frame_err_expireat_unexpected_frame_key clk"
  "try_from_frame_err_expireat_unexpected_frame_ttl clk"
  "try_from_frame_err_expireat_ttl_invalid_utf8 clk"
  "try_from_frame_err_expireat_ttl_not_a_number clk"
  "try_from_frame_err_expireat_ttl_negative clk"
  by (simp_all add: command_test_defs lift_eval)

lemma del_verb_tests:
  "try_from_frame_ok_del clk"
  "try_from_frame_err_del_too_many_parts clk"
  "try_from_frame_err_del_not_enough_parts clk"
  "try_from_frame_err_del_unexpected_frame_key clk"
  by (simp_all add: command_test_defs lift_eval)

lemma ping_verb_tests:
  "try_from_frame_ok_ping_without_message clk"
  "try_from_frame_ok_ping_with_message clk"
  "try_from_frame_err_ping_too_many_parts clk"
  "try_from_frame_err_ping_unexpected_frame_message clk"
  by (simp_all add: command_test_defs lift_eval)

lemma exists_verb_tests:
  "try_from_frame_ok_exists clk"
  "try_from_frame_err_exists_too_many_parts clk"
  "try_from_frame_err_exists_not_enough_parts clk"
  "try_from_frame_err_exists_unexpected_frame_key clk"
  by (simp_all add: command_test_defs lift_eval)

lemma ttl_verb_tests:
  "try_from_frame_ok_ttl clk"
  "try_from_frame_err_ttl_too_many_parts clk"
  "try_from_frame_err_ttl_not_enough_parts clk"
  "try_from_frame_err_ttl_unexpected_frame_key clk"
  by (simp_all add: command_test_defs lift_eval)

lemma persist_verb_tests:
  "try_from_frame_ok_persist clk"
  "try_from_frame_err_persist_too_many_parts clk"
  "try_from_frame_err_persist_not_enough_parts clk"
  "try_from_frame_err_persist_unexpected_frame_key clk"
  by (simp_all add: command_test_defs lift_eval)

lemma shape_verb_tests:
  "try_from_frame_err_empty_array clk"
  "try_from_frame_err_command_value_is_array clk"
  "try_from_frame_err_unrecognized_command clk"
  "try_from_frame_err_unexpected_value clk"
  by (simp_all add: command_test_defs lift_eval)

lemma expire_verb_tests:
  "try_from_frame_err_expire_not_enough_parts_zero_args clk"
  "try_from_frame_err_expire_not_enough_parts_one_arg clk"
  "try_from_frame_err_expire_unexpected_frame_key clk"
  "try_from_frame_err_expire_unexpected_frame_ttl clk"
  "try_from_frame_err_expire_ttl_invalid_utf8 clk"
  "try_from_frame_err_expire_ttl_not_a_number clk"
  "try_from_frame_err_expire_too_many_parts clk"
  "try_from_frame_err_expire_ttl_negative clk"
  by (simp_all add: command_test_defs lift_eval)

lemma subscribe_verb_tests:
  "try_from_frame_ok_subscribe_single clk"
  "try_from_frame_ok_subscribe_multiple clk"
  "try_from_frame_err_subscribe_no_channels clk"
  "try_from_frame_err_subscribe_non_bulk_channel clk"
  by (simp_all add: command_test_defs lift_eval)

lemma unsubscribe_verb_tests:
  "try_from_frame_ok_unsubscribe_single clk"
  "try_from_frame_ok_unsubscribe_no_channels clk"
  "try_from_frame_err_unsubscribe_non_bulk_channel clk"
  by (simp_all add: command_test_defs lift_eval)

lemma publish_verb_tests:
  "try_from_frame_ok_publish clk"
  "try_from_frame_err_publish_not_enough_parts clk"
  "try_from_frame_err_publish_too_many_parts clk"
  "try_from_frame_err_publish_non_bulk_arg clk"
  by (simp_all add: command_test_defs lift_eval)

section \<open>Under a running clock\<close>

text \<open>One time round either loop reads the clock three times, the second time in the lift.\<close>

lemma three_readings:
  assumes "steady clk"
  obtains t u v where "reading clk = Inr t" "reading (stl clk) = Inr u" "reading (stl (stl clk)) = Inr v"
    "t \<le> u" "u \<le> v" "steady (stl (stl (stl clk)))"
  using assms steadyD by metis

lemma set_relative_loop_holds:
  assumes "list_all (\<lambda>(opt, amount, offset). \<forall>c t. reading c = Inr t \<longrightarrow>
      command_try_from (words [''set'', ''foo'', ''value'', opt, amount]) c =
        (Inr (command_set ''foo'' ''value'' (Some (ms_saturating_add t offset))), stl c)) cases"
  shows "steady clk \<Longrightarrow> set_relative_loop cases clk"
  using assms
proof (induction cases clk rule: set_relative_loop.induct)
  case (2 opt amount offset cases clk)
  obtain t u v where r: "reading clk = Inr t" "reading (stl clk) = Inr u" "reading (stl (stl clk)) = Inr v"
      "t \<le> u" "u \<le> v" "steady (stl (stl (stl clk)))"
    using three_readings [OF 2(2)] .
  with 2 show ?case by (simp add: now_eq command_defs ms_saturating_add_mono)
qed simp

lemma expire_loop_holds:
  assumes "list_all (\<lambda>verb. \<forall>c t. reading c = Inr t \<longrightarrow> command_try_from (words [verb, ''foo'', ''60'']) c =
      (Inr (command_expire_at ''foo'' (ms_saturating_add t (millis_from_seconds (Seconds 60)))), stl c)) verbs"
  shows "steady clk \<Longrightarrow> expire_loop verbs clk"
  using assms
proof (induction verbs clk rule: expire_loop.induct)
  case (2 verb verbs clk)
  obtain t u v where r: "reading clk = Inr t" "reading (stl clk) = Inr u" "reading (stl (stl clk)) = Inr v"
      "t \<le> u" "u \<le> v" "steady (stl (stl (stl clk)))"
    using three_readings [OF 2(2)] .
  with 2 show ?case by (simp add: now_eq command_defs assert_deadline_about_def ms_saturating_add_mono)
qed simp

lemma clock_tests:
  assumes "steady clk"
  shows "try_from_frame_ok_set_relative_options clk" "try_from_frame_ok_expire_normalizes_to_absolute clk"
    "try_from_frame_err_set_too_many_parts_after_option clk"
proof -
  obtain t where "reading clk = Inr t" using steadyD(2) [OF assms] by blast
  then show "try_from_frame_err_set_too_many_parts_after_option clk"
    by (simp add: command_test_defs lift_eval now_eq)
  show "try_from_frame_ok_set_relative_options clk"
    unfolding try_from_frame_ok_set_relative_options_def
    by (rule set_relative_loop_holds [OF _ assms]) (simp add: lift_eval now_eq millis_literals)
  show "try_from_frame_ok_expire_normalizes_to_absolute clk"
    unfolding try_from_frame_ok_expire_normalizes_to_absolute_def
    by (rule expire_loop_holds [OF _ assms]) (simp add: lift_eval now_eq)
qed

section \<open>The suite\<close>

lemma command_tests_hold:
  assumes "steady clk"
  shows "list_all (\<lambda>test. test clk) command_tests"
  by (simp only: command_tests_def list.pred_inject get_verb_tests set_verb_tests pexpireat_verb_tests expireat_verb_tests del_verb_tests
      ping_verb_tests exists_verb_tests ttl_verb_tests persist_verb_tests shape_verb_tests
      expire_verb_tests subscribe_verb_tests unsubscribe_verb_tests publish_verb_tests
      clock_tests [OF assms] simp_thms)

end
