(* ===== verification/Tests_Cache.thy ===== *)
theory Tests_Cache
  imports Cache Test_Clock
begin

text \<open>
  The unit tests of \<^verbatim>\<open>domain/cache.rs\<close>, each a script of calls on a fresh cache and the answers it
  expects, and the proof that the model passes all of them whenever they are run.
\<close>

section \<open>Scripts\<close>

text \<open>
  A script goes on with the store and the clock the last call left, and fails at an error the test
  unwraps or an answer it does not expect.
\<close>

type_synonym script = "cache \<Rightarrow> clock \<Rightarrow> bool"

definition passes :: script where
  "passes c clk \<longleftrightarrow> True"

definition yields_that :: "(cache \<Rightarrow> clock \<Rightarrow> 'a cache_answer) \<Rightarrow> ('a \<Rightarrow> bool) \<Rightarrow> script \<Rightarrow> script" where
  "yields_that op P k c clk =
    (case op c clk of
       (Inl _, c, clk) \<Rightarrow> False
     | (Inr x, c, clk) \<Rightarrow> P x \<and> k c clk)"

definition yields :: "(cache \<Rightarrow> clock \<Rightarrow> 'a cache_answer) \<Rightarrow> 'a \<Rightarrow> script \<Rightarrow> script" where
  "yields op x = yields_that op (\<lambda>y. y = x)"

definition untimed :: "(cache \<Rightarrow> (cache_error, 'a) result \<times> cache) \<Rightarrow> cache \<Rightarrow> clock \<Rightarrow> 'a cache_answer" where
  "untimed op c clk = (case op c of (r, c) \<Rightarrow> (r, c, clk))"

definition inserted :: "bytes \<Rightarrow> entry \<Rightarrow> script \<Rightarrow> script" where
  "inserted key e = yields_that (untimed (cache_insert key e)) (\<lambda>_. True)"

definition has_length :: "nat \<Rightarrow> script \<Rightarrow> script" where
  "has_length n k c clk \<longleftrightarrow> \<not> cache_poisoned c \<and> length (cache_inner c) = n \<and> k c clk"

definition at_now :: "(milliseconds \<Rightarrow> script) \<Rightarrow> script" where
  "at_now k c clk =
    (case now clk of
       (Inl _, clk) \<Rightarrow> False
     | (Inr t, clk) \<Rightarrow> k t c clk)"

definition in_secs :: "64 word \<Rightarrow> (milliseconds \<Rightarrow> script) \<Rightarrow> script" where
  "in_secs secs k = at_now (\<lambda>t. k (ms_saturating_add t (millis_from_seconds (Seconds secs))))"

lemmas script_defs =
  passes_def yields_that_def yields_def untimed_def inserted_def has_length_def at_now_def in_secs_def

text \<open>An hour left, give or take ten seconds.\<close>

definition hour_of_millis :: "milliseconds option option \<Rightarrow> bool" where
  "hour_of_millis ttl =
    (case ttl of
       Some (Some t) \<Rightarrow> 3590000 \<le> millis_get t \<and> millis_get t \<le> 3600000
     | _ \<Rightarrow> False)"

definition hour_of_seconds :: "command_outcome \<Rightarrow> bool" where
  "hour_of_seconds outcome =
    (case outcome of
       TtlOutcome (TtlSome t) \<Rightarrow> 3590 \<le> seconds_get t \<and> seconds_get t \<le> 3600
     | _ \<Rightarrow> False)"

section \<open>The tests\<close>

definition entry_constructor_without_ttl :: "clock \<Rightarrow> bool" where
  "entry_constructor_without_ttl clk \<longleftrightarrow>
     entry_new ''foo'' None = \<lparr>entry_value = ''foo'', entry_expires_at = None\<rparr>"

definition entry_constructor_with_ttl :: "clock \<Rightarrow> bool" where
  "entry_constructor_with_ttl clk \<longleftrightarrow>
     entry_new ''foo'' (Some (Milliseconds 123)) =
       \<lparr>entry_value = ''foo'', entry_expires_at = Some (Milliseconds 123)\<rparr>"

definition get_miss_returns_none :: "clock \<Rightarrow> bool" where
  "get_miss_returns_none clk \<longleftrightarrow>
     (yields (cache_get ''missing'') None passes) (cache_new []) clk"

definition get_hit_no_ttl_returns_entry :: "clock \<Rightarrow> bool" where
  "get_hit_no_ttl_returns_entry clk \<longleftrightarrow>
     ((inserted ''foo'' (entry_new ''bar'' None) \<circ>
      yields (cache_get ''foo'') (Some (entry_new ''bar'' None))) passes) (cache_new []) clk"

definition get_hit_future_ttl_returns_entry :: "clock \<Rightarrow> bool" where
  "get_hit_future_ttl_returns_entry clk \<longleftrightarrow>
     (in_secs 3600 (\<lambda>future.
       (inserted ''foo'' (entry_new ''bar'' (Some future)) \<circ>
        yields (cache_get ''foo'') (Some (entry_new ''bar'' (Some future)))) passes)) (cache_new []) clk"

definition get_hit_expired_returns_none_and_removes :: "clock \<Rightarrow> bool" where
  "get_hit_expired_returns_none_and_removes clk \<longleftrightarrow>
     ((inserted ''foo'' (entry_new ''bar'' (Some (Milliseconds 1))) \<circ>
      yields (cache_get ''foo'') None \<circ>
      yields (cache_contains ''foo'') False) passes) (cache_new []) clk"

definition get_hit_at_exact_expiry_returns_none :: "clock \<Rightarrow> bool" where
  "get_hit_at_exact_expiry_returns_none clk \<longleftrightarrow>
     (at_now (\<lambda>t.
       (inserted ''foo'' (entry_new ''bar'' (Some t)) \<circ>
        yields (cache_get ''foo'') None) passes)) (cache_new []) clk"

definition insert_new_returns_none :: "clock \<Rightarrow> bool" where
  "insert_new_returns_none clk \<longleftrightarrow>
     (yields (untimed (cache_insert ''foo'' (entry_new ''bar'' None))) None passes) (cache_new []) clk"

definition insert_existing_returns_old_entry :: "clock \<Rightarrow> bool" where
  "insert_existing_returns_old_entry clk \<longleftrightarrow>
     ((inserted ''foo'' (entry_new ''old'' None) \<circ>
      yields (untimed (cache_insert ''foo'' (entry_new ''new'' None))) (Some (entry_new ''old'' None))) passes) (cache_new []) clk"

definition insert_replaces_value_and_ttl :: "clock \<Rightarrow> bool" where
  "insert_replaces_value_and_ttl clk \<longleftrightarrow>
     (in_secs 100 (\<lambda>future.
       (inserted ''foo'' (entry_new ''old'' (Some future)) \<circ>
        inserted ''foo'' (entry_new ''new'' None) \<circ>
        yields (cache_get ''foo'') (Some (entry_new ''new'' None))) passes)) (cache_new []) clk"

definition remove_hit_returns_entry :: "clock \<Rightarrow> bool" where
  "remove_hit_returns_entry clk \<longleftrightarrow>
     ((inserted ''foo'' (entry_new ''bar'' None) \<circ>
      yields (untimed (cache_remove ''foo'')) (Some (entry_new ''bar'' None))) passes) (cache_new []) clk"

definition remove_miss_returns_none :: "clock \<Rightarrow> bool" where
  "remove_miss_returns_none clk \<longleftrightarrow>
     (yields (untimed (cache_remove ''missing'')) None passes) (cache_new []) clk"

definition remove_actually_removes :: "clock \<Rightarrow> bool" where
  "remove_actually_removes clk \<longleftrightarrow>
     ((inserted ''foo'' (entry_new ''bar'' None) \<circ>
      yields_that (untimed (cache_remove ''foo'')) (\<lambda>_. True) \<circ>
      yields (cache_get ''foo'') None) passes) (cache_new []) clk"

definition contains_miss_returns_false :: "clock \<Rightarrow> bool" where
  "contains_miss_returns_false clk \<longleftrightarrow>
     (yields (cache_contains ''missing'') False passes) (cache_new []) clk"

definition contains_hit_no_ttl_returns_true :: "clock \<Rightarrow> bool" where
  "contains_hit_no_ttl_returns_true clk \<longleftrightarrow>
     ((inserted ''foo'' (entry_new ''bar'' None) \<circ>
      yields (cache_contains ''foo'') True) passes) (cache_new []) clk"

definition contains_hit_future_ttl_returns_true :: "clock \<Rightarrow> bool" where
  "contains_hit_future_ttl_returns_true clk \<longleftrightarrow>
     (in_secs 3600 (\<lambda>future.
       (inserted ''foo'' (entry_new ''bar'' (Some future)) \<circ>
        yields (cache_contains ''foo'') True) passes)) (cache_new []) clk"

definition contains_hit_expired_returns_false_and_removes :: "clock \<Rightarrow> bool" where
  "contains_hit_expired_returns_false_and_removes clk \<longleftrightarrow>
     ((inserted ''foo'' (entry_new ''bar'' (Some (Milliseconds 1))) \<circ>
      yields (cache_contains ''foo'') False \<circ>
      yields (cache_get ''foo'') None) passes) (cache_new []) clk"

definition set_expires_at_existing_key_future_returns_true_and_sets :: "clock \<Rightarrow> bool" where
  "set_expires_at_existing_key_future_returns_true_and_sets clk \<longleftrightarrow>
     ((inserted ''foo'' (entry_new ''bar'' None))
      (in_secs 3600 (\<lambda>future.
       (yields (cache_set_expires_at ''foo'' future) True \<circ>
        yields (cache_get ''foo'') (Some (entry_new ''bar'' (Some future)))) passes))) (cache_new []) clk"

definition set_expires_at_missing_key_future_returns_false :: "clock \<Rightarrow> bool" where
  "set_expires_at_missing_key_future_returns_false clk \<longleftrightarrow>
     (in_secs 3600 (\<lambda>future.
       yields (cache_set_expires_at ''missing'' future) False passes)) (cache_new []) clk"

definition set_expires_at_past_existing_key_removes_and_returns_true :: "clock \<Rightarrow> bool" where
  "set_expires_at_past_existing_key_removes_and_returns_true clk \<longleftrightarrow>
     ((inserted ''foo'' (entry_new ''bar'' None) \<circ>
      yields (cache_set_expires_at ''foo'' (Milliseconds 0)) True \<circ>
      yields (cache_get ''foo'') None) passes) (cache_new []) clk"

definition set_expires_at_past_missing_key_returns_false :: "clock \<Rightarrow> bool" where
  "set_expires_at_past_missing_key_returns_false clk \<longleftrightarrow>
     (yields (cache_set_expires_at ''missing'' (Milliseconds 0)) False passes) (cache_new []) clk"

definition set_expires_at_overwrites_existing_ttl :: "clock \<Rightarrow> bool" where
  "set_expires_at_overwrites_existing_ttl clk \<longleftrightarrow>
     (in_secs 100 (\<lambda>old.
       (inserted ''foo'' (entry_new ''bar'' (Some old)))
        (in_secs 7200 (\<lambda>new_ttl.
         (yields (cache_set_expires_at ''foo'' new_ttl) True \<circ>
          yields (cache_expires_at ''foo'') (Some (Some new_ttl))) passes)))) (cache_new []) clk"

definition get_expires_at_missing_key_returns_none :: "clock \<Rightarrow> bool" where
  "get_expires_at_missing_key_returns_none clk \<longleftrightarrow>
     (yields (cache_expires_at ''missing'') None passes) (cache_new []) clk"

definition get_expires_at_no_ttl_returns_some_none :: "clock \<Rightarrow> bool" where
  "get_expires_at_no_ttl_returns_some_none clk \<longleftrightarrow>
     ((inserted ''foo'' (entry_new ''bar'' None) \<circ>
      yields (cache_expires_at ''foo'') (Some None)) passes) (cache_new []) clk"

definition get_expires_at_future_returns_some_some_timestamp :: "clock \<Rightarrow> bool" where
  "get_expires_at_future_returns_some_some_timestamp clk \<longleftrightarrow>
     (in_secs 3600 (\<lambda>future.
       (inserted ''foo'' (entry_new ''bar'' (Some future)) \<circ>
        yields (cache_expires_at ''foo'') (Some (Some future))) passes)) (cache_new []) clk"

definition get_expires_at_expired_removes_and_returns_none :: "clock \<Rightarrow> bool" where
  "get_expires_at_expired_removes_and_returns_none clk \<longleftrightarrow>
     ((inserted ''foo'' (entry_new ''bar'' (Some (Milliseconds 1))) \<circ>
      yields (cache_expires_at ''foo'') None \<circ>
      yields (cache_contains ''foo'') False) passes) (cache_new []) clk"

definition time_to_live_missing_key_returns_none :: "clock \<Rightarrow> bool" where
  "time_to_live_missing_key_returns_none clk \<longleftrightarrow>
     (yields (cache_time_to_live ''missing'') None passes) (cache_new []) clk"

definition time_to_live_no_ttl_returns_some_none :: "clock \<Rightarrow> bool" where
  "time_to_live_no_ttl_returns_some_none clk \<longleftrightarrow>
     ((inserted ''foo'' (entry_new ''bar'' None) \<circ>
      yields (cache_time_to_live ''foo'') (Some None)) passes) (cache_new []) clk"

definition time_to_live_future_returns_remaining_millis :: "clock \<Rightarrow> bool" where
  "time_to_live_future_returns_remaining_millis clk \<longleftrightarrow>
     (in_secs 3600 (\<lambda>future.
       (inserted ''foo'' (entry_new ''bar'' (Some future)) \<circ>
        yields_that (cache_time_to_live ''foo'') hour_of_millis) passes)) (cache_new []) clk"

definition time_to_live_expired_returns_none :: "clock \<Rightarrow> bool" where
  "time_to_live_expired_returns_none clk \<longleftrightarrow>
     ((inserted ''foo'' (entry_new ''bar'' (Some (Milliseconds 1))) \<circ>
      yields (cache_time_to_live ''foo'') None) passes) (cache_new []) clk"

definition remove_ttl_had_ttl_returns_true_and_clears :: "clock \<Rightarrow> bool" where
  "remove_ttl_had_ttl_returns_true_and_clears clk \<longleftrightarrow>
     (in_secs 100 (\<lambda>future.
       (inserted ''foo'' (entry_new ''bar'' (Some future)) \<circ>
        yields (cache_remove_ttl ''foo'') True \<circ>
        yields (cache_expires_at ''foo'') (Some None)) passes)) (cache_new []) clk"

definition remove_ttl_on_an_expired_key_drops_it_instead_of_reviving_it :: "clock \<Rightarrow> bool" where
  "remove_ttl_on_an_expired_key_drops_it_instead_of_reviving_it clk \<longleftrightarrow>
     ((inserted ''foo'' (entry_new ''bar'' (Some (Milliseconds 1))) \<circ>
      yields (cache_remove_ttl ''foo'') False \<circ>
      has_length 0 \<circ>
      yields (cache_get ''foo'') None) passes) (cache_new []) clk"

definition remove_ttl_no_ttl_returns_false :: "clock \<Rightarrow> bool" where
  "remove_ttl_no_ttl_returns_false clk \<longleftrightarrow>
     ((inserted ''foo'' (entry_new ''bar'' None) \<circ>
      yields (cache_remove_ttl ''foo'') False) passes) (cache_new []) clk"

definition remove_ttl_missing_key_returns_false :: "clock \<Rightarrow> bool" where
  "remove_ttl_missing_key_returns_false clk \<longleftrightarrow>
     (yields (cache_remove_ttl ''missing'') False passes) (cache_new []) clk"

definition remove_ttl_keeps_value_intact :: "clock \<Rightarrow> bool" where
  "remove_ttl_keeps_value_intact clk \<longleftrightarrow>
     (in_secs 100 (\<lambda>future.
       (inserted ''foo'' (entry_new ''bar'' (Some future)) \<circ>
        yields_that (cache_remove_ttl ''foo'') (\<lambda>_. True) \<circ>
        yields (cache_get ''foo'') (Some (entry_new ''bar'' None))) passes)) (cache_new []) clk"

definition remove_expired_empty_returns_zero :: "clock \<Rightarrow> bool" where
  "remove_expired_empty_returns_zero clk \<longleftrightarrow>
     (yields cache_remove_expired 0 passes) (cache_new []) clk"

definition remove_expired_drops_expired_keys :: "clock \<Rightarrow> bool" where
  "remove_expired_drops_expired_keys clk \<longleftrightarrow>
     ((inserted ''a'' (entry_new ''v'' (Some (Milliseconds 1))) \<circ>
      inserted ''b'' (entry_new ''v'' (Some (Milliseconds 1))) \<circ>
      yields cache_remove_expired 2 \<circ>
      yields (cache_contains ''a'') False \<circ>
      yields (cache_contains ''b'') False) passes) (cache_new []) clk"

definition remove_expired_keeps_future_keys :: "clock \<Rightarrow> bool" where
  "remove_expired_keeps_future_keys clk \<longleftrightarrow>
     (in_secs 3600 (\<lambda>future.
       (inserted ''a'' (entry_new ''v'' (Some future)) \<circ>
        yields cache_remove_expired 0 \<circ>
        yields (cache_contains ''a'') True) passes)) (cache_new []) clk"

definition remove_expired_keeps_no_ttl_keys :: "clock \<Rightarrow> bool" where
  "remove_expired_keeps_no_ttl_keys clk \<longleftrightarrow>
     ((inserted ''a'' (entry_new ''v'' None) \<circ>
      yields cache_remove_expired 0 \<circ>
      yields (cache_contains ''a'') True) passes) (cache_new []) clk"

definition execute_get_miss_returns_value_none :: "clock \<Rightarrow> bool" where
  "execute_get_miss_returns_value_none clk \<longleftrightarrow>
     (yields (cache_execute (Read (Get ''missing''))) (Value None) passes) (cache_new []) clk"

definition execute_get_hit_returns_value_some :: "clock \<Rightarrow> bool" where
  "execute_get_hit_returns_value_some clk \<longleftrightarrow>
     ((inserted ''foo'' (entry_new ''bar'' None) \<circ>
      yields (cache_execute (Read (Get ''foo''))) (Value (Some ''bar''))) passes) (cache_new []) clk"

definition execute_get_expired_returns_value_none :: "clock \<Rightarrow> bool" where
  "execute_get_expired_returns_value_none clk \<longleftrightarrow>
     ((inserted ''foo'' (entry_new ''bar'' (Some (Milliseconds 1))) \<circ>
      yields (cache_execute (Read (Get ''foo''))) (Value None)) passes) (cache_new []) clk"

definition execute_delete_hit_returns_bool_true :: "clock \<Rightarrow> bool" where
  "execute_delete_hit_returns_bool_true clk \<longleftrightarrow>
     ((inserted ''foo'' (entry_new ''bar'' None) \<circ>
      yields (cache_execute (Write (Delete ''foo''))) (Bool True) \<circ>
      yields (cache_contains ''foo'') False) passes) (cache_new []) clk"

definition execute_delete_miss_returns_bool_false :: "clock \<Rightarrow> bool" where
  "execute_delete_miss_returns_bool_false clk \<longleftrightarrow>
     (yields (cache_execute (Write (Delete ''missing''))) (Bool False) passes) (cache_new []) clk"

definition execute_exists_hit_returns_integer_one :: "clock \<Rightarrow> bool" where
  "execute_exists_hit_returns_integer_one clk \<longleftrightarrow>
     ((inserted ''foo'' (entry_new ''bar'' None) \<circ>
      yields (cache_execute (Read (Exists ''foo''))) (OutcomeInteger 1)) passes) (cache_new []) clk"

definition execute_exists_miss_returns_integer_zero :: "clock \<Rightarrow> bool" where
  "execute_exists_miss_returns_integer_zero clk \<longleftrightarrow>
     (yields (cache_execute (Read (Exists ''missing''))) (OutcomeInteger 0) passes) (cache_new []) clk"

definition execute_expire_at_existing_returns_bool_true :: "clock \<Rightarrow> bool" where
  "execute_expire_at_existing_returns_bool_true clk \<longleftrightarrow>
     ((inserted ''foo'' (entry_new ''bar'' None))
      (in_secs 3600 (\<lambda>future.
       yields (cache_execute (Write (ExpireAt ''foo'' future))) (Bool True) passes))) (cache_new []) clk"

definition execute_expire_at_missing_returns_bool_false :: "clock \<Rightarrow> bool" where
  "execute_expire_at_missing_returns_bool_false clk \<longleftrightarrow>
     (in_secs 3600 (\<lambda>future.
       yields (cache_execute (Write (ExpireAt ''missing'' future))) (Bool False) passes)) (cache_new []) clk"

definition execute_ttl_missing_returns_key_not_found :: "clock \<Rightarrow> bool" where
  "execute_ttl_missing_returns_key_not_found clk \<longleftrightarrow>
     (yields (cache_execute (Read (Ttl ''missing''))) (TtlOutcome KeyNotFound) passes) (cache_new []) clk"

definition execute_ttl_no_ttl_returns_ttl_not_found :: "clock \<Rightarrow> bool" where
  "execute_ttl_no_ttl_returns_ttl_not_found clk \<longleftrightarrow>
     ((inserted ''foo'' (entry_new ''bar'' None) \<circ>
      yields (cache_execute (Read (Ttl ''foo''))) (TtlOutcome TtlNotFound)) passes) (cache_new []) clk"

definition execute_ttl_with_ttl_returns_ttl_some :: "clock \<Rightarrow> bool" where
  "execute_ttl_with_ttl_returns_ttl_some clk \<longleftrightarrow>
     (in_secs 3600 (\<lambda>future.
       (inserted ''foo'' (entry_new ''bar'' (Some future)) \<circ>
        yields_that (cache_execute (Read (Ttl ''foo''))) hour_of_seconds) passes)) (cache_new []) clk"

definition execute_persist_had_ttl_returns_bool_true :: "clock \<Rightarrow> bool" where
  "execute_persist_had_ttl_returns_bool_true clk \<longleftrightarrow>
     (in_secs 3600 (\<lambda>future.
       (inserted ''foo'' (entry_new ''bar'' (Some future)) \<circ>
        yields (cache_execute (Write (Persist ''foo''))) (Bool True)) passes)) (cache_new []) clk"

definition execute_persist_no_ttl_returns_bool_false :: "clock \<Rightarrow> bool" where
  "execute_persist_no_ttl_returns_bool_false clk \<longleftrightarrow>
     ((inserted ''foo'' (entry_new ''bar'' None) \<circ>
      yields (cache_execute (Write (Persist ''foo''))) (Bool False)) passes) (cache_new []) clk"

definition execute_persist_missing_returns_bool_false :: "clock \<Rightarrow> bool" where
  "execute_persist_missing_returns_bool_false clk \<longleftrightarrow>
     (yields (cache_execute (Write (Persist ''missing''))) (Bool False) passes) (cache_new []) clk"

definition remove_expired_mixed :: "clock \<Rightarrow> bool" where
  "remove_expired_mixed clk \<longleftrightarrow>
     ((inserted ''expired_a'' (entry_new ''v'' (Some (Milliseconds 1))) \<circ>
      inserted ''expired_b'' (entry_new ''v'' (Some (Milliseconds 1))))
      (in_secs 3600 (\<lambda>later.
       (inserted ''future'' (entry_new ''v'' (Some later)) \<circ>
        inserted ''no_ttl'' (entry_new ''v'' None) \<circ>
        yields cache_remove_expired 2 \<circ>
        yields (cache_contains ''expired_a'') False \<circ>
        yields (cache_contains ''expired_b'') False \<circ>
        yields (cache_contains ''future'') True \<circ>
        yields (cache_contains ''no_ttl'') True) passes))) (cache_new []) clk"

lemmas cache_test_defs =
  entry_constructor_without_ttl_def
  entry_constructor_with_ttl_def
  get_miss_returns_none_def
  get_hit_no_ttl_returns_entry_def
  get_hit_future_ttl_returns_entry_def
  get_hit_expired_returns_none_and_removes_def
  get_hit_at_exact_expiry_returns_none_def
  insert_new_returns_none_def
  insert_existing_returns_old_entry_def
  insert_replaces_value_and_ttl_def
  remove_hit_returns_entry_def
  remove_miss_returns_none_def
  remove_actually_removes_def
  contains_miss_returns_false_def
  contains_hit_no_ttl_returns_true_def
  contains_hit_future_ttl_returns_true_def
  contains_hit_expired_returns_false_and_removes_def
  set_expires_at_existing_key_future_returns_true_and_sets_def
  set_expires_at_missing_key_future_returns_false_def
  set_expires_at_past_existing_key_removes_and_returns_true_def
  set_expires_at_past_missing_key_returns_false_def
  set_expires_at_overwrites_existing_ttl_def
  get_expires_at_missing_key_returns_none_def
  get_expires_at_no_ttl_returns_some_none_def
  get_expires_at_future_returns_some_some_timestamp_def
  get_expires_at_expired_removes_and_returns_none_def
  time_to_live_missing_key_returns_none_def
  time_to_live_no_ttl_returns_some_none_def
  time_to_live_future_returns_remaining_millis_def
  time_to_live_expired_returns_none_def
  remove_ttl_had_ttl_returns_true_and_clears_def
  remove_ttl_on_an_expired_key_drops_it_instead_of_reviving_it_def
  remove_ttl_no_ttl_returns_false_def
  remove_ttl_missing_key_returns_false_def
  remove_ttl_keeps_value_intact_def
  remove_expired_empty_returns_zero_def
  remove_expired_drops_expired_keys_def
  remove_expired_keeps_future_keys_def
  remove_expired_keeps_no_ttl_keys_def
  execute_get_miss_returns_value_none_def
  execute_get_hit_returns_value_some_def
  execute_get_expired_returns_value_none_def
  execute_delete_hit_returns_bool_true_def
  execute_delete_miss_returns_bool_false_def
  execute_exists_hit_returns_integer_one_def
  execute_exists_miss_returns_integer_zero_def
  execute_expire_at_existing_returns_bool_true_def
  execute_expire_at_missing_returns_bool_false_def
  execute_ttl_missing_returns_key_not_found_def
  execute_ttl_no_ttl_returns_ttl_not_found_def
  execute_ttl_with_ttl_returns_ttl_some_def
  execute_persist_had_ttl_returns_bool_true_def
  execute_persist_no_ttl_returns_bool_false_def
  execute_persist_missing_returns_bool_false_def
  remove_expired_mixed_def

definition cache_tests :: "(clock \<Rightarrow> bool) list" where
  "cache_tests =
    [entry_constructor_without_ttl,
     entry_constructor_with_ttl,
     get_miss_returns_none,
     get_hit_no_ttl_returns_entry,
     get_hit_future_ttl_returns_entry,
     get_hit_expired_returns_none_and_removes,
     get_hit_at_exact_expiry_returns_none,
     insert_new_returns_none,
     insert_existing_returns_old_entry,
     insert_replaces_value_and_ttl,
     remove_hit_returns_entry,
     remove_miss_returns_none,
     remove_actually_removes,
     contains_miss_returns_false,
     contains_hit_no_ttl_returns_true,
     contains_hit_future_ttl_returns_true,
     contains_hit_expired_returns_false_and_removes,
     set_expires_at_existing_key_future_returns_true_and_sets,
     set_expires_at_missing_key_future_returns_false,
     set_expires_at_past_existing_key_removes_and_returns_true,
     set_expires_at_past_missing_key_returns_false,
     set_expires_at_overwrites_existing_ttl,
     get_expires_at_missing_key_returns_none,
     get_expires_at_no_ttl_returns_some_none,
     get_expires_at_future_returns_some_some_timestamp,
     get_expires_at_expired_removes_and_returns_none,
     time_to_live_missing_key_returns_none,
     time_to_live_no_ttl_returns_some_none,
     time_to_live_future_returns_remaining_millis,
     time_to_live_expired_returns_none,
     remove_ttl_had_ttl_returns_true_and_clears,
     remove_ttl_on_an_expired_key_drops_it_instead_of_reviving_it,
     remove_ttl_no_ttl_returns_false,
     remove_ttl_missing_key_returns_false,
     remove_ttl_keeps_value_intact,
     remove_expired_empty_returns_zero,
     remove_expired_drops_expired_keys,
     remove_expired_keeps_future_keys,
     remove_expired_keeps_no_ttl_keys,
     execute_get_miss_returns_value_none,
     execute_get_hit_returns_value_some,
     execute_get_expired_returns_value_none,
     execute_delete_hit_returns_bool_true,
     execute_delete_miss_returns_bool_false,
     execute_exists_hit_returns_integer_one,
     execute_exists_miss_returns_integer_zero,
     execute_expire_at_existing_returns_bool_true,
     execute_expire_at_missing_returns_bool_false,
     execute_ttl_missing_returns_key_not_found,
     execute_ttl_no_ttl_returns_ttl_not_found,
     execute_ttl_with_ttl_returns_ttl_some,
     execute_persist_had_ttl_returns_bool_true,
     execute_persist_no_ttl_returns_bool_false,
     execute_persist_missing_returns_bool_false,
     remove_expired_mixed]"



section \<open>The suite\<close>

lemmas store_defs = entry_new_def cache_new_def put_key_def drop_key_def expired_def

lemmas operation_defs =
  cache_get_def cache_insert_def cache_remove_def cache_contains_def cache_set_expires_at_def expires_at_read_def
  expires_at_finish_def cache_expires_at_def cache_time_to_live_def cache_remove_ttl_def cache_remove_expired_def
  cache_execute_def answer_map_def ttl_outcome_of_def

lemmas suite_eval = cache_test_defs script_defs operation_defs store_defs

lemma entry_tests:
  assumes "test_clock clk"
  shows "entry_constructor_without_ttl clk"
    "entry_constructor_with_ttl clk"
  using test_clock_order [OF assms, of 0 1]
  by (simp_all add: suite_eval test_clock_readings [OF assms] test_clock_past [OF assms] test_clock_ahead [OF assms])

lemma get_tests:
  assumes "test_clock clk"
  shows "get_miss_returns_none clk"
    "get_hit_no_ttl_returns_entry clk"
    "get_hit_future_ttl_returns_entry clk"
    "get_hit_expired_returns_none_and_removes clk"
    "get_hit_at_exact_expiry_returns_none clk"
  using test_clock_order [OF assms, of 0 1]
  by (simp_all add: suite_eval test_clock_readings [OF assms] test_clock_past [OF assms] test_clock_ahead [OF assms])

lemma insert_tests:
  assumes "test_clock clk"
  shows "insert_new_returns_none clk"
    "insert_existing_returns_old_entry clk"
    "insert_replaces_value_and_ttl clk"
  using test_clock_order [OF assms, of 0 1]
  by (simp_all add: suite_eval test_clock_readings [OF assms] test_clock_past [OF assms] test_clock_ahead [OF assms])

lemma remove_tests:
  assumes "test_clock clk"
  shows "remove_hit_returns_entry clk"
    "remove_miss_returns_none clk"
    "remove_actually_removes clk"
  using test_clock_order [OF assms, of 0 1]
  by (simp_all add: suite_eval test_clock_readings [OF assms] test_clock_past [OF assms] test_clock_ahead [OF assms])

lemma contains_tests:
  assumes "test_clock clk"
  shows "contains_miss_returns_false clk"
    "contains_hit_no_ttl_returns_true clk"
    "contains_hit_future_ttl_returns_true clk"
    "contains_hit_expired_returns_false_and_removes clk"
  using test_clock_order [OF assms, of 0 1]
  by (simp_all add: suite_eval test_clock_readings [OF assms] test_clock_past [OF assms] test_clock_ahead [OF assms])

lemma set_expires_at_tests:
  assumes "test_clock clk"
  shows "set_expires_at_existing_key_future_returns_true_and_sets clk"
    "set_expires_at_missing_key_future_returns_false clk"
    "set_expires_at_past_existing_key_removes_and_returns_true clk"
    "set_expires_at_past_missing_key_returns_false clk"
    "set_expires_at_overwrites_existing_ttl clk"
  using test_clock_order [OF assms, of 0 1]
  by (simp_all add: suite_eval test_clock_readings [OF assms] test_clock_past [OF assms] test_clock_ahead [OF assms])

lemma expires_at_tests:
  assumes "test_clock clk"
  shows "get_expires_at_missing_key_returns_none clk"
    "get_expires_at_no_ttl_returns_some_none clk"
    "get_expires_at_future_returns_some_some_timestamp clk"
    "get_expires_at_expired_removes_and_returns_none clk"
  using test_clock_order [OF assms, of 0 1]
  by (simp_all add: suite_eval test_clock_readings [OF assms] test_clock_past [OF assms] test_clock_ahead [OF assms])

lemma time_to_live_tests:
  assumes "test_clock clk"
  shows "time_to_live_missing_key_returns_none clk"
    "time_to_live_no_ttl_returns_some_none clk"
    "time_to_live_expired_returns_none clk"
  using test_clock_order [OF assms, of 0 1]
  by (simp_all add: suite_eval test_clock_readings [OF assms] test_clock_past [OF assms] test_clock_ahead [OF assms])

lemma remove_ttl_tests:
  assumes "test_clock clk"
  shows "remove_ttl_had_ttl_returns_true_and_clears clk"
    "remove_ttl_on_an_expired_key_drops_it_instead_of_reviving_it clk"
    "remove_ttl_no_ttl_returns_false clk"
    "remove_ttl_missing_key_returns_false clk"
    "remove_ttl_keeps_value_intact clk"
  using test_clock_order [OF assms, of 0 1]
  by (simp_all add: suite_eval test_clock_readings [OF assms] test_clock_past [OF assms] test_clock_ahead [OF assms])

lemma remove_expired_tests:
  assumes "test_clock clk"
  shows "remove_expired_empty_returns_zero clk"
    "remove_expired_drops_expired_keys clk"
    "remove_expired_keeps_future_keys clk"
    "remove_expired_keeps_no_ttl_keys clk"
    "remove_expired_mixed clk"
  using test_clock_order [OF assms, of 0 1]
  by (simp_all add: suite_eval test_clock_readings [OF assms] test_clock_past [OF assms] test_clock_ahead [OF assms])

lemma execute_tests:
  assumes "test_clock clk"
  shows "execute_get_miss_returns_value_none clk"
    "execute_get_hit_returns_value_some clk"
    "execute_get_expired_returns_value_none clk"
    "execute_delete_hit_returns_bool_true clk"
    "execute_delete_miss_returns_bool_false clk"
    "execute_exists_hit_returns_integer_one clk"
    "execute_exists_miss_returns_integer_zero clk"
  using test_clock_order [OF assms, of 0 1]
  by (simp_all add: suite_eval test_clock_readings [OF assms] test_clock_past [OF assms] test_clock_ahead [OF assms])

lemma execute_expiry_tests:
  assumes "test_clock clk"
  shows "execute_expire_at_existing_returns_bool_true clk"
    "execute_expire_at_missing_returns_bool_false clk"
    "execute_ttl_missing_returns_key_not_found clk"
    "execute_ttl_no_ttl_returns_ttl_not_found clk"
    "execute_persist_had_ttl_returns_bool_true clk"
    "execute_persist_no_ttl_returns_bool_false clk"
    "execute_persist_missing_returns_bool_false clk"
  using test_clock_order [OF assms, of 0 1]
  by (simp_all add: suite_eval test_clock_readings [OF assms] test_clock_past [OF assms] test_clock_ahead [OF assms])

text \<open>What is left of an hour at a later reading.\<close>

lemma hour_left:
  assumes "test_clock clk"
  shows "3590000 \<le> unat (millis_get (ms_saturating_sub
      (ms_saturating_add (tick clk 0) (millis_from_seconds (Seconds 3600))) (tick clk n)))"
    and "unat (millis_get (ms_saturating_sub
      (ms_saturating_add (tick clk 0) (millis_from_seconds (Seconds 3600))) (tick clk n))) \<le> 3600000"
proof -
  have "unat (millis_get (tick clk n)) \<le> unat (millis_get (tick clk 0)) + 10000"
      "unat (millis_get (tick clk 0)) \<le> unat (millis_get (tick clk n))"
    using assms test_clock_order [OF assms, of 0 n] by (simp_all add: test_clock_def millis_le_nat)
  then show "3590000 \<le> unat (millis_get (ms_saturating_sub
      (ms_saturating_add (tick clk 0) (millis_from_seconds (Seconds 3600))) (tick clk n)))"
    and "unat (millis_get (ms_saturating_sub
      (ms_saturating_add (tick clk 0) (millis_from_seconds (Seconds 3600))) (tick clk n))) \<le> 3600000"
    using unat_in_secs [OF assms, of 3600 0] by (simp_all add: unat_ms_saturating_sub)
qed

lemma hour_tests:
  assumes "test_clock clk"
  shows "time_to_live_future_returns_remaining_millis clk" "execute_ttl_with_ttl_returns_ttl_some clk"
proof -
  let ?left = "ms_saturating_sub (ms_saturating_add (tick clk 0) (millis_from_seconds (Seconds 3600))) (tick clk 2)"
  note left = hour_left [OF assms, of 2]
  have "hour_of_millis (Some (Some ?left))" using left by (simp add: hour_of_millis_def word_le_nat_alt)
  then show "time_to_live_future_returns_remaining_millis clk"
    by (simp add: suite_eval test_clock_readings [OF assms] test_clock_ahead [OF assms])
  have "3590 \<le> (unat (millis_get ?left) + 999) div 1000" "(unat (millis_get ?left) + 999) div 1000 \<le> 3600"
    using left by linarith+
  then have "hour_of_seconds (TtlOutcome (TtlSome (to_seconds_rounded_up ?left)))"
    by (simp add: hour_of_seconds_def word_le_nat_alt unat_to_seconds_rounded_up)
  then show "execute_ttl_with_ttl_returns_ttl_some clk"
    by (simp add: suite_eval test_clock_readings [OF assms] test_clock_ahead [OF assms])
qed

section \<open>The suite\<close>

lemma cache_tests_hold:
  assumes "test_clock clk"
  shows "list_all (\<lambda>test. test clk) cache_tests"
  by (simp only: cache_tests_def list.pred_inject simp_thms
      entry_tests [OF assms] get_tests [OF assms] insert_tests [OF assms] remove_tests [OF assms]
      contains_tests [OF assms] set_expires_at_tests [OF assms] expires_at_tests [OF assms]
      time_to_live_tests [OF assms] remove_ttl_tests [OF assms] remove_expired_tests [OF assms]
      execute_tests [OF assms] execute_expiry_tests [OF assms] hour_tests [OF assms])

end
