(* ===== verification/Tests_Wire.thy ===== *)
theory Tests_Wire
  imports Resp_Reply
begin

text \<open>
  The unit tests of \<^verbatim>\<open>domain/time.rs\<close>, \<^verbatim>\<open>resp/crlf.rs\<close>, \<^verbatim>\<open>resp/frame.rs\<close>, \<^verbatim>\<open>resp/reply.rs\<close> and
  \<^verbatim>\<open>inbound/mod.rs\<close> as propositions about the model, and the proof that it passes them.  Two tests of
  the clock, which compare the real time with a date, are left out.
\<close>

section \<open>Vocabulary\<close>

fun is_length_utf8 :: "frame_result \<Rightarrow> bool" where
  "is_length_utf8 (Inl (InvalidLength (LengthUtf8 _))) \<longleftrightarrow> True"
| "is_length_utf8 _ \<longleftrightarrow> False"

fun is_length_parse_int :: "frame_result \<Rightarrow> bool" where
  "is_length_parse_int (Inl (InvalidLength (LengthParseInt _))) \<longleftrightarrow> True"
| "is_length_parse_int _ \<longleftrightarrow> False"

text \<open>What a reply leaves in an empty vector.\<close>

definition written :: "reply \<Rightarrow> bytes" where
  "written r = snd (reply_write_to vec_write_all r [] :: (unit, unit) result \<times> bytes)"

section \<open>\<^verbatim>\<open>domain/time.rs\<close>\<close>

definition to_seconds_rounds_up :: bool where
  "to_seconds_rounds_up \<longleftrightarrow>
     to_seconds_rounded_up (Milliseconds 59999) = Seconds 60 \<and> to_seconds_rounded_up (Milliseconds 60000) = Seconds 60 \<and>
     to_seconds_rounded_up (Milliseconds 1) = Seconds 1 \<and> to_seconds_rounded_up (Milliseconds 0) = Seconds 0"

definition seconds_convert_to_millis :: bool where
  "seconds_convert_to_millis \<longleftrightarrow>
     millis_from_seconds (Seconds 60) = Milliseconds 60000 \<and> millis_from_seconds (Seconds 0) = Milliseconds 0"

definition seconds_conversion_saturates :: bool where
  "seconds_conversion_saturates \<longleftrightarrow>
     millis_from_seconds (Seconds (- 1)) = Milliseconds (- 1)"

lemmas time_test_defs =
  to_seconds_rounds_up_def
  seconds_convert_to_millis_def
  seconds_conversion_saturates_def

definition time_tests :: "bool list" where
  "time_tests =
    [to_seconds_rounds_up,
     seconds_convert_to_millis,
     seconds_conversion_saturates]"

section \<open>\<^verbatim>\<open>resp/crlf.rs\<close>\<close>

definition is_clrf_true :: bool where
  "is_clrf_true \<longleftrightarrow>
     is_crlf CRLF"

definition is_clrf_false :: bool where
  "is_clrf_false \<longleftrightarrow>
     \<not> is_crlf ''abc''"

definition split_crlf_some :: bool where
  "split_crlf_some \<longleftrightarrow>
     split_crlf (''a'' @ CRLF @ ''a'') = Some (''a'', ''a'') \<and>
     split_crlf (''a'' @ CRLF) = Some (''a'', []) \<and>
     split_crlf (CRLF @ ''a'') = Some ([], ''a'') \<and>
     split_crlf CRLF = Some ([], [])"

definition split_crlf_none :: bool where
  "split_crlf_none \<longleftrightarrow>
     split_crlf ''a'' = None \<and> split_crlf [] = None"

lemmas crlf_test_defs =
  is_clrf_true_def
  is_clrf_false_def
  split_crlf_some_def
  split_crlf_none_def

definition crlf_tests :: "bool list" where
  "crlf_tests =
    [is_clrf_true,
     is_clrf_false,
     split_crlf_some,
     split_crlf_none]"

section \<open>\<^verbatim>\<open>resp/frame.rs\<close>\<close>

definition parse_bulk_string_ok_basic :: bool where
  "parse_bulk_string_ok_basic \<longleftrightarrow>
     parse_bulk_string (''foo'' @ CRLF) 3 = Inr (BulkString ''foo'', [])"

definition parse_bulk_string_ok_with_inner_terminator :: bool where
  "parse_bulk_string_ok_with_inner_terminator \<longleftrightarrow>
     parse_bulk_string (''foo'' @ CRLF @ ''bar'' @ CRLF) 8 = Inr (BulkString (''foo'' @ CRLF @ ''bar''), [])"

definition parse_bulk_string_err_missing_terminator :: bool where
  "parse_bulk_string_err_missing_terminator \<longleftrightarrow>
     parse_bulk_string ''fooXX'' 3 = Inl MissingTerminator"

definition parse_bulk_string_incomplete_while_the_payload_arrives :: bool where
  "parse_bulk_string_incomplete_while_the_payload_arrives \<longleftrightarrow>
     list_all (\<lambda>partial. parse_bulk_string partial 3 = Inl Incomplete) [[], ''fo'', ''foo'', ''foo'' @ [CR]]"

definition parse_array_ok_basic :: bool where
  "parse_array_ok_basic \<longleftrightarrow>
     parse_array (''$3'' @ CRLF @ ''foo'' @ CRLF @ ''$3'' @ CRLF @ ''bar'' @ CRLF @ ''foo'') 2 =
       Inr (Array [BulkString ''foo'', BulkString ''bar''], ''foo'')"

definition parse_array_ok_empty :: bool where
  "parse_array_ok_empty \<longleftrightarrow>
     parse_array [] 0 = Inr (Array [], [])"

definition parse_one_ok_basic_bulk_string :: bool where
  "parse_one_ok_basic_bulk_string \<longleftrightarrow>
     parse_one (''$3'' @ CRLF @ ''foo'' @ CRLF @ ''bar'') = Inr (BulkString ''foo'', ''bar'')"

definition parse_one_ok_basic_array :: bool where
  "parse_one_ok_basic_array \<longleftrightarrow>
     parse_one (''*2'' @ CRLF @ ''$3'' @ CRLF @ ''foo'' @ CRLF @ ''$3'' @ CRLF @ ''bar'' @ CRLF @ ''foo'') =
       Inr (Array [BulkString ''foo'', BulkString ''bar''], ''foo'')"

definition parse_one_ok_empty_array :: bool where
  "parse_one_ok_empty_array \<longleftrightarrow>
     parse_one (''*0'' @ CRLF) = Inr (Array [], [])"

definition parse_one_ok_nested_array :: bool where
  "parse_one_ok_nested_array \<longleftrightarrow>
     parse_one (''*1'' @ CRLF @ ''*2'' @ CRLF @ ''$3'' @ CRLF @ ''foo'' @ CRLF @ ''$3'' @ CRLF @ ''bar'' @ CRLF @ ''baz'') =
       Inr (Array [Array [BulkString ''foo'', BulkString ''bar'']], ''baz'')"

definition parse_one_err_incomplete :: bool where
  "parse_one_err_incomplete \<longleftrightarrow>
     parse_one ''foo'' = Inl Incomplete \<and> parse_one [] = Inl Incomplete"

definition parse_one_err_malformed :: bool where
  "parse_one_err_malformed \<longleftrightarrow>
     parse_one (''$'' @ CRLF) = Inl Malformed"

definition parse_one_err_invalid_length :: bool where
  "parse_one_err_invalid_length \<longleftrightarrow>
     is_length_utf8 (parse_one (''$'' @ [CHR 0xFF, CHR 0xFE] @ CRLF @ ''bar'')) \<and>
     is_length_parse_int (parse_one (''$foo'' @ CRLF @ ''bar''))"

definition parse_one_err_invalid_unknown_sigil :: bool where
  "parse_one_err_invalid_unknown_sigil \<longleftrightarrow>
     parse_one (''?2'' @ CRLF) = Inl UnknownSigil"

definition parse_one_err_invalid_missing_terminator :: bool where
  "parse_one_err_invalid_missing_terminator \<longleftrightarrow>
     parse_one (''$3'' @ CRLF @ ''fooXX'') = Inl MissingTerminator"

definition parse_one_incomplete_while_a_bulk_string_arrives :: bool where
  "parse_one_incomplete_while_a_bulk_string_arrives \<longleftrightarrow>
     list_all (\<lambda>partial. parse_one partial = Inl Incomplete)
       [''$4'' @ CRLF, ''$4'' @ CRLF @ ''PI'', ''$4'' @ CRLF @ ''PING'', ''$4'' @ CRLF @ ''PING'' @ [CR],
        ''*1'' @ CRLF @ ''$4'' @ CRLF @ ''PI'']"

definition write_to_bulk_string :: bool where
  "write_to_bulk_string \<longleftrightarrow>
     frame_write_to (BulkString ''foo'') = ''$3'' @ CRLF @ ''foo'' @ CRLF"

definition to_bytes_array :: bool where
  "to_bytes_array \<longleftrightarrow>
     frame_write_to (Array [BulkString ''foo'', BulkString ''bar'']) =
       ''*2'' @ CRLF @ ''$3'' @ CRLF @ ''foo'' @ CRLF @ ''$3'' @ CRLF @ ''bar'' @ CRLF"

lemmas frame_test_defs =
  parse_bulk_string_ok_basic_def
  parse_bulk_string_ok_with_inner_terminator_def
  parse_bulk_string_err_missing_terminator_def
  parse_bulk_string_incomplete_while_the_payload_arrives_def
  parse_array_ok_basic_def
  parse_array_ok_empty_def
  parse_one_ok_basic_bulk_string_def
  parse_one_ok_basic_array_def
  parse_one_ok_empty_array_def
  parse_one_ok_nested_array_def
  parse_one_err_incomplete_def
  parse_one_err_malformed_def
  parse_one_err_invalid_length_def
  parse_one_err_invalid_unknown_sigil_def
  parse_one_err_invalid_missing_terminator_def
  parse_one_incomplete_while_a_bulk_string_arrives_def
  write_to_bulk_string_def
  to_bytes_array_def

definition frame_tests :: "bool list" where
  "frame_tests =
    [parse_bulk_string_ok_basic,
     parse_bulk_string_ok_with_inner_terminator,
     parse_bulk_string_err_missing_terminator,
     parse_bulk_string_incomplete_while_the_payload_arrives,
     parse_array_ok_basic,
     parse_array_ok_empty,
     parse_one_ok_basic_bulk_string,
     parse_one_ok_basic_array,
     parse_one_ok_empty_array,
     parse_one_ok_nested_array,
     parse_one_err_incomplete,
     parse_one_err_malformed,
     parse_one_err_invalid_length,
     parse_one_err_invalid_unknown_sigil,
     parse_one_err_invalid_missing_terminator,
     parse_one_incomplete_while_a_bulk_string_arrives,
     write_to_bulk_string,
     to_bytes_array]"

section \<open>\<^verbatim>\<open>resp/reply.rs\<close>\<close>

definition simple_inner_from_bytes_ok :: bool where
  "simple_inner_from_bytes_ok \<longleftrightarrow>
     simple_inner_try_from ''foo'' = Inr (SimpleInner ''foo'')"

definition simple_inner_from_bytes_err_cr :: bool where
  "simple_inner_from_bytes_err_cr \<longleftrightarrow>
     simple_inner_try_from (''foo'' @ [CR]) = Inl IncludesCarriageReturn"

definition simple_inner_from_bytes_err_lf :: bool where
  "simple_inner_from_bytes_err_lf \<longleftrightarrow>
     simple_inner_try_from (''foo'' @ [LF]) = Inl IncludesLineFeed"

definition write_to_ok_simple_string :: bool where
  "write_to_ok_simple_string \<longleftrightarrow>
     (case simple_inner_try_from ''foo'' of
        Inr inner \<Rightarrow> written (SimpleString inner) = ''+foo'' @ CRLF
      | Inl _ \<Rightarrow> False)"

definition write_to_ok_simple_error :: bool where
  "write_to_ok_simple_error \<longleftrightarrow>
     (case simple_inner_try_from ''foo'' of
        Inr inner \<Rightarrow> written (SimpleError inner) = ''-foo'' @ CRLF
      | Inl _ \<Rightarrow> False)"

definition write_to_ok_bulk_string :: bool where
  "write_to_ok_bulk_string \<longleftrightarrow>
     written (ReplyBulkString (''foo'' @ CRLF @ ''bar'')) = ''$8'' @ CRLF @ ''foo'' @ CRLF @ ''bar'' @ CRLF"

definition write_to_ok_bulk_string_empty :: bool where
  "write_to_ok_bulk_string_empty \<longleftrightarrow>
     written (ReplyBulkString []) = ''$0'' @ CRLF @ CRLF"

definition write_to_ok_null_bulk :: bool where
  "write_to_ok_null_bulk \<longleftrightarrow>
     written NullBulk = ''$-1'' @ CRLF"

definition write_to_ok_integer :: bool where
  "write_to_ok_integer \<longleftrightarrow>
     written (Integer 123) = '':123'' @ CRLF"

definition write_to_ok_integer_negative :: bool where
  "write_to_ok_integer_negative \<longleftrightarrow>
     written (Integer (- 123)) = '':-123'' @ CRLF"

definition write_to_array_empty :: bool where
  "write_to_array_empty \<longleftrightarrow>
     written (ReplyArray []) = ''*0'' @ CRLF"

definition write_to_array_mixed_elements :: bool where
  "write_to_array_mixed_elements \<longleftrightarrow>
     written (ReplyArray [ReplyBulkString ''subscribe'', ReplyBulkString ''foo'', Integer 1]) =
       ''*3'' @ CRLF @ ''$9'' @ CRLF @ ''subscribe'' @ CRLF @ ''$3'' @ CRLF @ ''foo'' @ CRLF @ '':1'' @ CRLF"

definition write_to_array_nested :: bool where
  "write_to_array_nested \<longleftrightarrow>
     written (ReplyArray [ReplyArray [Integer 1], Integer 2]) =
       ''*2'' @ CRLF @ ''*1'' @ CRLF @ '':1'' @ CRLF @ '':2'' @ CRLF"

definition to_bytes_array_matches_write_to :: bool where
  "to_bytes_array_matches_write_to \<longleftrightarrow>
     (let reply = ReplyArray [ReplyBulkString ''message'', ReplyBulkString ''foo'', ReplyBulkString ''bar'']
      in reply_to_bytes reply = written reply \<and>
         reply_to_bytes reply = ''*3'' @ CRLF @ ''$7'' @ CRLF @ ''message'' @ CRLF @
           ''$3'' @ CRLF @ ''foo'' @ CRLF @ ''$3'' @ CRLF @ ''bar'' @ CRLF)"

definition to_bytes_array_empty_matches_write_to :: bool where
  "to_bytes_array_empty_matches_write_to \<longleftrightarrow>
     (let reply = ReplyArray []
      in reply_to_bytes reply = written reply \<and> reply_to_bytes reply = ''*0'' @ CRLF)"

definition replies_to_bytes_concatenates_frames_without_wrapper :: bool where
  "replies_to_bytes_concatenates_frames_without_wrapper \<longleftrightarrow>
     replies_to_bytes \<lparr>replies_inner =
       [ReplyArray [ReplyBulkString ''subscribe'', ReplyBulkString ''foo'', Integer 1],
        ReplyArray [ReplyBulkString ''subscribe'', ReplyBulkString ''bar'', Integer 2]]\<rparr> =
       ''*3'' @ CRLF @ ''$9'' @ CRLF @ ''subscribe'' @ CRLF @ ''$3'' @ CRLF @ ''foo'' @ CRLF @ '':1'' @ CRLF @
       ''*3'' @ CRLF @ ''$9'' @ CRLF @ ''subscribe'' @ CRLF @ ''$3'' @ CRLF @ ''bar'' @ CRLF @ '':2'' @ CRLF"

definition replies_to_bytes_empty_is_empty :: bool where
  "replies_to_bytes_empty_is_empty \<longleftrightarrow>
     replies_to_bytes \<lparr>replies_inner = []\<rparr> = []"

definition replies_to_bytes_matches_write_to :: bool where
  "replies_to_bytes_matches_write_to \<longleftrightarrow>
     (let replies = \<lparr>replies_inner = [Integer 1, Integer 2]\<rparr>
      in (replies_write_to vec_write_all replies [] :: (unit, unit) result \<times> bytes) =
        (Inr (), replies_to_bytes replies))"

lemmas reply_test_defs =
  simple_inner_from_bytes_ok_def
  simple_inner_from_bytes_err_cr_def
  simple_inner_from_bytes_err_lf_def
  write_to_ok_simple_string_def
  write_to_ok_simple_error_def
  write_to_ok_bulk_string_def
  write_to_ok_bulk_string_empty_def
  write_to_ok_null_bulk_def
  write_to_ok_integer_def
  write_to_ok_integer_negative_def
  write_to_array_empty_def
  write_to_array_mixed_elements_def
  write_to_array_nested_def
  to_bytes_array_matches_write_to_def
  to_bytes_array_empty_matches_write_to_def
  replies_to_bytes_concatenates_frames_without_wrapper_def
  replies_to_bytes_empty_is_empty_def
  replies_to_bytes_matches_write_to_def

definition reply_tests :: "bool list" where
  "reply_tests =
    [simple_inner_from_bytes_ok,
     simple_inner_from_bytes_err_cr,
     simple_inner_from_bytes_err_lf,
     write_to_ok_simple_string,
     write_to_ok_simple_error,
     write_to_ok_bulk_string,
     write_to_ok_bulk_string_empty,
     write_to_ok_null_bulk,
     write_to_ok_integer,
     write_to_ok_integer_negative,
     write_to_array_empty,
     write_to_array_mixed_elements,
     write_to_array_nested,
     to_bytes_array_matches_write_to,
     to_bytes_array_empty_matches_write_to,
     replies_to_bytes_concatenates_frames_without_wrapper,
     replies_to_bytes_empty_is_empty,
     replies_to_bytes_matches_write_to]"

section \<open>\<^verbatim>\<open>inbound/mod.rs\<close>\<close>

definition value_some_maps_to_bulk_string :: bool where
  "value_some_maps_to_bulk_string \<longleftrightarrow>
     reply_from_outcome (Value (Some ''foo'')) = ReplyBulkString ''foo''"

definition value_none_maps_to_null_bulk :: bool where
  "value_none_maps_to_null_bulk \<longleftrightarrow>
     reply_from_outcome (Value None) = NullBulk"

definition ok_maps_to_simple_string_ok :: bool where
  "ok_maps_to_simple_string_ok \<longleftrightarrow>
     reply_from_outcome OutcomeOk = SimpleString simple_ok"

definition pong_none_maps_to_simple_string_pong :: bool where
  "pong_none_maps_to_simple_string_pong \<longleftrightarrow>
     reply_from_outcome (Pong None) = SimpleString simple_pong"

definition pong_some_maps_to_bulk_string :: bool where
  "pong_some_maps_to_bulk_string \<longleftrightarrow>
     reply_from_outcome (Pong (Some ''hi'')) = ReplyBulkString ''hi''"

definition pong_some_with_crlf_keeps_its_bytes :: bool where
  "pong_some_with_crlf_keeps_its_bytes \<longleftrightarrow>
     reply_from_outcome (Pong (Some (''hi'' @ CRLF @ ''there''))) = ReplyBulkString (''hi'' @ CRLF @ ''there'')"

definition bool_true_maps_to_integer_one :: bool where
  "bool_true_maps_to_integer_one \<longleftrightarrow>
     reply_from_outcome (Bool True) = Integer 1"

definition bool_false_maps_to_integer_zero :: bool where
  "bool_false_maps_to_integer_zero \<longleftrightarrow>
     reply_from_outcome (Bool False) = Integer 0"

definition ttl_key_not_found_maps_to_integer_negative_two :: bool where
  "ttl_key_not_found_maps_to_integer_negative_two \<longleftrightarrow>
     reply_from_outcome (TtlOutcome KeyNotFound) = Integer (- 2)"

definition ttl_ttl_not_found_maps_to_integer_negative_one :: bool where
  "ttl_ttl_not_found_maps_to_integer_negative_one \<longleftrightarrow>
     reply_from_outcome (TtlOutcome TtlNotFound) = Integer (- 1)"

definition ttl_some_maps_to_integer :: bool where
  "ttl_some_maps_to_integer \<longleftrightarrow>
     reply_from_outcome (TtlOutcome (TtlSome (Seconds 123))) = Integer 123"

definition ttl_some_overflow_saturates_to_i64_max :: bool where
  "ttl_some_overflow_saturates_to_i64_max \<longleftrightarrow>
     reply_from_outcome (TtlOutcome (TtlSome (Seconds (- 1)))) = Integer i64_max"

definition integer_passes_through :: bool where
  "integer_passes_through \<longleftrightarrow>
     reply_from_outcome (OutcomeInteger 42) = Integer 42 \<and> reply_from_outcome (OutcomeInteger (- 7)) = Integer (- 7)"

definition subscribe_outcome_maps_to_per_channel_arrays :: bool where
  "subscribe_outcome_maps_to_per_channel_arrays \<longleftrightarrow>
     replies_inner (replies_from_channel_outcome (SubscribeOutcome
         [sub_unsub_entry_new ''foo'' 1, sub_unsub_entry_new ''bar'' 2])) =
       [ReplyArray [ReplyBulkString ''subscribe'', ReplyBulkString ''foo'', Integer 1],
        ReplyArray [ReplyBulkString ''subscribe'', ReplyBulkString ''bar'', Integer 2]]"

definition subscribe_outcome_wire_bytes :: bool where
  "subscribe_outcome_wire_bytes \<longleftrightarrow>
     replies_to_bytes (replies_from_channel_outcome (SubscribeOutcome [sub_unsub_entry_new ''foo'' 1])) =
       ''*3'' @ CRLF @ ''$9'' @ CRLF @ ''subscribe'' @ CRLF @ ''$3'' @ CRLF @ ''foo'' @ CRLF @ '':1'' @ CRLF"

definition unsubscribe_outcome_maps_to_per_channel_arrays :: bool where
  "unsubscribe_outcome_maps_to_per_channel_arrays \<longleftrightarrow>
     replies_inner (replies_from_channel_outcome (UnsubscribeOutcome [sub_unsub_entry_new ''foo'' 0])) =
       [ReplyArray [ReplyBulkString ''unsubscribe'', ReplyBulkString ''foo'', Integer 0]]"

definition unsubscribe_all_when_empty_maps_to_null_channel :: bool where
  "unsubscribe_all_when_empty_maps_to_null_channel \<longleftrightarrow>
     (let replies = replies_from_channel_outcome (UnsubscribeOutcome [sub_unsub_entry_new_null 0])
      in replies_inner replies = [ReplyArray [ReplyBulkString ''unsubscribe'', NullBulk, Integer 0]] \<and>
         replies_to_bytes replies = ''*3'' @ CRLF @ ''$11'' @ CRLF @ ''unsubscribe'' @ CRLF @ ''$-1'' @ CRLF @ '':0'' @ CRLF)"

definition publish_outcome_maps_to_single_integer :: bool where
  "publish_outcome_maps_to_single_integer \<longleftrightarrow>
     (let replies = replies_from_channel_outcome (PublishOutcome 3)
      in replies_inner replies = [Integer 3] \<and> replies_to_bytes replies = '':3'' @ CRLF)"

definition empty_subscribe_outcome_maps_to_no_replies :: bool where
  "empty_subscribe_outcome_maps_to_no_replies \<longleftrightarrow>
     (let replies = replies_from_channel_outcome (SubscribeOutcome [])
      in replies_inner replies = [] \<and> replies_to_bytes replies = [])"

lemmas outcome_test_defs =
  value_some_maps_to_bulk_string_def
  value_none_maps_to_null_bulk_def
  ok_maps_to_simple_string_ok_def
  pong_none_maps_to_simple_string_pong_def
  pong_some_maps_to_bulk_string_def
  pong_some_with_crlf_keeps_its_bytes_def
  bool_true_maps_to_integer_one_def
  bool_false_maps_to_integer_zero_def
  ttl_key_not_found_maps_to_integer_negative_two_def
  ttl_ttl_not_found_maps_to_integer_negative_one_def
  ttl_some_maps_to_integer_def
  ttl_some_overflow_saturates_to_i64_max_def
  integer_passes_through_def
  subscribe_outcome_maps_to_per_channel_arrays_def
  subscribe_outcome_wire_bytes_def
  unsubscribe_outcome_maps_to_per_channel_arrays_def
  unsubscribe_all_when_empty_maps_to_null_channel_def
  publish_outcome_maps_to_single_integer_def
  empty_subscribe_outcome_maps_to_no_replies_def

definition outcome_tests :: "bool list" where
  "outcome_tests =
    [value_some_maps_to_bulk_string,
     value_none_maps_to_null_bulk,
     ok_maps_to_simple_string_ok,
     pong_none_maps_to_simple_string_pong,
     pong_some_maps_to_bulk_string,
     pong_some_with_crlf_keeps_its_bytes,
     bool_true_maps_to_integer_one,
     bool_false_maps_to_integer_zero,
     ttl_key_not_found_maps_to_integer_negative_two,
     ttl_ttl_not_found_maps_to_integer_negative_one,
     ttl_some_maps_to_integer,
     ttl_some_overflow_saturates_to_i64_max,
     integer_passes_through,
     subscribe_outcome_maps_to_per_channel_arrays,
     subscribe_outcome_wire_bytes,
     unsubscribe_outcome_maps_to_per_channel_arrays,
     unsubscribe_all_when_empty_maps_to_null_channel,
     publish_outcome_maps_to_single_integer,
     empty_subscribe_outcome_maps_to_no_replies]"

section \<open>Evaluation\<close>

lemmas length_eval = parse_length_def from_utf8_def utf8_char_width_def parse_uint_def to_digit_def between_def

lemma show_small:
  "show_nat 0 = ''0''" "show_nat 1 = ''1''" "show_nat 2 = ''2''" "show_nat 3 = ''3''" "show_nat 4 = ''4''"
  "show_nat 5 = ''5''" "show_nat 7 = ''7''"
  "show_nat 8 = ''8''" "show_nat 9 = ''9''" "show_nat 11 = ''11''" "show_nat 13 = ''13''" "show_nat 123 = ''123''"
  using digit_bytes by (simp_all add: show_nat.simps)

text \<open>Once more for a length, which evaluates to successors.\<close>

lemmas show_lengths = show_small [unfolded eval_nat_numeral BitM.simps One_nat_def]

lemmas parse_eval = parse_one.simps parse_array_loop.simps parse_array_def parse_bulk_string_def strip_prefix_def
  split_crlf_code length_eval

lemma time_tests_hold: "list_all id time_tests"
  by (simp add: time_tests_def time_test_defs to_seconds_rounded_up_def millis_from_seconds_def div_ceil_def
      saturating_mul_def unat_max_word)

lemma crlf_tests_hold: "list_all id crlf_tests"
  by (simp add: crlf_tests_def crlf_test_defs is_crlf_def split_crlf_code)

lemma frame_tests_hold: "list_all id frame_tests"
  by (simp add: frame_tests_def frame_test_defs parse_eval show_lengths)

lemma reply_tests_hold: "list_all id reply_tests"
  by (simp add: reply_tests_def reply_test_defs written_def reply_write_to_def vec_write_all_def simple_inner_try_from_def
      show_int_def show_lengths show_small replies_to_bytes_def replies_write_to_def)

lemma outcome_tests_hold: "list_all id outcome_tests"
  by (simp add: outcome_tests_def outcome_test_defs reply_from_outcome_def replies_from_channel_outcome_def
      sub_unsub_reply_def channel_reply_def sub_unsub_entry_new_def sub_unsub_entry_new_null_def i64_clamp_def
      i64_max_def unat_max_word replies_to_bytes_def show_int_def show_lengths show_small)

end
