(* ===== verification/Tests_Executor.thy ===== *)
theory Tests_Executor
  imports Executor Tests_Cache
begin

text \<open>
  The unit tests of \<^verbatim>\<open>domain/executor.rs\<close> on a fresh cache and the recording repository of
  \<^verbatim>\<open>test_support.rs\<close>, and the proof that the model passes them.
\<close>

section \<open>The recording repository\<close>

definition recording_append :: "(unit, write_command list, unit) append_op" where
  "recording_append command appended w = (Inr (), appended @ [command], w)"

interpretation recording: cache_repository recording_append "\<lambda>appended. appended" "\<lambda>_. True" "\<lambda>_. True"
  by unfold_locales (simp add: recording_append_def)

section \<open>Scripts\<close>

text \<open>As for the cache, with the executor and the cache it shares as the state.\<close>

type_synonym service_script = "write_command list executor \<Rightarrow> clock \<Rightarrow> bool"

definition finishes :: service_script where
  "finishes svc clk \<longleftrightarrow> True"

definition executes :: "cache_command \<Rightarrow> (command_outcome \<Rightarrow> bool) \<Rightarrow> service_script \<Rightarrow> service_script" where
  "executes cmd P k svc clk =
    (case (execute cmd svc clk :: (unit execute_error, command_outcome) result \<times> _) of
       (Inl _, svc, clk) \<Rightarrow> False
     | (Inr outcome, svc, clk) \<Rightarrow> P outcome \<and> k svc clk)"

definition executes_logged :: "cache_command \<Rightarrow> (command_outcome \<Rightarrow> bool) \<Rightarrow> service_script \<Rightarrow> service_script" where
  "executes_logged cmd P k svc clk =
    (case execute_logged recording_append cmd svc clk () of
       (Inl _, svc, clk, _) \<Rightarrow> False
     | (Inr outcome, svc, clk, _) \<Rightarrow> P outcome \<and> k svc clk)"

definition on_cache :: "(cache \<Rightarrow> clock \<Rightarrow> 'a cache_answer) \<Rightarrow> ('a \<Rightarrow> bool) \<Rightarrow> service_script \<Rightarrow> service_script" where
  "on_cache op P k svc clk =
    (case op (exec_cache svc) clk of
       (Inl _, c, clk) \<Rightarrow> False
     | (Inr x, c, clk) \<Rightarrow> P x \<and> k (svc\<lparr>exec_cache := c\<rparr>) clk)"

definition log_that :: "(write_command list \<Rightarrow> bool) \<Rightarrow> service_script \<Rightarrow> service_script" where
  "log_that P k svc clk \<longleftrightarrow> P (exec_repo svc) \<and> k svc clk"

definition in_a_minute :: "(milliseconds \<Rightarrow> service_script) \<Rightarrow> service_script" where
  "in_a_minute k svc clk =
    (case now clk of
       (Inl _, clk) \<Rightarrow> False
     | (Inr t, clk) \<Rightarrow> k (ms_saturating_add t (Milliseconds 60000)) svc clk)"

definition starts_with :: "write_command \<Rightarrow> write_command list \<Rightarrow> bool" where
  "starts_with wc log = (case log of [] \<Rightarrow> False | wc' # _ \<Rightarrow> wc' = wc)"

definition build :: "write_command list executor" where
  "build = executor_new (cache_new []) []"

lemmas service_script_defs =
  finishes_def executes_def executes_logged_def on_cache_def log_that_def in_a_minute_def starts_with_def build_def
  recording_append_def

section \<open>The tests\<close>

definition executor_get_miss_returns_value_none :: "clock \<Rightarrow> bool" where
  "executor_get_miss_returns_value_none clk \<longleftrightarrow>
     executes (Read (Get ''missing'')) (\<lambda>x. x = Value None) finishes build clk"

definition execute_set_writes_to_cache :: "clock \<Rightarrow> bool" where
  "execute_set_writes_to_cache clk \<longleftrightarrow>
     (executes (Write (Set ''foo'' ''bar'' None)) (\<lambda>_. True) \<circ>
      on_cache (cache_get ''foo'') (\<lambda>x. x = Some (entry_new ''bar'' None))) finishes build clk"

definition execute_set_with_deadline_writes_it_through :: "clock \<Rightarrow> bool" where
  "execute_set_with_deadline_writes_it_through clk \<longleftrightarrow>
     in_a_minute (\<lambda>deadline.
       (executes (Write (Set ''foo'' ''bar'' (Some deadline))) (\<lambda>_. True) \<circ>
        on_cache (cache_expires_at ''foo'') (\<lambda>x. x = Some (Some deadline))) finishes) build clk"

definition execute_plain_set_clears_an_existing_ttl :: "clock \<Rightarrow> bool" where
  "execute_plain_set_clears_an_existing_ttl clk \<longleftrightarrow>
     in_a_minute (\<lambda>deadline.
       (on_cache (untimed (cache_insert ''foo'' (entry_new ''bar'' (Some deadline)))) (\<lambda>_. True) \<circ>
        executes (Write (Set ''foo'' ''baz'' None)) (\<lambda>_. True) \<circ>
        on_cache (cache_expires_at ''foo'') (\<lambda>x. x = Some None)) finishes) build clk"

definition execute_does_not_append_to_repo :: "clock \<Rightarrow> bool" where
  "execute_does_not_append_to_repo clk \<longleftrightarrow>
     (executes (Write (Set ''foo'' ''bar'' None)) (\<lambda>_. True) \<circ>
      executes (Write (Delete ''foo'')) (\<lambda>_. True) \<circ>
      executes (Write (ExpireAt ''foo'' (Milliseconds (- 1)))) (\<lambda>_. True) \<circ>
      log_that (\<lambda>log. log = [])) finishes build clk"

definition execute_logged_set_appends :: "clock \<Rightarrow> bool" where
  "execute_logged_set_appends clk \<longleftrightarrow>
     (executes_logged (Write (Set ''foo'' ''bar'' None)) (\<lambda>_. True) \<circ>
      log_that (\<lambda>log. log = [Set ''foo'' ''bar'' None])) finishes build clk"

definition execute_logged_delete_appends :: "clock \<Rightarrow> bool" where
  "execute_logged_delete_appends clk \<longleftrightarrow>
     (executes_logged (Write (Delete ''foo'')) (\<lambda>_. True) \<circ>
      log_that (starts_with (Delete ''foo''))) finishes build clk"

definition execute_logged_expire_at_appends :: "clock \<Rightarrow> bool" where
  "execute_logged_expire_at_appends clk \<longleftrightarrow>
     (on_cache (untimed (cache_insert ''foo'' (entry_new ''bar'' None))) (\<lambda>_. True) \<circ>
      executes_logged (Write (ExpireAt ''foo'' (Milliseconds (- 1)))) (\<lambda>_. True) \<circ>
      log_that (starts_with (ExpireAt ''foo'' (Milliseconds (- 1))))) finishes build clk"

definition execute_logged_persist_appends :: "clock \<Rightarrow> bool" where
  "execute_logged_persist_appends clk \<longleftrightarrow>
     (executes_logged (Write (Persist ''foo'')) (\<lambda>_. True) \<circ>
      log_that (starts_with (Persist ''foo''))) finishes build clk"

definition execute_logged_get_does_not_append :: "clock \<Rightarrow> bool" where
  "execute_logged_get_does_not_append clk \<longleftrightarrow>
     (executes_logged (Read (Get ''foo'')) (\<lambda>_. True) \<circ>
      log_that (\<lambda>log. log = [])) finishes build clk"

definition execute_logged_exists_does_not_append :: "clock \<Rightarrow> bool" where
  "execute_logged_exists_does_not_append clk \<longleftrightarrow>
     (executes_logged (Read (Exists ''foo'')) (\<lambda>_. True) \<circ>
      log_that (\<lambda>log. log = [])) finishes build clk"

definition execute_logged_ttl_does_not_append :: "clock \<Rightarrow> bool" where
  "execute_logged_ttl_does_not_append clk \<longleftrightarrow>
     (executes_logged (Read (Ttl ''foo'')) (\<lambda>_. True) \<circ>
      log_that (\<lambda>log. log = [])) finishes build clk"

definition execute_logged_set_returns_ok_outcome :: "clock \<Rightarrow> bool" where
  "execute_logged_set_returns_ok_outcome clk \<longleftrightarrow>
     executes_logged (Write (Set ''foo'' ''bar'' None)) (\<lambda>x. x = OutcomeOk) finishes build clk"

lemmas executor_test_defs =
  executor_get_miss_returns_value_none_def
  execute_set_writes_to_cache_def
  execute_set_with_deadline_writes_it_through_def
  execute_plain_set_clears_an_existing_ttl_def
  execute_does_not_append_to_repo_def
  execute_logged_set_appends_def
  execute_logged_delete_appends_def
  execute_logged_expire_at_appends_def
  execute_logged_persist_appends_def
  execute_logged_get_does_not_append_def
  execute_logged_exists_does_not_append_def
  execute_logged_ttl_does_not_append_def
  execute_logged_set_returns_ok_outcome_def

definition executor_tests :: "(clock \<Rightarrow> bool) list" where
  "executor_tests =
    [executor_get_miss_returns_value_none,
     execute_set_writes_to_cache,
     execute_set_with_deadline_writes_it_through,
     execute_plain_set_clears_an_existing_ttl,
     execute_does_not_append_to_repo,
     execute_logged_set_appends,
     execute_logged_delete_appends,
     execute_logged_expire_at_appends,
     execute_logged_persist_appends,
     execute_logged_get_does_not_append,
     execute_logged_exists_does_not_append,
     execute_logged_ttl_does_not_append,
     execute_logged_set_returns_ok_outcome]"

section \<open>The suite\<close>

lemma test_clock_end: "test_clock clk \<Longrightarrow> \<not> Milliseconds (- 1) \<le> tick clk n"
  by (auto simp: test_clock_def millis_le_nat unat_max_word not_le intro: le_less_trans)

lemma test_clock_minute:
  assumes "test_clock clk"
  shows "\<not> ms_saturating_add (tick clk m) (Milliseconds 60000) \<le> tick clk n"
proof -
  have "millis_from_seconds (Seconds 60) = Milliseconds 60000"
    by (simp add: millis_from_seconds_def saturating_mul_def)
  with test_clock_ahead [OF assms, of 60 m n] show ?thesis by simp
qed

lemma executor_tests_hold:
  assumes "test_clock clk"
  shows "list_all (\<lambda>test. test clk) executor_tests"
  by (simp add: executor_tests_def executor_test_defs service_script_defs execute_def execute_logged_def
      executor_new_def operation_defs store_defs script_defs test_clock_readings [OF assms] test_clock_end [OF assms]
      test_clock_minute [OF assms])

end
