(* ===== verification/Tests_Session.thy ===== *)
theory Tests_Session
  imports Tests_Wire Tests_Command Tests_Executor Pipelining Server "HOL-Library.Multiset"
begin

text \<open>
  The unit tests of \<^verbatim>\<open>domain/channels.rs\<close> and \<^verbatim>\<open>inbound/session.rs\<close>, and the proof that the model passes
  them.  A receiver that would block for ever fails its test.
\<close>

section \<open>Scripts on a registry\<close>

type_synonym channel_script = "channels \<Rightarrow> mailboxes \<Rightarrow> bool"

definition finished :: channel_script where
  "finished cs boxes \<longleftrightarrow> True"

definition checked :: "bool \<Rightarrow> channel_script \<Rightarrow> channel_script" where
  "checked b k cs boxes \<longleftrightarrow> b \<and> k cs boxes"

definition opened :: "sender \<Rightarrow> channel_script \<Rightarrow> channel_script" where
  "opened a k cs boxes = k cs (boxes(a := \<lparr>mbox_queue = [], mbox_open = True\<rparr>))"

definition joins :: "32 word \<Rightarrow> sender \<Rightarrow> bytes \<Rightarrow> channel_script \<Rightarrow> channel_script" where
  "joins i a ch k cs boxes =
    (case channels_subscribe ch (subscriber_new i a) cs of
       (Inl _, cs) \<Rightarrow> False
     | (Inr _, cs) \<Rightarrow> k cs boxes)"

definition subscribed :: "32 word \<Rightarrow> sender \<Rightarrow> bytes \<Rightarrow> channel_script \<Rightarrow> channel_script" where
  "subscribed i a ch = opened a \<circ> joins i a ch"

definition unsubscribed :: "bytes \<Rightarrow> 32 word \<Rightarrow> channel_script \<Rightarrow> channel_script" where
  "unsubscribed ch i k cs boxes =
    (case channels_unsubscribe ch i cs of
       (Inl _, cs) \<Rightarrow> False
     | (Inr _, cs) \<Rightarrow> k cs boxes)"

definition publishes :: "bytes \<Rightarrow> bytes \<Rightarrow> 32 word \<Rightarrow> channel_script \<Rightarrow> channel_script" where
  "publishes message ch n k cs boxes =
    (case channels_publish message ch cs boxes of
       (Inl _, cs, boxes) \<Rightarrow> False
     | (Inr m, cs, boxes) \<Rightarrow> m = n \<and> k cs boxes)"

definition receives :: "sender \<Rightarrow> bytes \<Rightarrow> channel_script \<Rightarrow> channel_script" where
  "receives a message k cs boxes =
    (case mbox_queue (boxes a) of
       [] \<Rightarrow> False
     | m # queue \<Rightarrow> m = message \<and> k cs (boxes(a := (boxes a)\<lparr>mbox_queue := queue\<rparr>)))"

definition receives_nothing :: "sender \<Rightarrow> channel_script \<Rightarrow> channel_script" where
  "receives_nothing a k cs boxes \<longleftrightarrow> mbox_queue (boxes a) = [] \<and> k cs boxes"

definition receiver_dropped :: "sender \<Rightarrow> channel_script \<Rightarrow> channel_script" where
  "receiver_dropped a k cs boxes = k cs (boxes(a := \<lparr>mbox_queue = [], mbox_open = False\<rparr>))"

definition on_new_registry :: "channel_script \<Rightarrow> bool" where
  "on_new_registry k = k channels_new (\<lambda>_. \<lparr>mbox_queue = [], mbox_open = False\<rparr>)"

section \<open>Scripts with sessions\<close>

definition session_opened :: "32 word \<Rightarrow> sender \<Rightarrow> (read_half \<Rightarrow> channel_script) \<Rightarrow> channel_script" where
  "session_opened i a k cs boxes = (case session_split i [] a boxes of (rh, boxes) \<Rightarrow> k rh cs boxes)"

definition commands ::
    "channel_command \<Rightarrow> read_half \<Rightarrow> (channel_command_outcome \<Rightarrow> read_half \<Rightarrow> channel_script) \<Rightarrow>
      channel_script" where
  "commands cmd rh k cs boxes =
    (case execute_channel_command cmd rh cs boxes of
       (Inl _, rh, cs, boxes) \<Rightarrow> False
     | (Inr outcome, rh, cs, boxes) \<Rightarrow> k outcome rh cs boxes)"

definition leaves_all ::
    "read_half \<Rightarrow> ((channels_error, unit) result list \<Rightarrow> channel_script) \<Rightarrow> channel_script" where
  "leaves_all rh k cs boxes = (case unsubscribe_from_all rh cs of (results, cs) \<Rightarrow> k results cs boxes)"

definition counts :: "channel_command_outcome \<Rightarrow> nat list option" where
  "counts outcome =
    (case outcome of
       SubscribeOutcome inner \<Rightarrow> Some (map subscription_count inner)
     | UnsubscribeOutcome inner \<Rightarrow> Some (map subscription_count inner)
     | PublishOutcome _ \<Rightarrow> None)"

definition channel_ids :: "channel_command_outcome \<Rightarrow> bytes option list option" where
  "channel_ids outcome =
    (case outcome of
       SubscribeOutcome inner \<Rightarrow> Some (map channel_id inner)
     | UnsubscribeOutcome inner \<Rightarrow> Some (map channel_id inner)
     | PublishOutcome _ \<Rightarrow> None)"

text \<open>A whole session on one input, with the recording repository, and the bytes its writer has written.\<close>

definition recording_exec :: "(unit, write_command list executor) execute_op" where
  "recording_exec cmd svc clk =
    (case execute_logged recording_append cmd svc clk () of (r, svc, clk, _) \<Rightarrow> (r, svc, clk))"

definition replies_to :: "bytes \<Rightarrow> clock \<Rightarrow> bytes option" where
  "replies_to input clk =
    (case session_split 1 [Chunk input] 0 (\<lambda>_. \<lparr>mbox_queue = [], mbox_open = False\<rparr>) of
       (rh, boxes) \<Rightarrow>
         (case session_repl recording_exec (sconst False) rh
            \<lparr>w_exec = build, w_channels = channels_new, w_boxes = boxes, w_clock = clk\<rparr> of
            (Inl _, w) \<Rightarrow> None
          | (Inr _, w) \<Rightarrow>
              (let queue = mbox_queue (w_boxes w 0)
               in case writer_loop (replicate (length queue) False) queue \<lparr>bw_buf = [], bw_file = []\<rparr> io_ok of
                    (_, wr, _) \<Rightarrow> Some (bw_file wr))))"

lemmas channel_script_defs =
  finished_def checked_def opened_def joins_def subscribed_def unsubscribed_def publishes_def receives_def
  receives_nothing_def receiver_dropped_def session_opened_def commands_def leaves_all_def counts_def channel_ids_def

section \<open>\<^verbatim>\<open>domain/channels.rs\<close>\<close>

definition subscribe_then_publish_delivers_payload :: bool where
  "subscribe_then_publish_delivers_payload \<longleftrightarrow>
     on_new_registry ((subscribed 1 0 ''foo'' \<circ>
      publishes ''hello'' ''foo'' 1 \<circ>
      receives 0 ''hello'') finished)"

definition publish_to_unknown_channel_reaches_zero :: bool where
  "publish_to_unknown_channel_reaches_zero \<longleftrightarrow>
     on_new_registry (publishes ''hello'' ''nope'' 0 finished)"

definition publish_only_reaches_subscribers_of_that_channel :: bool where
  "publish_only_reaches_subscribers_of_that_channel \<longleftrightarrow>
     on_new_registry ((subscribed 1 0 ''foo'' \<circ>
      subscribed 2 1 ''bar'' \<circ>
      publishes ''hi'' ''foo'' 1 \<circ>
      receives 0 ''hi'') finished)"

definition multiple_subscribers_all_receive_and_count :: bool where
  "multiple_subscribers_all_receive_and_count \<longleftrightarrow>
     on_new_registry ((subscribed 1 0 ''foo'' \<circ>
      subscribed 2 1 ''foo'' \<circ>
      publishes ''yo'' ''foo'' 2 \<circ>
      receives 0 ''yo'' \<circ>
      receives 1 ''yo'') finished)"

definition unsubscribe_stops_delivery :: bool where
  "unsubscribe_stops_delivery \<longleftrightarrow>
     on_new_registry ((subscribed 1 0 ''foo'' \<circ>
      unsubscribed ''foo'' 1 \<circ>
      publishes ''hi'' ''foo'' 0 \<circ>
      receives_nothing 0) finished)"

definition resubscribe_same_id_is_idempotent :: bool where
  "resubscribe_same_id_is_idempotent \<longleftrightarrow>
     on_new_registry ((opened 0 \<circ>
      joins 1 0 ''foo'' \<circ>
      joins 1 0 ''foo'' \<circ>
      publishes ''hi'' ''foo'' 1 \<circ>
      receives 0 ''hi'') finished)"

definition publish_prunes_dead_subscribers :: bool where
  "publish_prunes_dead_subscribers \<longleftrightarrow>
     on_new_registry ((subscribed 1 0 ''foo'' \<circ>
      subscribed 2 1 ''foo'' \<circ>
      receiver_dropped 1 \<circ>
      publishes ''one'' ''foo'' 1 \<circ>
      receives 0 ''one'' \<circ>
      publishes ''two'' ''foo'' 1 \<circ>
      receives 0 ''two'') finished)"

definition unsubscribe_unknown_channel_is_noop :: bool where
  "unsubscribe_unknown_channel_is_noop \<longleftrightarrow>
     on_new_registry (unsubscribed ''ghost'' 1 finished)"

section \<open>\<^verbatim>\<open>inbound/session.rs\<close>\<close>

definition ping_answers_pong_as_a_simple_string :: "clock \<Rightarrow> bool" where
  "ping_answers_pong_as_a_simple_string clk \<longleftrightarrow>
     replies_to (''*1'' @ CRLF @ ''$4'' @ CRLF @ ''PING'' @ CRLF) clk = Some (''+PONG'' @ CRLF)"

definition ping_with_a_message_echoes_it_as_a_bulk_string :: "clock \<Rightarrow> bool" where
  "ping_with_a_message_echoes_it_as_a_bulk_string clk \<longleftrightarrow>
     replies_to (''*2'' @ CRLF @ ''$4'' @ CRLF @ ''PING'' @ CRLF @ ''$5'' @ CRLF @ ''hello'' @ CRLF) clk =
       Some (''$5'' @ CRLF @ ''hello'' @ CRLF)"

definition ping_echoes_crlf_in_its_message_unchanged :: "clock \<Rightarrow> bool" where
  "ping_echoes_crlf_in_its_message_unchanged clk \<longleftrightarrow>
     replies_to (''*2'' @ CRLF @ ''$4'' @ CRLF @ ''PING'' @ CRLF @ ''$4'' @ CRLF @ ''a'' @ CRLF @ ''b'' @ CRLF) clk =
       Some (''$4'' @ CRLF @ ''a'' @ CRLF @ ''b'' @ CRLF)"

definition subscribe_emits_one_entry_per_channel_with_climbing_count :: bool where
  "subscribe_emits_one_entry_per_channel_with_climbing_count \<longleftrightarrow>
     on_new_registry (
     session_opened 1 0 (\<lambda>rh.
       commands (Subscribe [''a'', ''b'', ''c'']) rh (\<lambda>outcome rh.
         checked (channel_ids outcome = Some [Some ''a'', Some ''b'', Some ''c''] \<and>
           counts outcome = Some [1, 2, 3]) finished)))"

definition subscribe_count_is_session_total_across_calls :: bool where
  "subscribe_count_is_session_total_across_calls \<longleftrightarrow>
     on_new_registry (
     session_opened 1 0 (\<lambda>rh.
       commands (Subscribe [''a'']) rh (\<lambda>_ rh.
       commands (Subscribe [''b'']) rh (\<lambda>outcome rh.
         checked (counts outcome = Some [2]) finished))))"

definition resubscribe_same_channel_does_not_climb :: bool where
  "resubscribe_same_channel_does_not_climb \<longleftrightarrow>
     on_new_registry (
     session_opened 1 0 (\<lambda>rh.
       commands (Subscribe [''foo'']) rh (\<lambda>_ rh.
       commands (Subscribe [''foo'']) rh (\<lambda>outcome rh.
         checked (counts outcome = Some [1]) finished))))"

definition unsubscribe_descends_count :: bool where
  "unsubscribe_descends_count \<longleftrightarrow>
     on_new_registry (
     session_opened 1 0 (\<lambda>rh.
       commands (Subscribe [''a'', ''b'', ''c'']) rh (\<lambda>_ rh.
       commands (Unsubscribe [''a'', ''c'']) rh (\<lambda>outcome rh.
         checked (counts outcome = Some [2, 1]) finished))))"

definition unsubscribe_no_args_leaves_every_channel :: bool where
  "unsubscribe_no_args_leaves_every_channel \<longleftrightarrow>
     on_new_registry (
     session_opened 1 0 (\<lambda>rh.
       commands (Subscribe [''a'', ''b'', ''c'']) rh (\<lambda>_ rh.
       commands (Unsubscribe []) rh (\<lambda>outcome rh.
         (checked (counts outcome = Some [2, 1, 0]) \<circ>
          checked (case channel_ids outcome of
             Some ids \<Rightarrow> mset (List.map_filter id ids) = mset [''a'', ''b'', ''c'']
           | None \<Rightarrow> False) \<circ>
          publishes ''x'' ''a'' 0 \<circ> publishes ''x'' ''b'' 0 \<circ> publishes ''x'' ''c'' 0) finished))))"

definition unsubscribe_no_args_while_subscribed_to_nothing_acks_null_channel :: bool where
  "unsubscribe_no_args_while_subscribed_to_nothing_acks_null_channel \<longleftrightarrow>
     on_new_registry (
     session_opened 1 0 (\<lambda>rh.
       commands (Unsubscribe []) rh (\<lambda>outcome rh.
         checked (case outcome of
             UnsubscribeOutcome inner \<Rightarrow>
               length inner = 1 \<and> channel_id (inner ! 0) = None \<and> subscription_count (inner ! 0) = 0
           | _ \<Rightarrow> False) finished)))"

definition publish_delivers_message_array_to_subscriber_and_counts :: bool where
  "publish_delivers_message_array_to_subscriber_and_counts \<longleftrightarrow>
     on_new_registry (
     session_opened 1 0 (\<lambda>subscriber.
     session_opened 2 1 (\<lambda>publisher.
       commands (Subscribe [''foo'']) subscriber (\<lambda>_ subscriber.
       commands (Publish ''foo'' ''bar'') publisher (\<lambda>outcome publisher.
         (checked (outcome = PublishOutcome 1) \<circ>
          receives 0 (reply_to_bytes (ReplyArray
            [ReplyBulkString ''message'', ReplyBulkString ''foo'', ReplyBulkString ''bar'']))) finished)))))"

definition publish_to_no_subscribers_reaches_zero :: bool where
  "publish_to_no_subscribers_reaches_zero \<longleftrightarrow>
     on_new_registry (
     session_opened 1 0 (\<lambda>rh.
       commands (Publish ''foo'' ''bar'') rh (\<lambda>outcome rh.
         checked (outcome = PublishOutcome 0) finished)))"

definition unsubscribe_from_all_removes_session_from_registry :: bool where
  "unsubscribe_from_all_removes_session_from_registry \<longleftrightarrow>
     on_new_registry (
     session_opened 1 0 (\<lambda>rh.
       commands (Subscribe [''foo'', ''bar'']) rh (\<lambda>_ rh.
       leaves_all rh (\<lambda>results.
         (checked (list_all (\<lambda>r. r = Inr ()) results) \<circ>
          publishes ''x'' ''foo'' 0 \<circ> publishes ''x'' ''bar'' 0) finished))))"

lemmas channel_test_defs =
  subscribe_then_publish_delivers_payload_def
  publish_to_unknown_channel_reaches_zero_def
  publish_only_reaches_subscribers_of_that_channel_def
  multiple_subscribers_all_receive_and_count_def
  unsubscribe_stops_delivery_def
  resubscribe_same_id_is_idempotent_def
  publish_prunes_dead_subscribers_def
  unsubscribe_unknown_channel_is_noop_def

lemmas session_test_defs =
  subscribe_emits_one_entry_per_channel_with_climbing_count_def
  subscribe_count_is_session_total_across_calls_def
  resubscribe_same_channel_does_not_climb_def
  unsubscribe_descends_count_def
  unsubscribe_no_args_leaves_every_channel_def
  unsubscribe_no_args_while_subscribed_to_nothing_acks_null_channel_def
  publish_delivers_message_array_to_subscriber_and_counts_def
  publish_to_no_subscribers_reaches_zero_def
  unsubscribe_from_all_removes_session_from_registry_def

definition channel_tests :: "bool list" where
  "channel_tests =
    [subscribe_then_publish_delivers_payload,
     publish_to_unknown_channel_reaches_zero,
     publish_only_reaches_subscribers_of_that_channel,
     multiple_subscribers_all_receive_and_count,
     unsubscribe_stops_delivery,
     resubscribe_same_id_is_idempotent,
     publish_prunes_dead_subscribers,
     unsubscribe_unknown_channel_is_noop]"

definition session_tests :: "bool list" where
  "session_tests =
    [subscribe_emits_one_entry_per_channel_with_climbing_count,
     subscribe_count_is_session_total_across_calls,
     resubscribe_same_channel_does_not_climb,
     unsubscribe_descends_count,
     unsubscribe_no_args_leaves_every_channel,
     unsubscribe_no_args_while_subscribed_to_nothing_acks_null_channel,
     publish_delivers_message_array_to_subscriber_and_counts,
     publish_to_no_subscribers_reaches_zero,
     unsubscribe_from_all_removes_session_from_registry]"

definition ping_tests :: "(clock \<Rightarrow> bool) list" where
  "ping_tests =
    [ping_answers_pong_as_a_simple_string,
     ping_with_a_message_echoes_it_as_a_bulk_string,
     ping_echoes_crlf_in_its_message_unchanged]"

section \<open>The suites\<close>

lemmas registry_eval = channels_new_def channels_subscribe_def channels_unsubscribe_def channels_publish_def
  subscriber_new_def registry_insert_def registry_remove_def sender_send_def saturating_add_def on_new_registry_def

lemma channel_tests_hold: "list_all id channel_tests"
  by (simp add: channel_tests_def channel_test_defs channel_script_defs registry_eval)

lemma session_tests_hold: "list_all id session_tests"
  by (simp add: session_tests_def session_test_defs channel_script_defs registry_eval execute_channel_command_def
      session_split_def subscriber_from_read_half_def unsubscribe_from_all_def sub_unsub_entry_new_def
      sub_unsub_entry_new_null_def message_push_def List.map_filter_def)

lemma replies_to_frame:
  assumes "frame_fits f" "frame_write_to f = input" "input \<noteq> []"
    and "serve_one recording_exec f build clk = Some (answer, x, clk')"
  shows "replies_to input clk = Some answer"
proof -
  let ?boxes = "(\<lambda>_. \<lparr>mbox_queue = [], mbox_open = False\<rparr>)(0 := \<lparr>mbox_queue = [], mbox_open = True\<rparr>)"
  let ?rh = "\<lparr>rh_id = 1, rh_reader = session_reader_new [Chunk input], rh_sender = 0, rh_subscriptions = []\<rparr>"
  let ?w = "\<lparr>w_exec = build, w_channels = channels_new, w_boxes = ?boxes, w_clock = clk\<rparr>"
  have "serve recording_exec [f] (w_exec ?w) (w_clock ?w) = Some ([answer], x, clk')" using assms(4) by simp
  moreover have "stream_bytes (rh_reader ?rh) = concat (map frame_write_to [f])" "list_all frame_fits [f]"
      "proper_chunks (rh_reader ?rh)" "only_timeouts (rh_reader ?rh)" "mbox_open (w_boxes ?w (rh_sender ?rh))"
    using assms(1-3)
    by (simp_all add: stream_bytes_def session_reader_new_def proper_chunks_def only_timeouts_def)
  ultimately obtain sr where loop: "repl_loop recording_exec (sconst False) ?rh ?w = (Inr (), ?rh\<lparr>rh_reader := sr\<rparr>,
      ?w\<lparr>w_exec := x, w_boxes := queued (rh_sender ?rh) [answer] (w_boxes ?w), w_clock := clk'\<rparr>)"
    using repl_loop_serves [of ?rh "[f]" ?w recording_exec] by blast
  obtain wr where "writer_turn False [answer] \<lparr>bw_buf = [], bw_file = []\<rparr> io_ok = (WriterWrote, [], wr, io_ok)"
      "bw_file wr = answer"
    using writer_turn_ok [of answer "[]" "\<lparr>bw_buf = [], bw_file = []\<rparr>"] by auto
  with loop show ?thesis
    by (simp add: replies_to_def session_split_def session_repl_def unsubscribe_from_all_def)
qed

lemma ping_frame:
  "command_try_from (words [''PING'']) clk = (Inr (Ping None), clk)"
  "command_try_from (words [''PING'', message]) clk = (Inr (Ping (Some message)), clk)"
  by (simp_all add: command_try_from_def dispatch_verb_def parse_ping_def command_defs lower_eval)

lemma ping_tests_hold: "list_all (\<lambda>test. test clk) ping_tests"
proof -
  have "replies_to (frame_write_to (words [''PING''])) clk = Some (''+PONG'' @ CRLF)"
    by (rule replies_to_frame [OF _ refl]) (simp_all add: serve_one_def ping_frame [simplified] reply_from_outcome_def simple_pong_def)
  moreover have "replies_to (frame_write_to (words [''PING'', message])) clk =
      Some (reply_to_bytes (ReplyBulkString message))" if "length message < 2 ^ 64" for message
    using that
    by (intro replies_to_frame [OF _ refl]) (simp_all add: serve_one_def ping_frame [simplified] reply_from_outcome_def)
  from this [of "''hello''"] this [of "''a'' @ CRLF @ ''b''"]
  have "replies_to (frame_write_to (words [''PING'', ''hello''])) clk = Some (''$5'' @ CRLF @ ''hello'' @ CRLF)"
    "replies_to (frame_write_to (words [''PING'', ''a'' @ CRLF @ ''b''])) clk =
      Some (''$4'' @ CRLF @ ''a'' @ CRLF @ ''b'' @ CRLF)"
    by (simp_all add: show_lengths)
  ultimately show ?thesis
    by (simp add: ping_tests_def ping_answers_pong_as_a_simple_string_def ping_with_a_message_echoes_it_as_a_bulk_string_def ping_echoes_crlf_in_its_message_unchanged_def show_lengths)
qed

end
