(* ===== verification/Tests_Persister.thy ===== *)
theory Tests_Persister
  imports Tests_Wire Tests_Executor Interleaving
begin

text \<open>
  The unit tests of \<^verbatim>\<open>outbound/persister\<close> on a file system that works, and the proof that the model passes
  them.  The tests of the snapshot use the serialiser, so they are stated for every one that decodes what
  it has encoded and that does encode the maps of the tests.
\<close>

section \<open>Scripts on a log\<close>

type_synonym log_script = "persister_inner \<Rightarrow> clock \<Rightarrow> bool"

definition settled :: log_script where
  "settled p clk \<longleftrightarrow> True"

definition on_fresh_log :: "log_script \<Rightarrow> clock \<Rightarrow> bool" where
  "on_fresh_log k clk =
    (case persister_inner_try_from None io_ok of
       (Inl _, _, _) \<Rightarrow> False
     | (Inr p, _, _) \<Rightarrow> k p clk)"

definition appends :: "write_command \<Rightarrow> log_script \<Rightarrow> log_script" where
  "appends wc k p clk =
    (case aof_append wc p io_ok of
       (Inl _, p, _) \<Rightarrow> False
     | (Inr _, p, _) \<Rightarrow> k p clk)"

definition clears :: "log_script \<Rightarrow> log_script" where
  "clears k p clk =
    (case aof_clear p io_ok of
       (Inl _, p, _) \<Rightarrow> False
     | (Inr _, p, _) \<Rightarrow> k p clk)"

definition file_that :: "(bytes \<Rightarrow> bool) \<Rightarrow> log_script \<Rightarrow> log_script" where
  "file_that P k p clk \<longleftrightarrow> P (bw_file (writer p)) \<and> k p clk"

definition file_is :: "bytes \<Rightarrow> log_script \<Rightarrow> log_script" where
  "file_is bs = file_that (\<lambda>bs'. bs' = bs)"

text \<open>Bytes written by another handle, past the writer.\<close>

definition written_past :: "bytes \<Rightarrow> log_script \<Rightarrow> log_script" where
  "written_past bs k p clk = k (p\<lparr>writer := (writer p)\<lparr>bw_file := bw_file (writer p) @ bs\<rparr>\<rparr>) clk"

definition replays :: "script \<Rightarrow> log_script" where
  "replays k p clk =
    (case aof_replay p (cache_new []) clk io_ok of
       (Inl _, c, clk, _) \<Rightarrow> False
     | (Inr _, c, clk, _) \<Rightarrow> k c clk)"

definition replay_fails :: "(aof_error \<Rightarrow> bool) \<Rightarrow> log_script" where
  "replay_fails P p clk =
    (case aof_replay p (cache_new []) clk io_ok of
       (Inl e, _) \<Rightarrow> P e
     | (Inr _, _) \<Rightarrow> False)"

fun is_frame_error :: "aof_error \<Rightarrow> bool" where
  "is_frame_error (AofFrame _) \<longleftrightarrow> True"
| "is_frame_error _ \<longleftrightarrow> False"

section \<open>\<^verbatim>\<open>aof.rs\<close>\<close>

definition append_writes_resp_frame_to_disk :: "clock \<Rightarrow> bool" where
  "append_writes_resp_frame_to_disk clk \<longleftrightarrow> on_fresh_log
     ((appends (Set ''foo'' ''bar'' None) \<circ>
      file_is (''*3'' @ CRLF @ ''$3'' @ CRLF @ ''SET'' @ CRLF @ ''$3'' @ CRLF @ ''foo'' @ CRLF @ ''$3'' @ CRLF @ ''bar'' @ CRLF))
      settled) clk"

definition append_reaches_the_file_before_it_returns :: "clock \<Rightarrow> bool" where
  "append_reaches_the_file_before_it_returns clk \<longleftrightarrow> on_fresh_log
     ((appends (Delete ''foo'') \<circ>
      file_is (''*2'' @ CRLF @ ''$3'' @ CRLF @ ''DEL'' @ CRLF @ ''$3'' @ CRLF @ ''foo'' @ CRLF))
      settled) clk"

definition append_writes_set_deadline_as_pxat :: "clock \<Rightarrow> bool" where
  "append_writes_set_deadline_as_pxat clk \<longleftrightarrow> on_fresh_log
     ((appends (Set ''foo'' ''bar'' (Some (Milliseconds 1700000000000))) \<circ>
      file_is (''*5'' @ CRLF @ ''$3'' @ CRLF @ ''SET'' @ CRLF @ ''$3'' @ CRLF @ ''foo'' @ CRLF @ ''$3'' @ CRLF @ ''bar'' @ CRLF @
        ''$4'' @ CRLF @ ''PXAT'' @ CRLF @ ''$13'' @ CRLF @ ''1700000000000'' @ CRLF))
      settled) clk"

definition append_multiple_commands_concatenates :: "clock \<Rightarrow> bool" where
  "append_multiple_commands_concatenates clk \<longleftrightarrow> on_fresh_log
     ((appends (Set ''a'' ''1'' None) \<circ>
      appends (Delete ''a'') \<circ>
      file_is (''*3'' @ CRLF @ ''$3'' @ CRLF @ ''SET'' @ CRLF @ ''$1'' @ CRLF @ ''a'' @ CRLF @ ''$1'' @ CRLF @ ''1'' @ CRLF @
        ''*2'' @ CRLF @ ''$3'' @ CRLF @ ''DEL'' @ CRLF @ ''$1'' @ CRLF @ ''a'' @ CRLF))
      settled) clk"

definition replay_empty_file_is_noop :: "clock \<Rightarrow> bool" where
  "replay_empty_file_is_noop clk \<longleftrightarrow> on_fresh_log
     (replays (has_length 0 passes)) clk"

definition replay_applies_set_to_cache :: "clock \<Rightarrow> bool" where
  "replay_applies_set_to_cache clk \<longleftrightarrow> on_fresh_log
     (appends (Set ''foo'' ''bar'' None) (replays (yields (cache_get ''foo'') (Some (entry_new ''bar'' None)) passes))) clk"

definition replay_applies_commands_in_order :: "clock \<Rightarrow> bool" where
  "replay_applies_commands_in_order clk \<longleftrightarrow> on_fresh_log
     ((appends (Set ''foo'' ''old'' None) \<circ>
      appends (Set ''foo'' ''new'' None) \<circ>
      appends (Delete ''gone''))
      (replays ((yields (cache_get ''foo'') (Some (entry_new ''new'' None)) \<circ> yields (cache_get ''gone'') None) passes))) clk"

definition replay_preserves_a_set_deadline_exactly :: "clock \<Rightarrow> bool" where
  "replay_preserves_a_set_deadline_exactly clk \<longleftrightarrow> on_fresh_log
     (appends (Set ''foo'' ''bar'' (Some (Milliseconds (- 2)))) (replays (yields (cache_expires_at ''foo'') (Some (Some (Milliseconds (- 2)))) passes))) clk"

definition replay_applies_expire_at :: "clock \<Rightarrow> bool" where
  "replay_applies_expire_at clk \<longleftrightarrow> on_fresh_log
     ((appends (Set ''foo'' ''bar'' None) \<circ>
      appends (ExpireAt ''foo'' (Milliseconds (- 1))))
      (replays (yields (cache_expires_at ''foo'') (Some (Some (Milliseconds (- 1)))) passes))) clk"

definition replay_trailing_partial_frame_is_tolerated :: "clock \<Rightarrow> bool" where
  "replay_trailing_partial_frame_is_tolerated clk \<longleftrightarrow> on_fresh_log
     ((appends (Set ''foo'' ''bar'' None) \<circ>
      written_past (''*3'' @ CRLF @ ''$3'' @ CRLF @ ''SET'' @ CRLF))
      (replays (yields (cache_get ''foo'') (Some (entry_new ''bar'' None)) passes))) clk"

definition replay_malformed_frame_errors :: "clock \<Rightarrow> bool" where
  "replay_malformed_frame_errors clk \<longleftrightarrow> on_fresh_log
     (written_past (''?bogus'' @ CRLF) (replay_fails is_frame_error)) clk"

definition clear_truncates_file :: "clock \<Rightarrow> bool" where
  "clear_truncates_file clk \<longleftrightarrow> on_fresh_log
     ((appends (Set ''foo'' ''bar'' None) \<circ>
      clears \<circ>
      file_is ([]))
      settled) clk"

definition clear_allows_subsequent_appends :: "clock \<Rightarrow> bool" where
  "clear_allows_subsequent_appends clk \<longleftrightarrow> on_fresh_log
     ((appends (Set ''old'' ''v'' None) \<circ>
      clears \<circ>
      appends (Set ''new'' ''v'' None))
      (replays ((yields (cache_get ''old'') None \<circ> yields (cache_get ''new'') (Some (entry_new ''v'' None))) passes))) clk"

definition clear_after_a_flushed_writer_leaves_no_hole :: "clock \<Rightarrow> bool" where
  "clear_after_a_flushed_writer_leaves_no_hole clk \<longleftrightarrow> on_fresh_log
     ((appends (Set ''k'' ''v'' None) ^^ 400 \<circ>
      clears \<circ>
      file_is ([]) \<circ>
      appends (Set ''k'' ''v'' None) ^^ 400 \<circ>
      clears \<circ>
      file_is ([]) \<circ>
      appends (Set ''after'' ''v'' None) \<circ>
      file_that (\<lambda>bs. CHR 0x00 \<notin> set bs))
      (replays ((yields (cache_get ''after'') (Some (entry_new ''v'' None)) \<circ> has_length 1) passes))) clk"

lemmas aof_test_defs =
  append_writes_resp_frame_to_disk_def
  append_reaches_the_file_before_it_returns_def
  append_writes_set_deadline_as_pxat_def
  append_multiple_commands_concatenates_def
  replay_empty_file_is_noop_def
  replay_applies_set_to_cache_def
  replay_applies_commands_in_order_def
  replay_preserves_a_set_deadline_exactly_def
  replay_applies_expire_at_def
  replay_trailing_partial_frame_is_tolerated_def
  replay_malformed_frame_errors_def
  clear_truncates_file_def
  clear_allows_subsequent_appends_def
  clear_after_a_flushed_writer_leaves_no_hole_def

definition aof_tests :: "(clock \<Rightarrow> bool) list" where
  "aof_tests =
    [append_writes_resp_frame_to_disk,
     append_reaches_the_file_before_it_returns,
     append_writes_set_deadline_as_pxat,
     append_multiple_commands_concatenates,
     replay_empty_file_is_noop,
     replay_applies_set_to_cache,
     replay_applies_commands_in_order,
     replay_preserves_a_set_deadline_exactly,
     replay_applies_expire_at,
     replay_trailing_partial_frame_is_tolerated,
     replay_malformed_frame_errors,
     clear_truncates_file,
     clear_allows_subsequent_appends,
     clear_after_a_flushed_writer_leaves_no_hole]"

section \<open>Scripts on a snapshot\<close>

type_synonym serializer = "data \<Rightarrow> (write_error, bytes) result"

type_synonym deserializer = "bytes \<Rightarrow> (read_error, data) result"

type_synonym snapshot_script = "snapshot_files \<Rightarrow> bool"

text \<open>Equality of two hash maps.\<close>

definition same_map :: "data \<Rightarrow> data \<Rightarrow> bool" where
  "same_map m m' \<longleftrightarrow> list_all (\<lambda>(k, _). map_of m k = map_of m' k) (m @ m')"

definition on_fresh_snapshot :: "snapshot_script \<Rightarrow> bool" where
  "on_fresh_snapshot k =
    (case persister_inner_try_from None io_ok of
       (Inl _, _, _) \<Rightarrow> False
     | (Inr p, _, _) \<Rightarrow> k \<lparr>snap_file = bw_file (writer p), snap_tmp = None\<rparr>)"

definition stores :: "serializer \<Rightarrow> data \<Rightarrow> snapshot_script \<Rightarrow> snapshot_script" where
  "stores serialize m k files =
    (case snapshot_store serialize m files io_ok of
       (Inl _, files, _) \<Rightarrow> False
     | (Inr _, files, _) \<Rightarrow> k files)"

definition loads :: "deserializer \<Rightarrow> (data \<Rightarrow> bool) \<Rightarrow> snapshot_script" where
  "loads deserialize P files =
    (case snapshot_load deserialize files io_ok of
       (Inl _, _) \<Rightarrow> False
     | (Inr m, _) \<Rightarrow> P m)"

definition one_entry :: "bytes \<Rightarrow> data" where
  "one_entry val = AList.update ''foo'' (entry_new val None) []"

definition three_entries :: data where
  "three_entries =
     AList.update ''c'' (entry_new [CHR 0xFF, CHR 0x00, CHR 0x7F] None)
       (AList.update ''b'' (entry_new ''2'' (Some (Milliseconds 1700000000)))
         (AList.update ''a'' (entry_new ''1'' None) []))"

section \<open>\<^verbatim>\<open>snapshot.rs\<close>\<close>

definition load_empty_file_returns_empty_map :: "serializer \<Rightarrow> deserializer \<Rightarrow> bool" where
  "load_empty_file_returns_empty_map serialize deserialize \<longleftrightarrow>
     on_fresh_snapshot (loads deserialize (\<lambda>m. m = []))"

definition store_then_load_round_trips_single_entry :: "serializer \<Rightarrow> deserializer \<Rightarrow> bool" where
  "store_then_load_round_trips_single_entry serialize deserialize \<longleftrightarrow>
     on_fresh_snapshot (stores serialize (one_entry ''bar'') (loads deserialize (same_map (one_entry ''bar''))))"

definition store_then_load_round_trips_multiple_entries :: "serializer \<Rightarrow> deserializer \<Rightarrow> bool" where
  "store_then_load_round_trips_multiple_entries serialize deserialize \<longleftrightarrow>
     on_fresh_snapshot (stores serialize three_entries (loads deserialize (same_map three_entries)))"

definition store_overwrites_previous_snapshot :: "serializer \<Rightarrow> deserializer \<Rightarrow> bool" where
  "store_overwrites_previous_snapshot serialize deserialize \<longleftrightarrow>
     on_fresh_snapshot (stores serialize (one_entry ''old'') (stores serialize (one_entry ''new'')
       (loads deserialize (same_map (one_entry ''new'')))))"

definition store_leaves_no_lingering_tmp_file :: "serializer \<Rightarrow> deserializer \<Rightarrow> bool" where
  "store_leaves_no_lingering_tmp_file serialize deserialize \<longleftrightarrow>
     on_fresh_snapshot (stores serialize (one_entry ''bar'') (\<lambda>files. snap_tmp files = None))"

definition load_missing_file_errors :: "serializer \<Rightarrow> deserializer \<Rightarrow> bool" where
  "load_missing_file_errors serialize deserialize \<longleftrightarrow>
     on_fresh_snapshot (\<lambda>files. case snapshot_load deserialize files (IoFail 0 ## io_ok) of
         (Inl (SnapshotIo _), _) \<Rightarrow> True | _ \<Rightarrow> False)"

lemmas snapshot_test_defs =
  load_empty_file_returns_empty_map_def
  store_then_load_round_trips_single_entry_def
  store_then_load_round_trips_multiple_entries_def
  store_overwrites_previous_snapshot_def
  store_leaves_no_lingering_tmp_file_def
  load_missing_file_errors_def

definition snapshot_tests :: "(serializer \<Rightarrow> deserializer \<Rightarrow> bool) list" where
  "snapshot_tests =
    [load_empty_file_returns_empty_map,
     store_then_load_round_trips_single_entry,
     store_then_load_round_trips_multiple_entries,
     store_overwrites_previous_snapshot,
     store_leaves_no_lingering_tmp_file,
     load_missing_file_errors]"

section \<open>Scripts on a persister\<close>

type_synonym persister_script = "persister \<Rightarrow> bool"

definition on_fresh_persister :: "persister_script \<Rightarrow> bool" where
  "on_fresh_persister k =
    (case persister_initialize \<lparr>disk_aof = None, disk_snapshot = None, disk_tmp = None\<rparr> io_ok of
       (Inl _, _, _) \<Rightarrow> False
     | (Inr p, _, _) \<Rightarrow> k p)"

definition logs :: "write_command \<Rightarrow> persister_script \<Rightarrow> persister_script" where
  "logs wc k p =
    (case persister_append wc p io_ok of
       (Inl _, p, _) \<Rightarrow> False
     | (Inr _, p, _) \<Rightarrow> k p)"

definition flush_aof :: "persister_script \<Rightarrow> persister_script" where
  "flush_aof k p =
    (case bw_flush (writer (aof p)) io_ok of
       (Inl _, w, _) \<Rightarrow> False
     | (Inr _, w, _) \<Rightarrow> k (p\<lparr>aof := (aof p)\<lparr>writer := w\<rparr>\<rparr>))"

definition snapshots :: "serializer \<Rightarrow> cache \<Rightarrow> persister_script \<Rightarrow> persister_script" where
  "snapshots serialize c k p =
    (case persister_snapshot serialize c p io_ok of
       (Inl _, p, _) \<Rightarrow> False
     | (Inr _, p, _) \<Rightarrow> k p)"

definition aof_length :: "(nat \<Rightarrow> bool) \<Rightarrow> persister_script \<Rightarrow> persister_script" where
  "aof_length P k p \<longleftrightarrow> P (length (bw_file (writer (aof p)))) \<and> k p"

definition recovers :: "deserializer \<Rightarrow> clock \<Rightarrow> script \<Rightarrow> persister_script" where
  "recovers deserialize clk k p =
    (case snapshot_load deserialize (snapshot p) io_ok of
       (Inl _, _) \<Rightarrow> False
     | (Inr m, _) \<Rightarrow>
         (case aof_replay (aof p) (cache_new m) clk io_ok of
            (Inl _, c, clk, _) \<Rightarrow> False
          | (Inr _, c, clk, _) \<Rightarrow> k c clk))"

section \<open>\<^verbatim>\<open>mod.rs\<close>\<close>

text \<open>The cache the tests snapshot.\<close>

definition foo_cache :: cache where
  "foo_cache = snd (cache_insert ''foo'' (entry_new ''bar'' None) (cache_new []))"

definition append_writes_to_aof_only :: "serializer \<Rightarrow> deserializer \<Rightarrow> clock \<Rightarrow> bool" where
  "append_writes_to_aof_only serialize deserialize clk \<longleftrightarrow>
     on_fresh_persister ((logs (Set ''foo'' ''bar'' None) \<circ> flush_aof \<circ>
       aof_length (\<lambda>n. 0 < n)) (\<lambda>p. length (snap_file (snapshot p)) = 0))"

definition snapshot_persists_cache_contents :: "serializer \<Rightarrow> deserializer \<Rightarrow> clock \<Rightarrow> bool" where
  "snapshot_persists_cache_contents serialize deserialize clk \<longleftrightarrow>
     on_fresh_persister (snapshots serialize foo_cache (\<lambda>p.
       loads deserialize (\<lambda>m. map_of m ''foo'' = Some (entry_new ''bar'' None)) (snapshot p)))"

definition snapshot_clears_the_aof :: "serializer \<Rightarrow> deserializer \<Rightarrow> clock \<Rightarrow> bool" where
  "snapshot_clears_the_aof serialize deserialize clk \<longleftrightarrow>
     on_fresh_persister ((logs (Set ''foo'' ''bar'' None) \<circ> flush_aof \<circ>
       aof_length (\<lambda>n. 0 < n) \<circ> snapshots serialize foo_cache \<circ>
       aof_length (\<lambda>n. n = 0)) (\<lambda>p. True))"

definition append_after_snapshot_resumes_logging :: "serializer \<Rightarrow> deserializer \<Rightarrow> clock \<Rightarrow> bool" where
  "append_after_snapshot_resumes_logging serialize deserialize clk \<longleftrightarrow>
     on_fresh_persister ((snapshots serialize foo_cache \<circ>
       logs (Delete ''foo'') \<circ> flush_aof)
         (recovers deserialize clk (yields (cache_get ''foo'') None passes)))"

lemmas persister_test_defs =
  append_writes_to_aof_only_def
  snapshot_persists_cache_contents_def
  snapshot_clears_the_aof_def
  append_after_snapshot_resumes_logging_def

definition persister_tests :: "(serializer \<Rightarrow> deserializer \<Rightarrow> clock \<Rightarrow> bool) list" where
  "persister_tests =
    [append_writes_to_aof_only,
     snapshot_persists_cache_contents,
     snapshot_clears_the_aof,
     append_after_snapshot_resumes_logging]"

section \<open>Evaluating a log\<close>

text \<open>A log with nothing buffered, and what the calls make of it.\<close>

abbreviation log_holding :: "bytes \<Rightarrow> persister_inner" where
  "log_holding bs \<equiv> \<lparr>writer = \<lparr>bw_buf = [], bw_file = bs\<rparr>, writer_poisoned = False\<rparr>"

lemma aof_append_holding: "aof_append wc (log_holding bs) io_ok = (Inr (), log_holding (bs @ log_bytes wc), io_ok)"
proof -
  obtain w where "write_pieces (frame_pieces (frame_from_write_command wc)) \<lparr>bw_buf = [], bw_file = bs\<rparr> io_ok =
      (Inr (), w, io_ok)" using write_pieces_ok by blast
  then obtain p where run: "aof_append wc (log_holding bs) io_ok = (Inr (), p, io_ok)"
    by (simp add: aof_append_def bw_flush_def)
  from aof_append_content(2) [OF run refl] have "p = log_holding (bs @ log_bytes wc)" by (cases p) auto
  with run show ?thesis by simp
qed

lemma aof_clear_holding: "aof_clear (log_holding bs) io_ok = (Inr (), log_holding [], io_ok)"
  by (simp add: aof_clear_def bw_flush_def)

lemma log_calls:
  "appends wc k (log_holding bs) clk = k (log_holding (bs @ log_bytes wc)) clk"
  "clears k (log_holding bs) clk = k (log_holding []) clk"
  "file_that P k (log_holding bs) clk \<longleftrightarrow> P bs \<and> k (log_holding bs) clk"
  "written_past extra k (log_holding bs) clk = k (log_holding (bs @ extra)) clk"
  "on_fresh_log k clk = k (log_holding []) clk"
  by (simp_all add: appends_def clears_def file_that_def written_past_def on_fresh_log_def aof_append_holding
      aof_clear_holding persister_inner_try_from_def)

lemma appends_many: "(appends wc ^^ n) k (log_holding bs) clk = k (log_holding (bs @ concat (replicate n (log_bytes wc)))) clk"
  by (induction n arbitrary: bs) (simp_all add: log_calls)

lemma log_replays:
  "replays k (log_holding bs) clk =
     (case replay_loop bs (cache_new []) clk of (Inl _, c, clk) \<Rightarrow> False | (Inr _, c, clk) \<Rightarrow> k c clk)"
  "replay_fails P (log_holding bs) clk =
     (case replay_loop bs (cache_new []) clk of (Inl e, c, clk) \<Rightarrow> P e | (Inr _, c, clk) \<Rightarrow> False)"
  by (simp_all add: replays_def replay_fails_def aof_replay_def split: prod.split sum.split)

lemmas replay_loop_last = replay_loop_cons [of _ "[]", simplified]

lemma replay_loop_Nil: "replay_loop [] c clk = (Inr (), c, clk)"
  by (simp add: replay_loop_incomplete)

lemma test_writes_fit:
  "write_fits (Set ''foo'' ''bar'' None)" "write_fits (Set ''foo'' ''old'' None)" "write_fits (Set ''foo'' ''new'' None)"
  "write_fits (Delete ''gone'')" "write_fits (Set ''foo'' ''bar'' (Some (Milliseconds (- 2))))"
  "write_fits (ExpireAt ''foo'' (Milliseconds (- 1)))" "write_fits (Set ''new'' ''v'' None)"
  "write_fits (Set ''after'' ''v'' None)"
  using show_u64_fits [of "- 1"] show_u64_fits [of "- 2"] by (simp_all add: frame_from_write_command_def)

lemmas log_eval = log_calls file_is_def settled_def appends_many log_replays test_writes_fit replay_loop_cons
  replay_loop_last replay_loop_Nil

lemma test_clock_ends: "test_clock clk \<Longrightarrow> \<not> Milliseconds (- 2) \<le> tick clk n"
  by (auto simp: test_clock_def millis_le_nat not_le intro: le_less_trans)

lemma torn_frames:
  "parse_one (''*3'' @ CRLF @ ''$3'' @ CRLF @ ''SET'' @ CRLF) = Inl Incomplete"
  "parse_one (''?bogus'' @ CRLF) = Inl (InvalidLength (LengthParseInt InvalidDigit))"
  by (simp_all add: parse_eval)

lemma append_tests:
  "append_writes_resp_frame_to_disk clk" "append_reaches_the_file_before_it_returns clk"
  "append_multiple_commands_concatenates clk" "clear_truncates_file clk"
  by (simp_all add: aof_test_defs log_eval frame_from_write_command_def show_lengths)

lemma append_deadline_test: "append_writes_set_deadline_as_pxat clk"
proof -
  have "show_nat 1700000000000 = ''1700000000000''" using digit_bytes by (simp add: show_nat.simps)
  then show ?thesis by (simp add: aof_test_defs log_eval frame_from_write_command_def show_lengths)
qed

lemma replay_tests:
  assumes "test_clock clk"
  shows "replay_empty_file_is_noop clk" "replay_applies_set_to_cache clk" "replay_applies_commands_in_order clk"
    "replay_preserves_a_set_deadline_exactly clk" "replay_applies_expire_at clk"
    "clear_allows_subsequent_appends clk"
  by (simp_all add: aof_test_defs log_eval operation_defs store_defs script_defs test_clock_readings [OF assms]
      test_clock_end [OF assms] test_clock_ends [OF assms])

lemma tail_tests:
  assumes "test_clock clk"
  shows "replay_trailing_partial_frame_is_tolerated clk" "replay_malformed_frame_errors clk"
proof -
  note torn = replay_loop_incomplete [OF torn_frames(1)]
  have "replay_loop (''?bogus'' @ CRLF) c clk =
      (Inl (AofFrame (InvalidLength (LengthParseInt InvalidDigit))), c, clk)" for c clk
    by (subst replay_loop.simps) (simp only: torn_frames, simp)
  with torn show "replay_trailing_partial_frame_is_tolerated clk" "replay_malformed_frame_errors clk"
    by (simp_all add: aof_test_defs log_eval operation_defs store_defs script_defs test_clock_readings [OF assms])
qed

lemma hole_test:
  assumes "test_clock clk"
  shows "clear_after_a_flushed_writer_leaves_no_hole clk"
proof -
  have "CHR 0x00 \<notin> set (log_bytes (Set ''after'' ''v'' None))"
    by (simp add: frame_from_write_command_def show_lengths)
  then show ?thesis
    by (simp add: aof_test_defs log_eval operation_defs store_defs script_defs test_clock_readings [OF assms])
qed

lemma aof_tests_hold: "test_clock clk \<Longrightarrow> list_all (\<lambda>test. test clk) aof_tests"
  by (simp only: aof_tests_def list.pred_inject append_tests append_deadline_test replay_tests tail_tests hole_test
      simp_thms)

section \<open>Evaluating a snapshot\<close>

text \<open>A serialiser that decodes what it has encoded, and that encodes the maps of the tests.\<close>

definition test_codec :: "serializer \<Rightarrow> deserializer \<Rightarrow> bool" where
  "test_codec serialize deserialize \<longleftrightarrow>
     faithful_codec serialize deserialize \<and>
     list_all (\<lambda>m. \<not> isl (serialize m))
       [one_entry ''bar'', one_entry ''old'', one_entry ''new'', three_entries, cache_inner foo_cache]"

lemma same_map_iff: "same_map m m' \<longleftrightarrow> map_of m = map_of m'"
proof
  assume "same_map m m'"
  then have on: "map_of m k = map_of m' k" if "k \<in> fst ` set m \<union> fst ` set m'" for k
    using that by (force simp: same_map_def list_all_iff)
  show "map_of m = map_of m'"
  proof
    fix k
    show "map_of m k = map_of m' k"
      using on [of k] by (cases "k \<in> fst ` set m \<union> fst ` set m'") (auto simp flip: map_of_eq_None_iff)
  qed
qed (simp add: same_map_def list_all_iff split: prod.splits)

lemma snapshot_store_ok:
  "serialize m = Inr bs \<Longrightarrow>
     snapshot_store serialize m f io_ok = (Inr (), \<lparr>snap_file = bs, snap_tmp = None\<rparr>, io_ok)"
  by (simp add: snapshot_store_def snapshot_publish_def sync_folder_def os_write_all_def)

lemma snapshot_load_decodes:
  assumes "snapshot_decodes deserialize bs m"
  shows "\<exists>m'. snapshot_load deserialize \<lparr>snap_file = bs, snap_tmp = tmp\<rparr> io_ok = (Inr m', io_ok) \<and>
    map_of m' = map_of m \<and> distinct_keys m'"
  using assms by (auto simp: snapshot_decodes_def snapshot_load_def split: if_splits)

text \<open>What such a serialiser gives for a map it encodes: a file that loads as the same map.\<close>

lemma codec_round_trip:
  assumes "faithful_codec serialize deserialize" "\<not> isl (serialize m)" "distinct_keys m"
  obtains bs m' where
    "\<And>f. snapshot_store serialize m f io_ok = (Inr (), \<lparr>snap_file = bs, snap_tmp = None\<rparr>, io_ok)"
    "snapshot_load deserialize \<lparr>snap_file = bs, snap_tmp = None\<rparr> io_ok = (Inr m', io_ok)"
    "map_of m' = map_of m" "distinct_keys m'"
proof -
  from assms(2) obtain bs where bs: "serialize m = Inr bs" by (cases "serialize m") auto
  with assms(1, 3) have "snapshot_decodes deserialize bs m" by (auto simp: faithful_codec_def)
  from snapshot_load_decodes [OF this, of None] obtain m' where
    "snapshot_load deserialize \<lparr>snap_file = bs, snap_tmp = None\<rparr> io_ok = (Inr m', io_ok)"
    "map_of m' = map_of m" "distinct_keys m'" by blast
  then show thesis using that snapshot_store_ok [of serialize m bs] bs by blast
qed

lemma stores_loads:
  assumes "faithful_codec serialize deserialize" "\<not> isl (serialize m)" "distinct_keys m"
  shows "stores serialize m (loads deserialize (same_map m)) f"
    and "stores serialize m (\<lambda>files. snap_tmp files = None) f"
    and "stores serialize m (stores serialize m' k) f = stores serialize m' k f"
proof -
  obtain bs n where
    store: "\<And>f. snapshot_store serialize m f io_ok = (Inr (), \<lparr>snap_file = bs, snap_tmp = None\<rparr>, io_ok)" and
    load: "snapshot_load deserialize \<lparr>snap_file = bs, snap_tmp = None\<rparr> io_ok = (Inr n, io_ok)" and
    same: "map_of n = map_of m"
    by (rule codec_round_trip [OF assms]) blast
  show "stores serialize m (loads deserialize (same_map m)) f"
    "stores serialize m (\<lambda>files. snap_tmp files = None) f"
    using store load same by (simp_all add: stores_def loads_def same_map_iff)
  show "stores serialize m (stores serialize m' k) f = stores serialize m' k f"
    unfolding stores_def store
    by (cases "serialize m'") (simp_all add: snapshot_store_def snapshot_publish_def sync_folder_def os_write_all_def)
qed

lemma test_maps_distinct: "distinct_keys (one_entry v)" "distinct_keys three_entries" "distinct_keys (cache_inner foo_cache)"
  by (simp_all add: one_entry_def three_entries_def foo_cache_def cache_insert_def cache_new_def put_key_def)

lemma snapshot_tests_hold:
  assumes "test_codec serialize deserialize"
  shows "list_all (\<lambda>test. test serialize deserialize) snapshot_tests"
proof -
  from assms have codec: "faithful_codec serialize deserialize"
    and encodes: "\<not> isl (serialize (one_entry ''bar''))" "\<not> isl (serialize (one_entry ''old''))"
      "\<not> isl (serialize (one_entry ''new''))" "\<not> isl (serialize three_entries)"
    by (simp_all add: test_codec_def)
  note round = stores_loads [OF codec encodes(1) test_maps_distinct(1)]
    stores_loads [OF codec encodes(2) test_maps_distinct(1)]
    stores_loads [OF codec encodes(3) test_maps_distinct(1)]
    stores_loads [OF codec encodes(4) test_maps_distinct(2)]
  show ?thesis
    by (simp add: snapshot_tests_def snapshot_test_defs on_fresh_snapshot_def persister_inner_try_from_def round
        loads_def snapshot_load_def io_call_def)
qed

section \<open>Evaluating a persister\<close>

text \<open>A persister between two calls, its log holding \<open>bs\<close>.\<close>

abbreviation store_holding :: "bytes \<Rightarrow> snapshot_files \<Rightarrow> persister" where
  "store_holding bs f \<equiv> \<lparr>aof = log_holding bs, snapshot = f\<rparr>"

lemma persister_calls:
  "on_fresh_persister k = k (store_holding [] \<lparr>snap_file = [], snap_tmp = None\<rparr>)"
  "logs wc k (store_holding bs f) = k (store_holding (bs @ log_bytes wc) f)"
  "flush_aof k (store_holding bs f) = k (store_holding bs f)"
  "aof_length P k (store_holding bs f) \<longleftrightarrow> P (length bs) \<and> k (store_holding bs f)"
  by (simp_all add: on_fresh_persister_def persister_initialize_def persister_inner_try_from_def logs_def
      persister_append_def aof_append_holding flush_aof_def bw_flush_def os_write_all_def aof_length_def)

lemma snapshots_holding:
  assumes "snapshot_store serialize (cache_inner c) f io_ok = (Inr (), f', io_ok)" "\<not> cache_poisoned c"
  shows "snapshots serialize c k (store_holding bs f) = k (store_holding [] f')"
  using assms by (simp add: snapshots_def persister_snapshot_def aof_clear_holding)

lemma persister_tests_hold:
  assumes "test_codec serialize deserialize" "test_clock clk"
  shows "list_all (\<lambda>test. test serialize deserialize clk) persister_tests"
proof -
  from assms(1) have codec: "faithful_codec serialize deserialize" "\<not> isl (serialize (cache_inner foo_cache))"
    by (simp_all add: test_codec_def)
  obtain bs m where
    store: "\<And>f. snapshot_store serialize (cache_inner foo_cache) f io_ok =
        (Inr (), \<lparr>snap_file = bs, snap_tmp = None\<rparr>, io_ok)" and
    load: "snapshot_load deserialize \<lparr>snap_file = bs, snap_tmp = None\<rparr> io_ok = (Inr m, io_ok)" and
    same: "map_of m = map_of (cache_inner foo_cache)" "distinct_keys m"
    by (rule codec_round_trip [OF codec test_maps_distinct(3)]) blast
  have healthy: "\<not> cache_poisoned foo_cache" and foo: "map_of m ''foo'' = Some (entry_new ''bar'' None)"
    using same by (simp_all add: foo_cache_def cache_insert_def cache_new_def put_key_def)
  note snaps = snapshots_holding [OF store healthy]
  have "write_fits (Delete ''foo'')" by (simp add: frame_from_write_command_def)
  then have "append_after_snapshot_resumes_logging serialize deserialize clk"
    using foo same(2)
    by (simp add: append_after_snapshot_resumes_logging_def persister_calls snaps recovers_def load aof_replay_def
        replay_loop_last replay_loop_Nil operation_defs store_defs script_defs AList.delete_conv'
        test_clock_readings [OF assms(2)])
  then show ?thesis
    by (simp add: persister_tests_def append_writes_to_aof_only_def snapshot_persists_cache_contents_def
        snapshot_clears_the_aof_def persister_calls snaps loads_def load foo frame_from_write_command_def)
qed

end
