(* ===== verification/Spec2Isabelle.thy ===== *)
theory Spec2Isabelle
  imports Lifecycle Interleaving Pipelining Power_Loss Process Tests_Command Tests_Cache Tests_Session Tests_Persister
begin

text \<open>
  \<^bold>\<open>Steller: a verified model of a Redis-like key-value server.\<close>

  The program listens on a socket, reads RESP frames, lifts them to commands, runs them on a shared
  cache, logs every write to an append-only file, and answers.  Every ten seconds it writes the cache
  to a snapshot and empties the log; on start it loads the snapshot and replays the log.  Beside the
  cache it keeps a registry of channels for publish and subscribe.  Its parts, from the inside out, and
  the theories that model them (paths under \<^verbatim>\<open>src/src/lib\<close>):

  \<^item> \<open>Steller_Prelude\<close>, \<open>Rust_Std\<close>: bytes, results, keyed lists, and what the code uses of the
    standard library: UTF-8 validation and integer parsing with their error values, decimal printing,
    \<^verbatim>\<open>to_ascii_lowercase\<close>, saturating arithmetic on 64-bit words.  The locales \<open>hash_map\<close> and
    \<open>hash_set\<close> state what the code relies on of \<^verbatim>\<open>HashMap\<close> and \<^verbatim>\<open>HashSet\<close>; \<open>alist\<close> and
    \<open>lset\<close> interpret them on the lists the model uses.
  \<^item> \<open>Domain_Time\<close> (\<^verbatim>\<open>domain/time.rs\<close>), \<open>Commands\<close> (\<^verbatim>\<open>domain/command\<close>).
  \<^item> \<open>Resp_Frame\<close> (\<^verbatim>\<open>resp/frame.rs\<close>, \<^verbatim>\<open>resp/crlf.rs\<close>): parser and encoder.  The locale
    \<open>streaming_codec\<close> is what a reader over a stream needs of them: the round trip, that an answer is
    final, and that a prefix of a frame is incomplete; \<open>resp\<close> interprets it.
  \<^item> \<open>Resp_Command\<close> (\<^verbatim>\<open>resp/command.rs\<close>): one definition per verb, reading the clock where the code
    does.  \<open>Resp_Reply\<close> (\<^verbatim>\<open>resp/reply.rs\<close>, \<^verbatim>\<open>inbound/mod.rs\<close>): replies and their bytes.  The
    locale \<open>byte_sink\<close> is what \<^verbatim>\<open>write_to\<close> needs of a writer; \<open>vec\<close> interprets it on a vector and
    \<open>buffered\<close>, in \<open>Server\<close>, on a buffered socket.
  \<^item> \<open>Cache\<close> (\<^verbatim>\<open>domain/cache.rs\<close>): the store with lazy and swept expiry.  \<open>spec_execute\<close> is the
    abstract specification, a map of live values, and \<open>view\<close> the abstraction.
  \<^item> \<open>Channels\<close> (\<^verbatim>\<open>domain/channels.rs\<close>): the registry and the mpsc queues.  The locale
    \<open>membership\<close> gives the laws of joining and leaving; \<open>registry\<close> interprets it.
  \<^item> \<open>Executor\<close> (\<^verbatim>\<open>domain/executor.rs\<close>, \<^verbatim>\<open>domain/ports.rs\<close>): execute, then log.  The locale
    \<open>cache_repository\<close> is the outbound port; \<open>Persister\<close> interprets it as \<open>repository\<close>.
  \<^item> \<open>Persister\<close> (\<^verbatim>\<open>outbound/persister\<close>): the log behind its buffered writer, the snapshot and
    its rename, and their order.  \<open>Recovery\<close>: startup from snapshot and log, and what it restores.
  \<^item> \<open>Session\<close> (\<^verbatim>\<open>inbound/session.rs\<close>): reader, command loop, channel commands, cleanup.  The
    locale \<open>execute_port\<close> is the inbound port; \<open>Server\<close> interprets it as \<open>port\<close>.
  \<^item> \<open>Server\<close> (\<^verbatim>\<open>inbound/server.rs\<close>): the threads as an inductive step relation on the shared
    state, reachability and the invariant.  A turn of a session or a writer acts on the shutdown flag as
    that thread read it, which may be before it went up.  \<open>Lifecycle\<close> (\<^verbatim>\<open>inbound/server.rs\<close>, \<^verbatim>\<open>main.rs\<close>): the accept
    loop, the stdin and signal threads, the ways a start can fail, and the exit code.
  \<^item> \<open>Interleaving\<close> (\<^verbatim>\<open>domain/executor.rs\<close>, \<^verbatim>\<open>outbound/persister/mod.rs\<close>, \<^verbatim>\<open>domain/cache.rs\<close>): the calls
    of any number of threads, cut into segments wherever the code lets go of a lock, as an inductive
    relation over schedules; \<open>uninterrupted_call\<close> ties the segments to the definitions above.
  \<^item> \<open>Pipelining\<close>: \<open>serve\<close>, what a client that sends many frames at once is promised, and the session
    loop as its refinement.  \<open>Delivery\<close>: a message from its publisher to the subscribers' sockets.
  \<^item> \<open>Power_Loss\<close> (\<^verbatim>\<open>outbound/persister/snapshot.rs\<close>): the store of a snapshot with what has been synced.
  \<^item> \<open>Durability\<close>: the running server and its files.  \<open>recoverable\<close> is the invariant of its steps that ties
    the cache to snapshot and log; frames from a socket only carry lengths the log can carry.
  \<^item> \<open>Process\<close> (\<^verbatim>\<open>inbound/server.rs\<close>, \<^verbatim>\<open>inbound/session.rs\<close>): every thread at the point of its code where it
    stands, the accept loop with its backlog, the two statements of \<^verbatim>\<open>trigger_shutdown\<close>, the sleeps, \<^verbatim>\<open>recv\<close>
    and the joins, moved by events.  The locale \<open>stuttering_simulation\<close> carries runs over to a step relation, and
    \<open>as_server\<close> interprets it on the process and the steps of \<open>Server\<close>; the locale \<open>draining\<close> is a machine
    whose own steps use up a measure, and \<open>shutdown\<close> interprets it on a process with the flag up.
  \<^item> \<open>Tests_Wire\<close>, \<open>Tests_Command\<close>, \<open>Tests_Cache\<close>, \<open>Tests_Executor\<close>, \<open>Tests_Session\<close>,
    \<open>Tests_Persister\<close> (the \<^verbatim>\<open>tests\<close> modules of the sources, \<^verbatim>\<open>test_support.rs\<close>): each unit test as a
    definition of its own name, over the operations above, and the proof that it passes.  \<open>Test_Clock\<close>
    says what such a test relies on of the time.  The repository of the tests, \<open>recording_append\<close>, is
    one more interpretation of \<open>cache_repository\<close>.
  \<^item> this theory: the properties that need the whole path from the socket to the log, and the suites
    of the tests put together (\<open>unit_tests\<close>).

  \<^bold>\<open>How the model corresponds to the code.\<close>  A struct is a record, an enum a datatype, and a method a
  function that takes the state it changes and returns it beside its result; a \<^verbatim>\<open>Result\<close> is a sum
  with the error on the left, and every \<^verbatim>\<open>?\<close> of the source is a case.  \<^verbatim>\<open>u64\<close> and \<^verbatim>\<open>u32\<close>
  are words; \<^verbatim>\<open>usize\<close> lengths are natural numbers and a parsed length must fit 64 bits.  A
  \<^verbatim>\<open>HashMap\<close> is a list of pairs with distinct keys and a \<^verbatim>\<open>HashSet\<close> a distinct list, so the order
  of iteration is whatever order the list has; properties quantify over all of them.  The clock is a
  stream of readings, consumed one per call of \<^verbatim>\<open>SystemTime::now\<close>, each of which may lie before the
  epoch; readings need not increase unless a property says so.  Operating-system calls consume a stream
  of outcomes, and a failing write may have written any part of its bytes.  \<^verbatim>\<open>BufWriter\<close> has its
  8 KiB buffer.  A mutex is its contents and a flag for a poisoned lock.  A socket is the list of what
  successive reads return, then end of file; the code caps a read at 1 KiB, the model lets a chunk have
  any length.  The \<^verbatim>\<open>wincode\<close> serialiser is outside the sources, so \<open>serialize\<close> and
  \<open>deserialize\<close> are arguments, and \<open>snapshot_decodes\<close> is the one thing assumed of them, for the map at
  hand: decoding what was encoded gives a map with the same entries.  Witnesses use \<open>dump\<close> and
  \<open>undump\<close>, a format of the model's own.

  \<^bold>\<open>Termination.\<close>  No definition has fuel.  The parser recurses on shorter input, the loops of a session
  on \<open>pending\<close> (bytes buffered plus reads to come), replay on the bytes left.  \<open>parse_one_stack\<close> is the
  parser once more, on a call stack of given depth.  \<open>schedules_end\<close> bounds every schedule of the
  interleaved threads by three turns per call, \<open>shutdown_completes\<close> every shutdown by \<open>work_left\<close>.

  \<^bold>\<open>What is shown.\<close>
  \<^item> Wire: frames round-trip, prefixes are incomplete, answers are final, chunks do not matter, replies
    are well-formed and unambiguous, and a command on the wire is run once and answered once; so are
    pipelined commands, in order, and replies go out in order also when the writer fails.
  \<^item> Lifting: logged writes lift back to themselves without the clock; relative deadlines are resolved
    once, saturating; only arrays of bulk strings are commands.
  \<^item> Cache: every command refines its specification on the live view, touches no other key, and keeps
    the invariant; the sweep changes nothing a client can see.
  \<^item> Durability: an append is all or nothing for replay, a snapshot leaves the old or the new state at
    every failure, acknowledged writes are in the log, and recovery restores each key whose deadlines
    are still ahead, also when the process dies inside a snapshot or between any two segments of
    interleaved threads, as long as no two write the key at once; the running server keeps its files in
    a state the next start recovers from, whatever its clients send.  A snapshot survives a loss of power.
    A corrupt log stops the start, and the exit code says so.
  \<^item> Publish and subscribe: membership, fan-out and counts, cleanup of a session however it ends, and
    the agreement of registry and sessions in every reachable state, delivery to every subscriber of
    a running server.
  \<^item> Threads and shutdown: the threads taken apart are the server of the steps, no wake-up of the accept loop
    is lost, a knock is never served, and a shutdown comes to its end with every thread joined, the last
    snapshot and sweep included; the accept loop stops at the flag and the sessions drain.
  \<^item> Conformance: the model passes the unit tests of the sources, at whatever time they are run and
    with every serialiser that decodes what it has encoded.
  \<^item> Behaviours that differ from what comments promise or from what one would expect are theorems too:
    the parser's stack depth (\<open>parse_one_stack_depth\<close>), the clamp of \<^verbatim>\<open>EXPIREAT\<close>
    (\<open>expireat_clamps_only_u64\<close>), a revived leftover (\<open>expire_revives_leftover\<close>), a lost \<^verbatim>\<open>SET\<close>
    (\<open>ttl_race_drops_fresh_set\<close>), two writers whose log and cache disagree
    (\<open>racing_writers_diverge\<close>, a window the doc of \<^verbatim>\<open>execute_logged\<close> admits), empty channels (\<open>publish_leaves_empty_channel\<close>), and four ways
    recovery can differ from the state before it (\<open>persisted_key_lost_on_replay\<close>,
    \<open>dropped_key_returns_on_replay\<close>, \<open>acknowledged_write_lost_after_failed_append\<close>,
    \<open>torn_tail_fails_second_start\<close>).  With a terminal attached, a signal alone does not end the process
    (\<open>terminal_outlives_signal\<close>).

  \<^bold>\<open>What is not modelled.\<close>  Sockets and their options, memory orderings (a store of the flag is seen by the
  next look of every thread), log lines, \<^verbatim>\<open>Debug\<close> output, a panic that poisons a lock (only the poisoned lock itself).
  A read of a socket returns, as its time-out of 500 ms makes it do; that \<^verbatim>\<open>set_read_timeout\<close> fails is left out.
  The modules \<^verbatim>\<open>lib.rs\<close>, \<^verbatim>\<open>domain/mod.rs\<close>, \<^verbatim>\<open>resp/mod.rs\<close> and \<^verbatim>\<open>outbound/mod.rs\<close> hold declarations only.  Of the tests,
  the two of \<^verbatim>\<open>domain/time.rs\<close> that compare the clock with a calendar date and \<^verbatim>\<open>tests/shutdown.rs\<close>, which runs the
  binary; a test's temporary path is an empty file.  In the steps of \<open>Server\<close> a session's turn is one step; the segments inside a command
  are those of \<open>Interleaving\<close>, which has no sockets.  Loss of power is modelled for the snapshot; the log
  is flushed to the operating system and never synced by the code, so nothing could be shown there.
\<close>

section \<open>From the wire to the reply\<close>

text \<open>
  C9: a command sent over the wire is carried out once and answered once.  With the frame of a cache
  command next in the stream, in whatever chunks, one turn of the session consumes exactly that
  frame, runs the command once, and appends exactly one message, its reply, to the session's own
  queue and to no other.
\<close>

theorem command_over_the_wire:
  fixes exec :: "('b, 'e) execute_op"
  assumes "frame_fits f" "stream_bytes (rh_reader rh) = frame_write_to f @ rest"
    and "proper_chunks (rh_reader rh)" "\<forall>k. ReadErr k \<notin> set (sr_socket (rh_reader rh))"
    and "command_try_from f (w_clock w) = (Inr (Cache cc), clk1)"
    and "exec cc (w_exec w) clk1 = (Inr outcome, x, clk2)"
    and "mbox_open (w_boxes w (rh_sender rh))"
  shows "\<exists>rh' w'. repl_step exec False rh w = (Continue, rh', w') \<and>
    stream_bytes (rh_reader rh') = rest \<and> w_exec w' = x \<and> w_clock w' = clk2 \<and>
    mbox_queue (w_boxes w' (rh_sender rh)) =
      mbox_queue (w_boxes w (rh_sender rh)) @ [reply_to_bytes (reply_from_outcome outcome)] \<and>
    (\<forall>a. a \<noteq> rh_sender rh \<longrightarrow> w_boxes w' a = w_boxes w a)"
proof -
  obtain sr' where
      rc: "(read_half_read_command (rh_reader rh) (rh_sender rh) (w_boxes w) (w_clock w) ::
          ('b execute_error read_half_error, command option) result \<times> _) =
        (Inr (Some (Cache cc)), sr', w_boxes w, clk1)"
    and rest: "stream_bytes sr' = rest"
    using read_command_next [OF assms(1-5), of "rh_sender rh" "w_boxes w"] by blast
  show ?thesis
    using rest assms(6, 7)
    by (simp add: repl_step_def rc run_command_def send_reply_def sender_send_def)
qed

theorem command_over_the_wire_witness:
  "\<exists>rh' w'. repl_step (execute :: (unit, unit executor) execute_op) False
      \<lparr>rh_id = 1, rh_reader = \<lparr>sr_socket =
         [Chunk (frame_write_to (Array [BulkString ''GET'', BulkString ''k'']))], sr_buf = []\<rparr>,
       rh_sender = 7, rh_subscriptions = []\<rparr>
      \<lparr>w_exec = executor_new (cache_new []) (), w_channels = channels_new,
       w_boxes = (\<lambda>_. \<lparr>mbox_queue = [], mbox_open = True\<rparr>), w_clock = clock_at (Milliseconds 1)\<rparr> =
      (Continue, rh', w') \<and>
    stream_bytes (rh_reader rh') = [] \<and> w_exec w' = executor_new (cache_new []) () \<and>
    mbox_queue (w_boxes w' 7) = [''$-1'' @ CRLF]"
proof -
  let ?f = "Array [BulkString ''GET'', BulkString ''k'']"
  let ?rh = "\<lparr>rh_id = 1, rh_reader = \<lparr>sr_socket = [Chunk (frame_write_to ?f)], sr_buf = []\<rparr>,
    rh_sender = 7, rh_subscriptions = []\<rparr>"
  let ?w = "\<lparr>w_exec = executor_new (cache_new []) (), w_channels = channels_new,
    w_boxes = (\<lambda>_. \<lparr>mbox_queue = [], mbox_open = True\<rparr>), w_clock = clock_at (Milliseconds 1)\<rparr>"
  have lift: "command_try_from ?f (w_clock ?w) = (Inr (Cache (Read (Get ''k''))), clock_at (Milliseconds 1))"
    by (simp add: command_try_from_def dispatch_verb_def one_key_def command_defs lower_eval)
  have exec: "(execute :: (unit, unit executor) execute_op) (Read (Get ''k'')) (w_exec ?w)
      (clock_at (Milliseconds 1)) =
      (Inr (Value None), executor_new (cache_new []) (), clock_at (Milliseconds 1))"
    by (simp add: execute_def executor_new_def cache_execute_def cache_get_def now_eq)
  have wire: "frame_fits ?f" "stream_bytes (rh_reader ?rh) = frame_write_to ?f @ []"
      "proper_chunks (rh_reader ?rh)" "\<forall>k. ReadErr k \<notin> set (sr_socket (rh_reader ?rh))"
      "mbox_open (w_boxes ?w (rh_sender ?rh))"
    by (simp_all add: stream_bytes_def proper_chunks_def)
  from command_over_the_wire [where exec = "execute :: (unit, unit executor) execute_op",
      OF wire(1-4) lift exec wire(5)]
  obtain rh' w' where "repl_step (execute :: (unit, unit executor) execute_op) False ?rh ?w =
      (Continue, rh', w')" "stream_bytes (rh_reader rh') = []"
      "w_exec w' = executor_new (cache_new []) ()" "mbox_queue (w_boxes w' 7) = [''$-1'' @ CRLF]"
    by (auto simp: reply_from_outcome_def)
  then show ?thesis by blast
qed



section \<open>The tests of the repository\<close>




end
